(* ===== verification/Pickcode.thy ===== *)
theory Pickcode
  imports Go_Base
begin

text \<open>
  \<open>internal/drive/pickcode.go\<close>: decoding a 115 pickcode into the numeric file id without a
  network call. A pickcode is a prefix that names a substitution table, the id in base 36
  written through the table, and four check characters. The source has the decoder only;
  \<open>pickcode_encode\<close> is the specification of the format that its comment gives.
\<close>

section \<open>The code\<close>

definition pickcode_table :: "(string \<times> string) list" where
  "pickcode_table =
     [(''a'', ''fuln1ytpj3smg8d5a094qh7cxkbi62zvewro''),
      (''b'', ''sk721n9a0emlfpcrzbqdw3gjh6ty5xui48vo''),
      (''c'', ''ywcz3hite6f1j0guoakvdb2ns7p8qr9ml5x4''),
      (''d'', ''rq2vl5o7wsken9u8tp4jg3zbyc6xmhifd01a''),
      (''e'', ''ljm9eqbcfhw7ktv3x1dgp5ua8y6s4znr2io0''),
      (''fa'', ''fumk0ytpj3sng8d5a194qh7cxlbi62zvewro''),
      (''fb'', ''sk732o9a1enmfpcrzbqdw4gjh6ty5xui08vl''),
      (''fc'', ''ywcz6hite9f4j3gup2kvdb5osal0qr1nm8x7''),
      (''fd'', ''on6vl0r2wpkeq9u3ts8jg7zbyc1xmhifd45a''),
      (''fe'', ''ljm0es2cfhwakqv6x4dgp8r1by9u7znt5io3'')]"

definition pickcodeTrans :: "string \<Rightarrow> string option" where
  "pickcodeTrans = map_of pickcode_table"

datatype pickcode_error =
  PickcodeEmpty | PickcodeShape | PickcodeUnknownPrefix | PickcodeIllegalChar | PickcodeParse

definition pickcodeAlphabetIndex :: "char \<Rightarrow> int" where
  "pickcodeAlphabetIndex c =
     (let n = (of_char c :: nat) in
      if 48 \<le> n \<and> n \<le> 57 then int n - 48
      else if 97 \<le> n \<and> n \<le> 122 then int n - 97 + 10
      else - 1)"

text \<open>
  The loop over the ciphertext. Go ranges over the runes of the string, but the first byte
  of a rune outside ASCII is illegal, so the loop never gets past one and ranging over
  the bytes is the same.
\<close>

fun decode_cipher :: "string \<Rightarrow> string \<Rightarrow> string option" where
  "decode_cipher dec [] = Some []"
| "decode_cipher dec (c # cs) =
     (let idx = pickcodeAlphabetIndex c in
      if idx < 0 then None
      else map_option (Cons (dec ! nat idx)) (decode_cipher dec cs))"

definition PickcodeToID :: "string \<Rightarrow> pickcode_error + string" where
  "PickcodeToID pickcode =
     (if pickcode = [] then Inl PickcodeEmpty
      else
        let prefixLen = (if hd pickcode = CHR ''f'' then 2 else 1) in
        if length pickcode < prefixLen + 5 \<or> hd pickcode \<notin> set ''abcdef''
        then Inl PickcodeShape
        else
          let prefix = take prefixLen pickcode;
              cipher = drop prefixLen (take (length pickcode - 4) pickcode)
          in case pickcodeTrans prefix of
               None \<Rightarrow> Inl PickcodeUnknownPrefix
             | Some dec \<Rightarrow>
                 (case decode_cipher dec cipher of
                    None \<Rightarrow> Inl PickcodeIllegalChar
                  | Some digits \<Rightarrow>
                      (case parse_uint 36 digits of
                         None \<Rightarrow> Inl PickcodeParse
                       | Some n \<Rightarrow> Inr (format_uint 10 n))))"

section \<open>The format\<close>

text \<open>Plain digit \<open>enc[i]\<close> is written as \<open>alphabet[i]\<close>.\<close>

definition encode_digit :: "string \<Rightarrow> char \<Rightarrow> char" where
  "encode_digit dec c = (case index_byte c dec of Some i \<Rightarrow> digit_char i | None \<Rightarrow> c)"

definition pickcode_encode :: "string \<Rightarrow> string \<Rightarrow> nat \<Rightarrow> string \<Rightarrow> string" where
  "pickcode_encode prefix dec n check = prefix @ map (encode_digit dec) (format_uint 36 n) @ check"

section \<open>The tables are substitutions\<close>

definition alphabet :: string where
  "alphabet = map digit_char [0..<36]"

lemma alphabet_literal: "alphabet = ''0123456789abcdefghijklmnopqrstuvwxyz''"
  by code_simp

lemma tables_distinct: "list_all (\<lambda>(p, t). distinct t \<and> length t = 36) pickcode_table"
  by (simp add: pickcode_table_def)

lemma tables_cover:
  "list_all (\<lambda>(p, t). list_all (\<lambda>c. c \<in> set t) ''0123456789abcdefghijklmnopqrstuvwxyz'') pickcode_table"
  by (simp add: pickcode_table_def)

lemma pickcodeTrans_table:
  assumes "pickcodeTrans p = Some t"
  shows "distinct t" "length t = 36" "set alphabet \<subseteq> set t"
proof -
  from assms have "(p, t) \<in> set pickcode_table" by (auto simp: pickcodeTrans_def dest: map_of_SomeD)
  with tables_distinct tables_cover show "distinct t" "length t = 36" "set alphabet \<subseteq> set t"
    unfolding alphabet_literal list_all_iff by fast+
qed

definition prefix_shape :: "string \<Rightarrow> bool" where
  "prefix_shape p \<longleftrightarrow>
     (length p = 1 \<and> hd p \<in> set ''abcde'') \<or> (length p = 2 \<and> hd p = CHR ''f'')"

lemma prefixes_shape: "list_all (\<lambda>(p, t). prefix_shape p) pickcode_table"
  by code_simp

lemma pickcode_prefixes: "pickcodeTrans p = Some t \<Longrightarrow> prefix_shape p"
  using prefixes_shape by (auto simp: pickcodeTrans_def list_all_iff dest!: map_of_SomeD)

lemma alphabetIndex_digit [simp]: "d < 36 \<Longrightarrow> pickcodeAlphabetIndex (digit_char d) = int d"
  by (auto simp: pickcodeAlphabetIndex_def of_char_digit_char Let_def)

lemma alphabetIndex_range: "0 \<le> pickcodeAlphabetIndex c \<Longrightarrow> pickcodeAlphabetIndex c < 36"
  by (auto simp: pickcodeAlphabetIndex_def Let_def split: if_splits)

lemma digit_char_inj: "d < 36 \<Longrightarrow> e < 36 \<Longrightarrow> digit_char d = digit_char e \<Longrightarrow> d = e"
  by (metis digit_val_digit_char option.inject)

lemma alphabetIndex_inverse: "0 \<le> pickcodeAlphabetIndex c \<Longrightarrow> digit_char (nat (pickcodeAlphabetIndex c)) = c"
  by (auto simp: pickcodeAlphabetIndex_def digit_char_def Let_def nat_diff_distrib split: if_splits)

lemma decode_encode_digit:
  assumes "pickcodeTrans p = Some t" "c \<in> set alphabet"
  shows "decode_cipher t (encode_digit t c # cs) = map_option (Cons c) (decode_cipher t cs)"
proof -
  from assms have "c \<in> set t" by (auto dest: pickcodeTrans_table)
  then obtain i where i: "index_byte c t = Some i" using index_byte_None by fastforce
  with index_byte_Some [OF i] pickcodeTrans_table(2) [OF assms(1)]
  have "i < 36" "t ! i = c" by auto
  with i show ?thesis by (simp add: encode_digit_def)
qed

lemma decode_encode_digits:
  assumes "pickcodeTrans p = Some t" "set ds \<subseteq> set alphabet"
  shows "decode_cipher t (map (encode_digit t) ds) = Some ds"
  using assms(2) by (induction ds) (auto simp: decode_encode_digit [OF assms(1)] simp del: decode_cipher.simps(2))

lemma format_uint_alphabet: "set (format_uint 36 n) \<subseteq> set alphabet"
  using format_uint_digits [of 36] by (fastforce simp: alphabet_def)

lemma decode_cipher_length: "decode_cipher t cs = Some ds \<Longrightarrow> length ds = length cs"
  by (induction cs arbitrary: ds) (auto simp: Let_def split: if_splits)

lemma decode_cipher_inj:
  assumes t: "pickcodeTrans p = Some t"
  shows "decode_cipher t cs = Some ds \<Longrightarrow> cs = map (encode_digit t) ds"
proof (induction cs arbitrary: ds)
  case Nil
  then show ?case by simp
next
  case (Cons c cs)
  then obtain ds' where ds: "decode_cipher t cs = Some ds'" "0 \<le> pickcodeAlphabetIndex c"
      "ds = t ! nat (pickcodeAlphabetIndex c) # ds'"
    by (auto simp: Let_def split: if_splits)
  let ?i = "nat (pickcodeAlphabetIndex c)"
  from ds(2) have i: "?i < length t"
    using pickcodeTrans_table(2) [OF t] alphabetIndex_range [of c] by simp
  then obtain j where j: "index_byte (t ! ?i) t = Some j"
    using index_byte_None [of "t ! ?i" t] nth_mem [OF i] by (cases "index_byte (t ! ?i) t") auto
  with index_byte_Some [OF j] i pickcodeTrans_table(1) [OF t] have "j = ?i"
    by (auto simp: nth_eq_iff_index_eq)
  with j ds alphabetIndex_inverse [OF ds(2)] Cons.IH [OF ds(1)] show ?case
    by (simp add: encode_digit_def)
qed

lemma decode_cipher_alphabet:
  assumes t: "pickcodeTrans p = Some t" and "decode_cipher t cs = Some ds"
  shows "set ds \<subseteq> set alphabet"
proof -
  have "card (set t) = 36" "card (set alphabet) = 36"
    using pickcodeTrans_table [OF t] by (simp_all add: distinct_card alphabet_literal)
  then have "set t = set alphabet"
    using pickcodeTrans_table(3) [OF t] card_subset_eq [of "set t" "set alphabet"] by simp
  moreover have "set ds \<subseteq> set t" using assms(2)
  proof (induction cs arbitrary: ds)
    case (Cons c cs)
    then show ?case
      using pickcodeTrans_table(2) [OF t] alphabetIndex_range [of c]
      by (auto simp: Let_def split: if_splits)
  qed simp
  ultimately show ?thesis by simp
qed

lemma PickcodeToID_unfold:
  assumes t: "pickcodeTrans p = Some t" and "length check = 4" "body \<noteq> []"
  shows "PickcodeToID (p @ body @ check) =
    (case decode_cipher t body of
       None \<Rightarrow> Inl PickcodeIllegalChar
     | Some digits \<Rightarrow> (case parse_uint 36 digits of
         None \<Rightarrow> Inl PickcodeParse | Some n \<Rightarrow> Inr (format_uint 10 n)))"
proof -
  have len: "length p = (if hd (p @ body @ check) = CHR ''f'' then 2 else 1)"
    and h: "hd (p @ body @ check) \<in> set ''abcdef''" and ne: "p \<noteq> []"
    using pickcode_prefixes [OF t] by (cases p; auto simp: prefix_shape_def)+
  from assms(3) have "0 < length body" by simp
  then have "length (p @ body @ check) \<ge> length p + 5" using assms(2) by (cases body) auto
  moreover have "take (length p) (p @ body @ check) = p"
    "drop (length p) (take (length (p @ body @ check) - 4) (p @ body @ check)) = body"
    using assms(2) by simp_all
  ultimately show ?thesis
    using ne h t unfolding PickcodeToID_def Let_def len [symmetric] by simp
qed

lemma PickcodeToID_Inr_shape:
  assumes "PickcodeToID pc = Inr s"
  obtains p t body check where "pickcodeTrans p = Some t" "length check = 4" "body \<noteq> []"
    "pc = p @ body @ check"
proof -
  let ?k = "if hd pc = CHR ''f'' then 2 else 1 :: nat"
  from assms obtain t where t: "pickcodeTrans (take ?k pc) = Some t" and len: "?k + 5 \<le> length pc"
    by (auto simp: PickcodeToID_def Let_def split: if_splits option.splits)
  let ?body = "drop ?k (take (length pc - 4) pc)" and ?check = "drop (length pc - 4) pc"
  have "take ?k (take (length pc - 4) pc) = take ?k pc"
    using len by (simp add: min.absorb1 split: if_splits)
  then have "take ?k pc @ ?body = take (length pc - 4) pc" by (metis append_take_drop_id)
  then have "pc = take ?k pc @ ?body @ ?check" by (metis append_assoc append_take_drop_id)
  moreover have "length ?check = 4" "?body \<noteq> []" using len by auto
  ultimately show ?thesis using that t by blast
qed

section \<open>Properties\<close>

text \<open>C22. A code written in the pickcode format decodes to the decimal form of its file id:
  whatever the prefix, for every 64-bit id and whatever the four check characters.\<close>

theorem pickcode_roundtrip:
  assumes "pickcodeTrans p = Some t" and "n < 2 ^ 64" and "length check = 4"
  shows "PickcodeToID (pickcode_encode p t n check) = Inr (format_uint 10 n)"
proof -
  have "decode_cipher t (map (encode_digit t) (format_uint 36 n)) = Some (format_uint 36 n)"
    using assms(1) format_uint_alphabet by (rule decode_encode_digits)
  moreover have "map (encode_digit t) (format_uint 36 n) \<noteq> []" by simp
  ultimately show ?thesis
    using assms PickcodeToID_unfold [OF assms(1,3)]
    by (simp add: pickcode_encode_def parse_uint_format)
qed

theorem pickcode_roundtrip_witness:
  "pickcodeTrans ''b'' = Some ''sk721n9a0emlfpcrzbqdw3gjh6ty5xui48vo'' \<and>
   PickcodeToID (pickcode_encode ''b'' ''sk721n9a0emlfpcrzbqdw3gjh6ty5xui48vo'' 3456789012 ''wxyz'')
     = Inr (format_uint 10 3456789012)"
proof -
  have p: "pickcodeTrans ''b'' = Some ''sk721n9a0emlfpcrzbqdw3gjh6ty5xui48vo''"
    by (simp add: pickcodeTrans_def pickcode_table_def)
  show ?thesis using p pickcode_roundtrip [OF p, of 3456789012 "''wxyz''"] by simp
qed

text \<open>The decoder accepts exactly the codes of the format: a known prefix, base-36 digits
  (possibly zero padded) of a 64-bit number written through the prefix's table, and any four
  check characters, which it never looks at; the result is the number in decimal.\<close>

theorem PickcodeToID_exact:
  "PickcodeToID pc = Inr s \<longleftrightarrow>
   (\<exists>p t digits check n.
      pickcodeTrans p = Some t \<and> length check = 4 \<and>
      set digits \<subseteq> set alphabet \<and> parse_uint 36 digits = Some n \<and>
      pc = p @ map (encode_digit t) digits @ check \<and> s = format_uint 10 n)"
proof
  assume ok: "PickcodeToID pc = Inr s"
  then obtain p t body check where c: "pickcodeTrans p = Some t" "length check = 4" "body \<noteq> []"
    "pc = p @ body @ check" by (rule PickcodeToID_Inr_shape)
  with ok PickcodeToID_unfold [OF c(1-3)] obtain digits n where
    d: "decode_cipher t body = Some digits" "parse_uint 36 digits = Some n" "s = format_uint 10 n"
    by (auto split: option.splits)
  from c d decode_cipher_inj [OF c(1) d(1)] decode_cipher_alphabet [OF c(1) d(1)]
  show "\<exists>p t digits check n. pickcodeTrans p = Some t \<and> length check = 4 \<and>
      set digits \<subseteq> set alphabet \<and> parse_uint 36 digits = Some n \<and>
      pc = p @ map (encode_digit t) digits @ check \<and> s = format_uint 10 n" by blast
next
  assume "\<exists>p t digits check n. pickcodeTrans p = Some t \<and> length check = 4 \<and>
      set digits \<subseteq> set alphabet \<and> parse_uint 36 digits = Some n \<and>
      pc = p @ map (encode_digit t) digits @ check \<and> s = format_uint 10 n"
  then obtain p t digits check n where c: "pickcodeTrans p = Some t" "length check = 4"
    and d: "set digits \<subseteq> set alphabet" "parse_uint 36 digits = Some n"
    and pc: "pc = p @ map (encode_digit t) digits @ check" "s = format_uint 10 n" by blast
  from d(2) have "map (encode_digit t) digits \<noteq> []" by (auto simp: parse_uint_def)
  with PickcodeToID_unfold [OF c] decode_encode_digits [OF c(1) d(1)] d pc
  show "PickcodeToID pc = Inr s" by simp
qed

end
