(* ===== verification/Go_Path.thy ===== *)
theory Go_Path
  imports Go_Base
begin

text \<open>
  Go's \<open>path/filepath\<close> for a Unix system (the program runs in a Linux container): \<open>Clean\<close>,
  \<open>Join\<close>, \<open>Dir\<close>, \<open>Base\<close>, \<open>Ext\<close>, \<open>IsAbs\<close> and \<open>strings.EqualFold\<close> against an ASCII literal.
  An absolute clean path is also given as the list of its components (\<open>abs_path\<close>), which is
  the form the lemmas are stated in.
\<close>

section \<open>The functions\<close>

text \<open>
  \<open>Clean\<close> by components: empty ones and \<open>.\<close> are dropped, \<open>..\<close> removes the component before
  it, disappears at the root and is kept at the start of a relative path. The second
  argument is the output so far, reversed.
\<close>

fun clean_comps :: "bool \<Rightarrow> string list \<Rightarrow> string list \<Rightarrow> string list" where
  "clean_comps rooted st [] = rev st"
| "clean_comps rooted st (c # cs) =
     (if c = [] \<or> c = ''.'' then clean_comps rooted st cs
      else if c = ''..'' then
        (case st of
           [] \<Rightarrow> clean_comps rooted (if rooted then [] else [''..'']) cs
         | t # ts \<Rightarrow> if t = ''..'' then clean_comps rooted (''..'' # st) cs
                     else clean_comps rooted ts cs)
      else clean_comps rooted (c # st) cs)"

definition path_clean :: "string \<Rightarrow> string" where
  "path_clean p =
     (let rooted = has_prefix p ''/'';
          body = join_with ''/'' (clean_comps rooted [] (split_on (CHR ''/'') p))
      in if rooted then CHR ''/'' # body else if body = [] then ''.'' else body)"

definition path_join :: "string \<Rightarrow> string \<Rightarrow> string" where
  "path_join a b =
     (if a \<noteq> [] then path_clean (a @ ''/'' @ b) else if b \<noteq> [] then path_clean b else [])"

definition path_dir :: "string \<Rightarrow> string" where
  "path_dir p = path_clean (rev (dropWhile (\<lambda>c. c \<noteq> CHR ''/'') (rev p)))"

definition path_base :: "string \<Rightarrow> string" where
  "path_base p =
     (if p = [] then ''.''
      else let b = rev (takeWhile (\<lambda>c. c \<noteq> CHR ''/'') (rev (trim_right (CHR ''/'') p)))
           in if b = [] then ''/'' else b)"

definition path_ext :: "string \<Rightarrow> string" where
  "path_ext p =
     (let r = rev p; seg = takeWhile (\<lambda>c. c \<noteq> CHR ''/'' \<and> c \<noteq> CHR ''.'') r
      in case drop (length seg) r of
           c # _ \<Rightarrow> if c = CHR ''.'' then CHR ''.'' # rev seg else []
         | [] \<Rightarrow> [])"

definition is_abs :: "string \<Rightarrow> bool" where
  "is_abs p = has_prefix p ''/''"

text \<open>
  \<open>strings.EqualFold(s, t)\<close> where \<open>t\<close> is ASCII. Simple case folding relates an ASCII letter
  to its other case, and beyond ASCII only \<open>s\<close> to U+017F (bytes C5 BF) and \<open>k\<close> to U+212A
  (bytes E2 84 AA).
\<close>

fun equal_fold :: "string \<Rightarrow> string \<Rightarrow> bool" where
  "equal_fold [] [] = True"
| "equal_fold [] (c # t) = False"
| "equal_fold (x # s) [] = False"
| "equal_fold (x # s) (c # t) =
     ((ascii_lower x = ascii_lower c \<and> equal_fold s t) \<or>
      (ascii_lower c = CHR ''s'' \<and> has_prefix (x # s) [CHR 0xC5, CHR 0xBF] \<and>
         equal_fold (drop 1 s) t) \<or>
      (ascii_lower c = CHR ''k'' \<and> has_prefix (x # s) [CHR 0xE2, CHR 0x84, CHR 0xAA] \<and>
         equal_fold (drop 2 s) t))"

section \<open>Absolute clean paths\<close>

definition good_name :: "string \<Rightarrow> bool" where
  "good_name n \<longleftrightarrow> n \<noteq> [] \<and> n \<noteq> ''.'' \<and> n \<noteq> ''..'' \<and> CHR ''/'' \<notin> set n"

definition tail_path :: "string list \<Rightarrow> string" where
  "tail_path cs = concat (map (\<lambda>c. CHR ''/'' # c) cs)"

definition abs_path :: "string list \<Rightarrow> string" where
  "abs_path cs = (if cs = [] then ''/'' else tail_path cs)"

lemma tail_path_simps [simp]:
  "tail_path [] = []" "tail_path (c # cs) = CHR ''/'' # c @ tail_path cs"
  "tail_path (xs @ ys) = tail_path xs @ tail_path ys"
  by (simp_all add: tail_path_def)

lemma good_name_no_slash: "good_name n \<Longrightarrow> CHR ''/'' \<notin> set n"
  by (simp add: good_name_def)

lemma split_on_tail_path:
  "CHR ''/'' \<notin> set w \<Longrightarrow> \<forall>c \<in> set cs. CHR ''/'' \<notin> set c \<Longrightarrow>
   split_on (CHR ''/'') (w @ tail_path cs) = w # cs"
  by (induction cs arbitrary: w) (auto simp: split_on_append_sep split_on_no_sep)

lemma clean_comps_good:
  "\<forall>c \<in> set cs. good_name c \<Longrightarrow> clean_comps r st cs = rev st @ cs"
  by (induction cs arbitrary: st) (auto simp: good_name_def)

lemma clean_comps_trailing: "clean_comps r st (cs @ [[]]) = clean_comps r st cs"
  by (induction cs arbitrary: st) (auto split: list.split)

lemma join_with_tail_path: "cs \<noteq> [] \<Longrightarrow> CHR ''/'' # join_with ''/'' cs = tail_path cs"
proof (induction cs)
  case (Cons c cs)
  then show ?case by (cases cs) auto
qed simp

text \<open>Cleaning an absolute path whose components are all proper names leaves it alone.\<close>

lemma split_on_abs_path:
  "\<forall>c \<in> set cs. good_name c \<Longrightarrow> split_on (CHR ''/'') (tail_path cs) = [] # cs"
  using split_on_tail_path [of "[]" cs] by (auto dest: good_name_no_slash)

lemma path_clean_abs_path [simp, go_path]:
  assumes "\<forall>c \<in> set cs. good_name c"
  shows "path_clean (abs_path cs) = abs_path cs"
proof (cases "cs = []")
  case True
  then show ?thesis by (simp add: path_clean_def abs_path_def)
next
  case False
  have "clean_comps True [] (split_on (CHR ''/'') (tail_path cs)) = cs"
    by (simp only: split_on_abs_path [OF assms] clean_comps.simps) (simp add: clean_comps_good assms)
  moreover have "has_prefix (tail_path cs) ''/''" using False by (cases cs) auto
  ultimately show ?thesis
    using False join_with_tail_path [of cs] by (simp add: path_clean_def abs_path_def Let_def)
qed

lemma path_clean_ne [simp]: "path_clean p \<noteq> []"
  by (simp add: path_clean_def Let_def)

lemma path_join_ne: "b \<noteq> [] \<Longrightarrow> path_join a b \<noteq> []"
  by (simp add: path_join_def)

lemma path_join_abs_path [simp, go_path]:
  assumes "\<forall>c \<in> set cs. good_name c" "good_name n"
  shows "path_join (abs_path cs) n = abs_path (cs @ [n])"
proof -
  have sp: "split_on (CHR ''/'') (abs_path cs @ ''/'' @ n) = (if cs = [] then [[], [], n] else [] # cs @ [n])"
  proof (cases "cs = []")
    case True
    with assms show ?thesis
      by (simp add: abs_path_def split_on_no_sep good_name_no_slash)
  next
    case False
    have "split_on (CHR ''/'') (tail_path (cs @ [n])) = [] # cs @ [n]"
      using assms by (intro split_on_abs_path) auto
    with False show ?thesis by (simp add: abs_path_def)
  qed
  have "clean_comps True [] (split_on (CHR ''/'') (abs_path cs @ ''/'' @ n)) = cs @ [n]"
  proof -
    have "clean_comps True [] (cs @ [n]) = cs @ [n]"
      using assms by (subst clean_comps_good) auto
    moreover have "clean_comps True [] [n] = [n]"
      using assms(2) by (subst clean_comps_good) auto
    ultimately show ?thesis unfolding sp by (cases "cs = []") simp_all
  qed
  moreover have "has_prefix (abs_path cs @ ''/'' @ n) ''/''"
    by (cases cs) (auto simp: abs_path_def)
  moreover have "abs_path cs \<noteq> []"
    by (cases cs) (auto simp: abs_path_def)
  ultimately have "path_join (abs_path cs) n = CHR ''/'' # join_with ''/'' (cs @ [n])"
    by (simp only: path_join_def path_clean_def Let_def if_True not_False_eq_True)
  then show ?thesis
    using join_with_tail_path [of "cs @ [n]"] by (simp add: abs_path_def)
qed

text \<open>Two absolute paths are equal exactly when their components are.\<close>

lemma abs_path_inj [go_path]:
  assumes "\<forall>c \<in> set cs. good_name c" "\<forall>c \<in> set ds. good_name c"
  shows "abs_path cs = abs_path ds \<longleftrightarrow> cs = ds"
proof
  assume eq: "abs_path cs = abs_path ds"
  show "cs = ds"
  proof (cases "cs = [] \<or> ds = []")
    case True
    with eq assms show ?thesis
      by (cases cs; cases ds) (auto simp: abs_path_def good_name_def)
  next
    case False
    with eq have "tail_path cs = tail_path ds" by (simp add: abs_path_def)
    with split_on_abs_path [OF assms(1)] split_on_abs_path [OF assms(2)]
    have "[] # cs = [] # ds" by metis
    then show ?thesis by simp
  qed
qed simp

lemma path_dir_abs_path [simp, go_path]:
  assumes "\<forall>c \<in> set cs. good_name c" "good_name n"
  shows "path_dir (abs_path (cs @ [n])) = abs_path cs"
proof -
  have n: "CHR ''/'' \<notin> set n" using assms(2) by (rule good_name_no_slash)
  have "dropWhile (\<lambda>c. c \<noteq> CHR ''/'') (rev (abs_path (cs @ [n]))) = CHR ''/'' # rev (tail_path cs)"
    using n by (simp add: abs_path_def) (subst dropWhile_append2, auto)
  then have pd: "path_dir (abs_path (cs @ [n])) = path_clean (tail_path cs @ ''/'')"
    by (simp add: path_dir_def)
  have "split_on (CHR ''/'') (tail_path cs @ ''/'') = [] # cs @ [[]]"
  proof -
    have "\<forall>c \<in> set (cs @ [[]]). CHR ''/'' \<notin> set c" using assms(1) by (auto dest: good_name_no_slash)
    from split_on_tail_path [OF _ this, of "[]"] show ?thesis by simp
  qed
  moreover have "clean_comps True [] ([] # cs @ [[]]) = cs"
    by (simp add: clean_comps_trailing clean_comps_good assms(1))
  moreover have "has_prefix (tail_path cs @ ''/'') ''/''" by (cases cs) auto
  ultimately have "path_clean (tail_path cs @ ''/'') = CHR ''/'' # join_with ''/'' cs"
    by (simp only: path_clean_def Let_def if_True)
  with pd show ?thesis
    using join_with_tail_path [of cs] by (cases "cs = []") (simp_all add: abs_path_def)
qed

section \<open>Extensions\<close>

text \<open>The extension is a suffix, and a name without a slash after the dot keeps it whole.\<close>

lemma path_ext_suffix: "has_suffix p (path_ext p)"
proof -
  let ?seg = "takeWhile (\<lambda>c. c \<noteq> CHR ''/'' \<and> c \<noteq> CHR ''.'') (rev p)"
  have split: "rev p = ?seg @ drop (length ?seg) (rev p)"
    by (metis dropWhile_eq_drop takeWhile_dropWhile_id)
  show ?thesis
  proof (cases "drop (length ?seg) (rev p)")
    case Nil
    then show ?thesis by (simp add: path_ext_def Let_def has_suffix_def)
  next
    case (Cons c t)
    with split have "p = rev t @ c # rev ?seg"
      by (metis append_assoc append_Cons append_Nil rev.simps(2) rev_append rev_rev_ident)
    then have "has_suffix p (c # rev ?seg)" by (metis has_suffix_append)
    with Cons show ?thesis
      by (auto simp: path_ext_def Let_def has_suffix_def)
  qed
qed

lemma path_ext_dot [simp, go_path]:
  assumes "CHR ''/'' \<notin> set e" "CHR ''.'' \<notin> set e"
  shows "path_ext (s @ CHR ''.'' # e) = CHR ''.'' # e"
proof -
  have "takeWhile (\<lambda>c. c \<noteq> CHR ''/'' \<and> c \<noteq> CHR ''.'') (rev e @ CHR ''.'' # rev s) = rev e"
    using assms by (subst takeWhile_append2) auto
  then show ?thesis by (simp add: path_ext_def)
qed

text \<open>Removing the extension and putting it back restores the path.\<close>

lemma trim_suffix_ext: "trim_suffix p (path_ext p) @ path_ext p = p"
proof -
  obtain t where "p = t @ path_ext p" using path_ext_suffix [of p] by (auto simp: has_suffix_iff)
  then show ?thesis by (metis trim_suffix_append)
qed

end
