(* ===== verification/Go_Text.thy ===== *)
theory Go_Text
  imports Go_Path
begin

text \<open>
  Three more pieces of Go's standard library the program relies on: UTF-8 (package
  \<open>unicode/utf8\<close>), the file name patterns of \<open>filepath.Match\<close>, and the part of \<open>net/url\<close> that
  reads a query parameter of a link and escapes one.
\<close>

section \<open>UTF-8\<close>

text \<open>\<open>utf8\<close> encodes code points: the Chinese literals of the source are written with it.\<close>

definition utf8_char :: "int \<Rightarrow> string" where
  "utf8_char n =
     (if n < 0x80 then [char_of n]
      else if n < 0x800 then [char_of (0xC0 + n div 64), char_of (0x80 + n mod 64)]
      else if n < 0x10000 then
        [char_of (0xE0 + n div 4096), char_of (0x80 + n div 64 mod 64), char_of (0x80 + n mod 64)]
      else [char_of (0xF0 + n div 262144), char_of (0x80 + n div 4096 mod 64),
            char_of (0x80 + n div 64 mod 64), char_of (0x80 + n mod 64)])"

definition utf8 :: "int list \<Rightarrow> string" where
  "utf8 ns = concat (map utf8_char ns)"

text \<open>
  \<open>DecodeRuneInString\<close>: the first code point and its width; an ill-formed sequence is the
  replacement character with width 1, the empty string has width 0.
\<close>

definition rune_error :: int where "rune_error = 0xFFFD"

definition cont_byte :: "int \<Rightarrow> int \<Rightarrow> int \<Rightarrow> bool" where
  "cont_byte lo hi b \<longleftrightarrow> lo \<le> b \<and> b \<le> hi"

definition decode_rune :: "string \<Rightarrow> int \<times> nat" where
  "decode_rune s =
     (case map of_char (take 4 s) of
        [] \<Rightarrow> (rune_error, 0)
      | a # bs \<Rightarrow>
          if a < 0x80 then (a, 1)
          else if 0xC2 \<le> a \<and> a \<le> 0xDF then
            (case bs of
               b # _ \<Rightarrow> if cont_byte 0x80 0xBF b then ((a - 0xC0) * 64 + (b - 0x80), 2) else (rune_error, 1)
             | _ \<Rightarrow> (rune_error, 1))
          else if 0xE0 \<le> a \<and> a \<le> 0xEF then
            (case bs of
               b # c # _ \<Rightarrow>
                 if cont_byte (if a = 0xE0 then 0xA0 else 0x80) (if a = 0xED then 0x9F else 0xBF) b \<and>
                    cont_byte 0x80 0xBF c
                 then ((a - 0xE0) * 4096 + (b - 0x80) * 64 + (c - 0x80), 3) else (rune_error, 1)
             | _ \<Rightarrow> (rune_error, 1))
          else if 0xF0 \<le> a \<and> a \<le> 0xF4 then
            (case bs of
               b # c # d # _ \<Rightarrow>
                 if cont_byte (if a = 0xF0 then 0x90 else 0x80) (if a = 0xF4 then 0x8F else 0xBF) b \<and>
                    cont_byte 0x80 0xBF c \<and> cont_byte 0x80 0xBF d
                 then ((a - 0xF0) * 262144 + (b - 0x80) * 4096 + (c - 0x80) * 64 + (d - 0x80), 4)
                 else (rune_error, 1)
             | _ \<Rightarrow> (rune_error, 1))
          else (rune_error, 1))"

lemma decode_rune_width: "s \<noteq> [] \<Longrightarrow> 0 < snd (decode_rune s)"
  by (cases s) (auto simp: decode_rune_def split: list.splits)

section \<open>File name patterns (filepath.Match)\<close>

text \<open>\<open>getEsc\<close>: one character of a class; \<open>None\<close> is \<open>ErrBadPattern\<close>.\<close>

definition get_esc :: "string \<Rightarrow> (int \<times> string) option" where
  "get_esc chunk =
     (case chunk of
        [] \<Rightarrow> None
      | c # rest \<Rightarrow>
          if c = CHR ''-'' \<or> c = CHR '']'' then None
          else let ch = (if c = CHR 0x5C then rest else chunk) in
            if ch = [] then None
            else case decode_rune ch of (r, n) \<Rightarrow>
              if r = rune_error \<and> n = 1 then None
              else let nchunk = drop n ch in if nchunk = [] then None else Some (r, nchunk))"

lemma get_esc_length: "get_esc chunk = Some (r, rest) \<Longrightarrow> length rest < length chunk \<and> rest \<noteq> []"
proof -
  assume a: "get_esc chunk = Some (r, rest)"
  then obtain c cs where chunk: "chunk = c # cs" by (cases chunk) (auto simp: get_esc_def)
  define ch where "ch = (if c = CHR 0x5C then cs else chunk)"
  have ch: "ch \<noteq> []" "rest = drop (snd (decode_rune ch)) ch" "rest \<noteq> []" "length ch \<le> length chunk"
    using a by (auto simp: get_esc_def chunk ch_def Let_def split: if_splits prod.splits)
  have "0 < snd (decode_rune ch)" using ch(1) by (rule decode_rune_width)
  moreover have "snd (decode_rune ch) < length ch" using ch(2,3) by simp
  ultimately have "length rest < length ch" using ch(2) by simp
  then show ?thesis using ch by simp
qed

text \<open>The ranges of a class, up to its closing bracket: whether the character is in one of them.\<close>

function class_ranges :: "int \<Rightarrow> string \<Rightarrow> bool \<Rightarrow> bool \<Rightarrow> (bool \<times> string) option" where
  "class_ranges r chunk found started =
     (if chunk \<noteq> [] \<and> hd chunk = CHR '']'' \<and> started then Some (found, tl chunk)
      else case get_esc chunk of
        None \<Rightarrow> None
      | Some (lo, c1) \<Rightarrow>
          (if hd c1 = CHR ''-'' then
             (case get_esc (tl c1) of
                None \<Rightarrow> None
              | Some (hi, c2) \<Rightarrow> class_ranges r c2 (found \<or> lo \<le> r \<and> r \<le> hi) True)
           else class_ranges r c1 (found \<or> lo = r) True))"
  by pat_completeness auto
termination
proof (relation "measure (\<lambda>(r, chunk, f, s). length chunk)", goal_cases)
  case (2 r chunk found started x lo c1 y hi c2)
  then show ?case by (auto dest!: get_esc_length)
next
  case (3 r chunk found started x lo c1)
  then show ?case by (auto dest!: get_esc_length)
qed simp

declare class_ranges.simps [simp del]

lemma class_ranges_length:
  "class_ranges r chunk found started = Some (m, rest) \<Longrightarrow> length rest < length chunk"
proof (induction r chunk found started rule: class_ranges.induct)
  case (1 r chunk found started)
  show ?case
  proof (cases "chunk \<noteq> [] \<and> hd chunk = CHR '']'' \<and> started")
    case True
    then show ?thesis using 1(3) by (subst (asm) class_ranges.simps) auto
  next
    case False
    then obtain lo c1 where g: "get_esc chunk = Some (lo, c1)"
      using 1(3) by (subst (asm) class_ranges.simps) (auto split: option.splits)
    note l1 = get_esc_length [OF g]
    show ?thesis
    proof (cases "hd c1 = CHR ''-''")
      case True
      then obtain hi c2 where g2: "get_esc (tl c1) = Some (hi, c2)"
        and r: "class_ranges r c2 (found \<or> lo \<le> r \<and> r \<le> hi) True = Some (m, rest)"
        using 1(3) False g by (subst (asm) class_ranges.simps) (auto split: option.splits)
      show ?thesis using 1(1) [OF False g refl True g2 refl r] l1 get_esc_length [OF g2]
        by (auto intro: less_trans less_le_trans [of _ "length c2"])
    next
      case c: False
      then have "class_ranges r c1 (found \<or> lo = r) True = Some (m, rest)"
        using 1(3) False g by (subst (asm) class_ranges.simps) (auto split: option.splits)
      from 1(2) [OF False g refl c this] l1 show ?thesis by simp
    qed
  qed
qed

text \<open>
  \<open>matchChunk\<close>: \<open>None\<close> is a bad pattern, \<open>Some None\<close> no match, \<open>Some (Some t)\<close> a match that
  leaves \<open>t\<close>. The subject is \<open>None\<close> once the match has failed, as the code then only checks
  the pattern.
\<close>

function match_chunk :: "string \<Rightarrow> string option \<Rightarrow> string option option" where
  "match_chunk [] subj = Some subj"
| "match_chunk (c # cs) subj0 =
     (let subj = (if subj0 = Some [] then None else subj0) in
      if c = CHR ''['' then
        (let r = (case subj of None \<Rightarrow> 0 | Some s \<Rightarrow> fst (decode_rune s));
             s' = map_option (\<lambda>s. drop (snd (decode_rune s)) s) subj;
             negated = (cs \<noteq> [] \<and> hd cs = CHR ''^'')
         in case class_ranges r (if negated then tl cs else cs) False False of
              None \<Rightarrow> None
            | Some (found, rest) \<Rightarrow> match_chunk rest (if found = negated then None else s'))
      else if c = CHR ''?'' then
        match_chunk cs
          (case subj of
             None \<Rightarrow> None
           | Some s \<Rightarrow> if hd s = CHR ''/'' then None else Some (drop (snd (decode_rune s)) s))
      else if c = CHR 0x5C then
        (case cs of
           [] \<Rightarrow> None
         | d # ds \<Rightarrow>
             match_chunk ds
               (case subj of None \<Rightarrow> None | Some s \<Rightarrow> if d \<noteq> hd s then None else Some (tl s)))
      else match_chunk cs
             (case subj of None \<Rightarrow> None | Some s \<Rightarrow> if c \<noteq> hd s then None else Some (tl s)))"
  by pat_completeness auto
termination
proof (relation "measure (\<lambda>(chunk, s). length chunk)", goal_cases)
  case (2 c cs subj0 x r s' neg y found rest)
  then show ?case by (cases cs) (auto dest!: class_ranges_length split: if_splits)
qed auto

declare match_chunk.simps(2) [simp del]

text \<open>\<open>scanChunk\<close>: the stars at the front, then the pattern up to the next star outside a class.\<close>

fun chunk_len :: "bool \<Rightarrow> string \<Rightarrow> nat" where
  "chunk_len inr [] = 0"
| "chunk_len inr (c # cs) =
     (if c = CHR 0x5C then
        (case cs of [] \<Rightarrow> 1 | d # ds \<Rightarrow> 2 + chunk_len inr ds)
      else if c = CHR ''['' then 1 + chunk_len True cs
      else if c = CHR '']'' then 1 + chunk_len False cs
      else if c = CHR ''*'' \<and> \<not> inr then 0
      else 1 + chunk_len inr cs)"

definition scan_chunk :: "string \<Rightarrow> bool \<times> string \<times> string" where
  "scan_chunk pattern =
     (let p = dropWhile (\<lambda>c. c = CHR ''*'') pattern; n = chunk_len False p
      in (p \<noteq> pattern, take n p, drop n p))"

text \<open>The positions a star can end at: the tails after the first, second, ... byte that is not a
  separator.\<close>

fun star_tails :: "string \<Rightarrow> string list" where
  "star_tails [] = []"
| "star_tails (c # cs) = (if c = CHR ''/'' then [] else cs # star_tails cs)"

fun star_match :: "string \<Rightarrow> bool \<Rightarrow> string list \<Rightarrow> string option" where
  "star_match chunk lastp [] = None"
| "star_match chunk lastp (t # ts) =
     (case match_chunk chunk (Some t) of
        None \<Rightarrow> None
      | Some None \<Rightarrow> star_match chunk lastp ts
      | Some (Some u) \<Rightarrow> if lastp \<and> u \<noteq> [] then star_match chunk lastp ts else Some u)"

text \<open>
  \<open>Match\<close>, as its only caller uses it: \<open>true\<close> when the whole name matches; a bad pattern counts
  as no match.
\<close>

function glob_match :: "string \<Rightarrow> string \<Rightarrow> bool" where
  "glob_match pattern name =
     (if pattern = [] then name = []
      else case scan_chunk pattern of (star, chunk, rest) \<Rightarrow>
        if star \<and> chunk = [] then CHR ''/'' \<notin> set name
        else if \<not> (length rest < length pattern) then False
        else case match_chunk chunk (Some name) of
          Some (Some t) \<Rightarrow>
            if t = [] \<or> rest \<noteq> [] then glob_match rest t
            else if star then
              (case star_match chunk True (star_tails name) of Some u \<Rightarrow> glob_match rest u | None \<Rightarrow> False)
            else False
        | None \<Rightarrow> False
        | Some None \<Rightarrow>
            if star then
              (case star_match chunk (rest = []) (star_tails name) of Some u \<Rightarrow> glob_match rest u | None \<Rightarrow> False)
            else False)"
  by pat_completeness auto
termination
  by (relation "measure (\<lambda>(p, n). length p)") auto

declare glob_match.simps [simp del]

text \<open>The guard on the length never fires: a chunk is empty only at a star.\<close>

lemma chunk_len_pos: "p \<noteq> [] \<Longrightarrow> hd p \<noteq> CHR ''*'' \<Longrightarrow> 0 < chunk_len False p"
  by (cases p) (auto split: list.splits)

lemma scan_chunk_progress:
  assumes "pattern \<noteq> []" "scan_chunk pattern = (star, chunk, rest)"
  shows "length rest < length pattern"
proof -
  let ?p = "dropWhile (\<lambda>c. c = CHR ''*'') pattern"
  have rest: "rest = drop (chunk_len False ?p) ?p" using assms(2) by (simp add: scan_chunk_def Let_def)
  show ?thesis
  proof (cases "?p = pattern")
    case True
    have "hd pattern \<noteq> CHR ''*''" 
    proof
      assume h: "hd pattern = CHR ''*''"
      then obtain ps where ps: "pattern = CHR ''*'' # ps" using assms(1) by (cases pattern) auto
      have "length (dropWhile (\<lambda>c. c = CHR ''*'') ps) \<le> length ps" by (rule length_dropWhile_le)
      then show False using True ps by simp
    qed
    then show ?thesis using chunk_len_pos [of pattern] rest assms(1) True by simp
  next
    case False
    then have "length ?p < length pattern"
      by (metis dropWhile_eq_self_iff length_dropWhile_le append_Nil le_neq_implies_less length_append
          add_cancel_left_left length_0_conv takeWhile_dropWhile_id)
    then show ?thesis using rest by simp
  qed
qed

section \<open>Links (net/url)\<close>

text \<open>\<open>strings.Cut\<close> with a separator of one byte: the part before it and the part after it.\<close>

definition cut_at :: "char \<Rightarrow> string \<Rightarrow> string \<times> string" where
  "cut_at c s = (takeWhile (\<lambda>x. x \<noteq> c) s, tl (dropWhile (\<lambda>x. x \<noteq> c) s))"

definition hex_val :: "char \<Rightarrow> nat option" where
  "hex_val c = (case digit_val c of Some d \<Rightarrow> if d < 16 then Some d else None | None \<Rightarrow> None)"

text \<open>
  \<open>unescape\<close> in the modes \<open>encodePath\<close>, \<open>encodeFragment\<close> (\<open>qmode = False\<close>) and
  \<open>encodeQueryComponent\<close> (\<open>qmode = True\<close>): \<open>None\<close> is a malformed escape.
\<close>

fun unescape :: "bool \<Rightarrow> string \<Rightarrow> string option" where
  "unescape qmode [] = Some []"
| "unescape qmode (c # cs) =
     (if c = CHR ''%'' then
        (case cs of
           a # b # rest \<Rightarrow>
             (case (hex_val a, hex_val b) of
                (Some x, Some y) \<Rightarrow> map_option (\<lambda>t. char_of (16 * x + y) # t) (unescape qmode rest)
              | _ \<Rightarrow> None)
         | _ \<Rightarrow> None)
      else map_option (\<lambda>t. (if qmode \<and> c = CHR ''+'' then CHR '' '' else c) # t) (unescape qmode cs))"

definition is_ctl :: "char \<Rightarrow> bool" where
  "is_ctl c \<longleftrightarrow> (of_char c :: nat) < 0x20 \<or> (of_char c :: nat) = 0x7F"

definition is_letter :: "char \<Rightarrow> bool" where
  "is_letter c \<longleftrightarrow> (let n = (of_char c :: nat) in 65 \<le> n \<and> n \<le> 90 \<or> 97 \<le> n \<and> n \<le> 122)"

text \<open>\<open>getScheme\<close>: \<open>None\<close> is the error of a missing scheme; no scheme is the empty string.\<close>

fun get_scheme :: "nat \<Rightarrow> string \<Rightarrow> string \<Rightarrow> (string \<times> string) option" where
  "get_scheme i raw [] = Some ([], raw)"
| "get_scheme i raw (c # cs) =
     (if is_letter c then get_scheme (i + 1) raw cs
      else if (case digit_val c of Some _ \<Rightarrow> True | None \<Rightarrow> False) \<or> c = CHR ''+'' \<or> c = CHR ''-'' \<or> c = CHR ''.''
      then (if i = 0 then Some ([], raw) else get_scheme (i + 1) raw cs)
      else if c = CHR '':'' then (if i = 0 then None else Some (take i raw, cs))
      else Some ([], raw))"

text \<open>
  \<open>url.Parse\<close> as far as the query needs it: \<open>None\<close> when parsing fails, else \<open>RawQuery\<close>. What the
  authority (user, host, port) may look like differs between Go releases, so its check is the
  parameter \<open>auth_ok\<close>.
\<close>

definition url_raw_query :: "(string \<Rightarrow> bool) \<Rightarrow> string \<Rightarrow> string option" where
  "url_raw_query auth_ok raw =
     (case cut_at (CHR ''#'') raw of (u, frag) \<Rightarrow>
        if unescape False frag = None \<or> list_ex is_ctl u then None
        else if u = ''*'' then Some []
        else case get_scheme 0 u u of
          None \<Rightarrow> None
        | Some (scheme, rest0) \<Rightarrow>
            (case cut_at (CHR ''?'') rest0 of (rest, query) \<Rightarrow>
               if \<not> has_prefix rest ''/'' \<and> scheme \<noteq> [] then Some query
               else if \<not> has_prefix rest ''/'' \<and> CHR '':'' \<in> set (fst (cut_at (CHR ''/'') rest)) then None
               else
                 let has_auth = (scheme \<noteq> [] \<or> \<not> has_prefix rest ''///'') \<and> has_prefix rest ''//'';
                     authority = takeWhile (\<lambda>c. c \<noteq> CHR ''/'') (drop 2 rest);
                     path = (if has_auth then dropWhile (\<lambda>c. c \<noteq> CHR ''/'') (drop 2 rest) else rest)
                 in if has_auth \<and> \<not> auth_ok authority then None
                    else if unescape False path = None then None else Some query))"

text \<open>\<open>Query().Get(key)\<close>: the value of the first well-formed pair with that key.\<close>

definition query_pair :: "string \<Rightarrow> (string \<times> string) option" where
  "query_pair part =
     (if CHR '';'' \<in> set part \<or> part = [] then None
      else case cut_at (CHR ''='') part of (k, v) \<Rightarrow>
        (case (unescape True k, unescape True v) of (Some k', Some v') \<Rightarrow> Some (k', v') | _ \<Rightarrow> None))"

definition query_get :: "string \<Rightarrow> string \<Rightarrow> string" where
  "query_get query key =
     (case map_of (List.map_filter query_pair (split_on (CHR ''&'') query)) key of
        Some v \<Rightarrow> v | None \<Rightarrow> [])"

lemma unescape_plain:
  "CHR ''%'' \<notin> set s \<Longrightarrow> (q \<longrightarrow> CHR ''+'' \<notin> set s) \<Longrightarrow> unescape q s = Some s"
  by (induction s) auto

lemma cut_at_absent: "c \<notin> set s \<Longrightarrow> cut_at c s = (s, [])"
  by (induction s) (auto simp: cut_at_def)

lemma cut_at_first: "c \<notin> set s \<Longrightarrow> cut_at c (s @ c # t) = (s, t)"
  by (induction s) (auto simp: cut_at_def)

text \<open>\<open>url.QueryEscape\<close>.\<close>

definition query_safe :: "char \<Rightarrow> bool" where
  "query_safe c \<longleftrightarrow>
     is_letter c \<or> (48 \<le> (of_char c :: nat) \<and> (of_char c :: nat) \<le> 57) \<or> c = CHR ''-'' \<or> c = CHR ''_'' \<or> c = CHR ''.'' \<or> c = CHR ''~''"

definition upper_hex :: "nat \<Rightarrow> char" where
  "upper_hex n = (if n < 10 then char_of (48 + n) else char_of (55 + n))"

definition escape_byte :: "char \<Rightarrow> string" where
  "escape_byte c =
     (if query_safe c then [c] else if c = CHR '' '' then ''+''
      else [CHR ''%'', upper_hex ((of_char c :: nat) div 16), upper_hex ((of_char c :: nat) mod 16)])"

definition query_escape :: "string \<Rightarrow> string" where
  "query_escape s = concat (map escape_byte s)"

lemma of_char_less_256: "(of_char c :: nat) < 256"
  using of_char_mod_256 [of c, where ?'a = nat] by (metis mod_less_divisor zero_less_numeral)

lemma of_char_div_16: "(of_char c :: nat) div 16 < 16"
  using of_char_less_256 [of c] by (intro less_mult_imp_div_less) simp

lemma hex_val_upper_hex: "n < 16 \<Longrightarrow> hex_val (upper_hex n) = Some n"
  by (auto simp: hex_val_def upper_hex_def digit_val_def Let_def)

lemma unescape_escape_byte: "unescape True (escape_byte c @ s) = map_option ((#) c) (unescape True s)"
proof -
  have h: "hex_val (upper_hex ((of_char c :: nat) div 16)) = Some (of_char c div 16)"
    "hex_val (upper_hex ((of_char c :: nat) mod 16)) = Some (of_char c mod 16)"
    using of_char_div_16 [of c] by (simp_all add: hex_val_upper_hex)
  have "16 * ((of_char c :: nat) div 16) + of_char c mod 16 = of_char c" by simp
  then have "char_of (16 * ((of_char c :: nat) div 16) + of_char c mod 16) = c" by (metis char_of_char)
  moreover have "query_safe c \<Longrightarrow> c \<noteq> CHR ''%'' \<and> c \<noteq> CHR ''+''" by (auto simp: query_safe_def is_letter_def)
  ultimately show ?thesis using h by (auto simp: escape_byte_def)
qed

lemma unescape_query_escape [go_str]: "unescape True (query_escape s) = Some s"
  by (induction s) (simp_all add: query_escape_def unescape_escape_byte)

text \<open>What an escaped text is made of.\<close>

lemma query_safe_upper_hex: "n < 16 \<Longrightarrow> query_safe (upper_hex n)"
  by (auto simp: upper_hex_def query_safe_def is_letter_def Let_def)

lemma escape_byte_chars: "x \<in> set (escape_byte c) \<Longrightarrow> query_safe x \<or> x = CHR ''+'' \<or> x = CHR ''%''"
  using of_char_div_16 [of c] query_safe_upper_hex by (auto simp: escape_byte_def split: if_splits)

lemma query_escape_chars: "x \<in> set (query_escape s) \<Longrightarrow> query_safe x \<or> x = CHR ''+'' \<or> x = CHR ''%''"
  using escape_byte_chars by (auto simp: query_escape_def)

lemma query_safe_not: "query_safe c \<Longrightarrow> c \<notin> {CHR ''%'', CHR ''+'', CHR ''&'', CHR ''='', CHR '';'', CHR ''#'', CHR 0x0A}"
  "query_safe c \<Longrightarrow> \<not> is_ctl c"
  by (auto simp: query_safe_def is_letter_def is_ctl_def Let_def)

end
