(* ===== verification/Activity_Types.thy ===== *)
theory Activity_Types
  imports Go_Text
begin

text \<open>
  The vocabulary of the activity stream in \<open>internal/store/activity.go\<close>: scopes, triggers,
  results, the counters of an execution and the events that record it. The Go types are
  strings, so they are strings here, and their readable names are given by code points.
\<close>

type_synonym Scope = string
type_synonym Trigger = string
type_synonym State = string

definition ScopeUpload :: Scope where "ScopeUpload = ''upload''"
definition ScopeDownload :: Scope where "ScopeDownload = ''download''"

definition Scope_String :: "Scope \<Rightarrow> string" where
  "Scope_String s = (if s = ScopeDownload then utf8 [0x4E91, 0x7AEF] else utf8 [0x672C, 0x5730])"

definition TriggerInit :: Trigger where "TriggerInit = ''init''"
definition TriggerWatch :: Trigger where "TriggerWatch = ''watch''"
definition TriggerCron :: Trigger where "TriggerCron = ''cron''"
definition TriggerManual :: Trigger where "TriggerManual = ''manual''"

definition Trigger_String :: "Trigger \<Rightarrow> string" where
  "Trigger_String t =
     (if t = TriggerInit then utf8 [0x542F, 0x52A8]
      else if t = TriggerWatch then utf8 [0x76D1, 0x542C]
      else if t = TriggerCron then utf8 [0x5B9A, 0x65F6]
      else if t = TriggerManual then utf8 [0x624B, 0x52A8]
      else t)"

definition StateSuccess :: State where "StateSuccess = ''success''"
definition StateCanceled :: State where "StateCanceled = ''canceled''"
definition StateFailed :: State where "StateFailed = ''failed''"

definition State_String :: "State \<Rightarrow> string" where
  "State_String s =
     (if s = StateSuccess then utf8 [0x6210, 0x529F]
      else if s = StateCanceled then utf8 [0x5DF2, 0x53D6, 0x6D88]
      else if s = StateFailed then utf8 [0x5931, 0x8D25]
      else s)"

record Stats =
  sScanned :: i64
  sUploaded :: i64
  sDownloaded :: i64
  sStrmGenerated :: i64
  sDeleted :: i64
  sFailed :: i64
  sDirs :: "string list"

definition zero_Stats :: Stats where
  "zero_Stats = \<lparr>sScanned = 0, sUploaded = 0, sDownloaded = 0, sStrmGenerated = 0, sDeleted = 0,
     sFailed = 0, sDirs = []\<rparr>"

definition Stats_Empty :: "Stats \<Rightarrow> bool" where
  "Stats_Empty s \<longleftrightarrow> sScanned s = 0 \<and> sUploaded s = 0 \<and> sDownloaded s = 0 \<and>
     sStrmGenerated s = 0 \<and> sDeleted s = 0 \<and> sFailed s = 0"

record OpCount =
  ocOp :: string
  ocLabel :: string
  ocCount :: i64
  ocDanger :: bool

text \<open>Times and durations are counted in milliseconds.\<close>

record Event =
  eSeq :: u64
  eTime :: int
  eTaskID :: string
  eTaskName :: string
  eScope :: Scope
  eTrigger :: Trigger
  eState :: State
  eStats :: Stats
  eDurationMs :: i64
  eError :: string
  ePlanOnly :: bool
  eOpCounts :: "OpCount list"
  eSamplePaths :: "string list"

definition maxEvents :: nat where "maxEvents = 5000"

end
