(* ===== verification/Job_Queue.thy ===== *)
theory Job_Queue
  imports Activity_Types "HOL-Library.AList"
begin

text \<open>
  \<open>internal/engine/queue.go\<close>: the global single-consumer work queue. First the operations as the
  code has them, each a function on the queue's fields. Then the contract a deduplicating
  queue promises (locale \<open>dedup_queue\<close>) and its interpretation on these operations. Last
  the interleaving of producers and the worker, as a step relation over the critical
  sections and the channel \<open>kick\<close>.
\<close>

section \<open>Jobs\<close>

text \<open>The rank table; looking up an unknown trigger gives Go's zero value.\<close>

definition triggerRank :: "Trigger \<Rightarrow> int" where
  "triggerRank t =
     (case map_of [(TriggerInit, 0), (TriggerWatch, 1), (TriggerCron, 2), (TriggerManual, 3)] t of
        Some r \<Rightarrow> r | None \<Rightarrow> 0)"

record Job =
  jTaskID :: string
  jScope :: Scope
  jTrigger :: Trigger
  jDir :: string
  jFile :: string

definition zero_Job :: Job where
  "zero_Job = \<lparr>jTaskID = [], jScope = [], jTrigger = [], jDir = [], jFile = []\<rparr>"

definition dedupKey :: "Job \<Rightarrow> string" where
  "dedupKey j =
     (if jFile j \<noteq> [] then jTaskID j @ ''|file|'' @ jScope j @ ''|'' @ jFile j
      else jTaskID j @ ''|dir|'' @ jScope j @ ''|'' @ jDir j)"

lemma set_delete: "set (AList.delete k xs) = {p \<in> set xs. fst p \<noteq> k}"
  by (auto simp: AList.delete_eq)

lemma set_update_subset: "distinct (map fst xs) \<Longrightarrow> set (AList.update k v xs) = insert (k, v) {p \<in> set xs. fst p \<noteq> k}"
  by (induction xs) (auto intro: rev_image_eqI)

section \<open>The queue and its operations\<close>

text \<open>
  The Go map \<open>pending\<close> is an association list with distinct keys (kept by \<open>queue_ok\<close>), so
  that iterating over it is executable; \<open>q_kick\<close> says whether the channel of capacity 1
  holds a token.
\<close>

record Queue =
  q_order :: "string list"
  q_pending :: "(string \<times> Job) list"
  q_kick :: bool
  q_closed :: bool

definition NewQueue :: Queue where
  "NewQueue = \<lparr>q_order = [], q_pending = [], q_kick = False, q_closed = False\<rparr>"

text \<open>Reading a Go map at a missing key gives the zero value.\<close>

definition pending_at :: "Queue \<Rightarrow> string \<Rightarrow> Job" where
  "pending_at q k = (case map_of (q_pending q) k of Some j \<Rightarrow> j | None \<Rightarrow> zero_Job)"

text \<open>The non-blocking send on \<open>kick\<close>.\<close>

definition send_kick :: "Queue \<Rightarrow> Queue" where
  "send_kick q = q\<lparr>q_kick := True\<rparr>"

text \<open>
  The critical section of \<open>Enqueue\<close>: the new queue, and whether the call goes on to kick.
\<close>

definition enqueue_locked :: "Job \<Rightarrow> Queue \<Rightarrow> Queue \<times> bool" where
  "enqueue_locked j q =
     (if q_closed q then (q, False)
      else
        let key = dedupKey j in
        case map_of (q_pending q) key of
          Some prev \<Rightarrow>
            (if triggerRank (jTrigger j) > triggerRank (jTrigger prev)
             then (q\<lparr>q_pending := AList.update key (prev\<lparr>jTrigger := jTrigger j\<rparr>) (q_pending q)\<rparr>, False)
             else (q, False))
        | None \<Rightarrow>
            (q\<lparr>q_pending := AList.update key j (q_pending q), q_order := q_order q @ [key]\<rparr>, True))"

definition Enqueue :: "Job \<Rightarrow> Queue \<Rightarrow> Queue" where
  "Enqueue j q = (case enqueue_locked j q of (q', kick) \<Rightarrow> if kick then send_kick q' else q')"

text \<open>One round of the loop in \<open>Take\<close>: a job, the end, or waiting on the channel.\<close>

datatype take_result = Taken Job | QueueClosed | MustWait

definition take_locked :: "Queue \<Rightarrow> take_result \<times> Queue" where
  "take_locked q =
     (case q_order q of
        key # rest \<Rightarrow>
          (Taken (pending_at q key),
           q\<lparr>q_order := rest, q_pending := AList.delete key (q_pending q)\<rparr>)
      | [] \<Rightarrow> (if q_closed q then QueueClosed else MustWait, q))"

definition Take :: "Queue \<Rightarrow> (Job \<times> Queue) option" where
  "Take q = (case take_locked q of (Taken j, q') \<Rightarrow> Some (j, q') | _ \<Rightarrow> None)"

text \<open>The loop of \<open>DropTask\<close> over \<open>order\<close>, deleting from \<open>pending\<close> as it goes.\<close>

fun drop_loop :: "string \<Rightarrow> string list \<Rightarrow> string list \<Rightarrow> Queue \<Rightarrow> Queue" where
  "drop_loop taskID kept [] q = q\<lparr>q_order := kept\<rparr>"
| "drop_loop taskID kept (k # ks) q =
     (if jTaskID (pending_at q k) = taskID
      then drop_loop taskID kept ks (q\<lparr>q_pending := AList.delete k (q_pending q)\<rparr>)
      else drop_loop taskID (kept @ [k]) ks q)"

definition DropTask :: "string \<Rightarrow> Queue \<Rightarrow> Queue" where
  "DropTask taskID q = drop_loop taskID [] (q_order q) q"

definition Close :: "Queue \<Rightarrow> Queue" where
  "Close q = send_kick (q\<lparr>q_closed := True\<rparr>)"

definition Len :: "Queue \<Rightarrow> nat" where
  "Len q = length (q_order q)"

definition HasPending :: "string \<Rightarrow> Queue \<Rightarrow> bool" where
  "HasPending taskID q = list_ex (\<lambda>(k, j). jTaskID j = taskID) (q_pending q)"

section \<open>Invariant and abstraction\<close>

text \<open>
  \<open>order\<close> lists the keys of \<open>pending\<close> once each, and every job sits under its own key. The
  queue then stands for the list of its jobs in order.
\<close>

definition queue_ok :: "Queue \<Rightarrow> bool" where
  "queue_ok q \<longleftrightarrow>
     distinct (q_order q) \<and> distinct (map fst (q_pending q)) \<and>
     set (q_order q) = dom (map_of (q_pending q)) \<and>
     (\<forall>k j. map_of (q_pending q) k = Some j \<longrightarrow> dedupKey j = k)"

definition jobs :: "Queue \<Rightarrow> Job list" where
  "jobs q = map (pending_at q) (q_order q)"

definition raise_trigger :: "Job \<Rightarrow> Job \<Rightarrow> Job" where
  "raise_trigger j prev =
     (if triggerRank (jTrigger j) > triggerRank (jTrigger prev) then prev\<lparr>jTrigger := jTrigger j\<rparr> else prev)"

lemma dedupKey_trigger [simp]: "dedupKey (j\<lparr>jTrigger := t\<rparr>) = dedupKey j"
  by (simp add: dedupKey_def)

lemma raise_trigger_simps [simp]:
  "dedupKey (raise_trigger j prev) = dedupKey prev"
  "jTaskID (raise_trigger j prev) = jTaskID prev"
  by (simp_all add: raise_trigger_def)

lemma raise_trigger_rank: "triggerRank (jTrigger (raise_trigger j prev)) =
    max (triggerRank (jTrigger prev)) (triggerRank (jTrigger j))"
  by (auto simp: raise_trigger_def)

lemma queue_ok_pending:
  assumes "queue_ok q"
  shows "k \<in> set (q_order q) \<Longrightarrow> map_of (q_pending q) k = Some (pending_at q k)"
    and "k \<in> set (q_order q) \<Longrightarrow> dedupKey (pending_at q k) = k"
    and "k \<notin> set (q_order q) \<Longrightarrow> map_of (q_pending q) k = None"
  using assms by (auto simp: queue_ok_def pending_at_def)

lemma queue_ok_has_iff: "queue_ok q \<Longrightarrow> map_of (q_pending q) k = None \<longleftrightarrow> k \<notin> set (q_order q)"
  by (auto simp: queue_ok_def)

lemma keys_of_jobs: "queue_ok q \<Longrightarrow> map dedupKey (jobs q) = q_order q"
  by (simp add: jobs_def map_idI queue_ok_pending(2))

lemma queue_ok_NewQueue [simp]: "queue_ok NewQueue" "jobs NewQueue = []"
  by (simp_all add: NewQueue_def queue_ok_def jobs_def)

lemma queue_ok_kick [simp]: "queue_ok (q\<lparr>q_kick := b\<rparr>) = queue_ok q" "jobs (q\<lparr>q_kick := b\<rparr>) = jobs q"
  "queue_ok (q\<lparr>q_closed := b\<rparr>) = queue_ok q" "jobs (q\<lparr>q_closed := b\<rparr>) = jobs q"
  by (simp_all add: queue_ok_def jobs_def pending_at_def)

lemma queue_ok_send_kick [simp]: "queue_ok (send_kick q) = queue_ok q" "jobs (send_kick q) = jobs q"
  by (simp_all add: send_kick_def)

section \<open>Every operation keeps the invariant and acts on the job list\<close>

definition enq_spec :: "Job \<Rightarrow> Job list \<Rightarrow> Job list" where
  "enq_spec j js =
     (if dedupKey j \<in> set (map dedupKey js)
      then map (\<lambda>i. if dedupKey i = dedupKey j then raise_trigger j i else i) js
      else js @ [j])"

lemma enqueue_locked_closed: "q_closed q \<Longrightarrow> enqueue_locked j q = (q, False)"
  by (simp add: enqueue_locked_def)

lemma enqueue_locked_merge:
  assumes ok: "queue_ok q" and open_q: "\<not> q_closed q" and old: "dedupKey j \<in> set (q_order q)"
  shows "enqueue_locked j q =
    (q\<lparr>q_pending := AList.update (dedupKey j) (raise_trigger j (pending_at q (dedupKey j))) (q_pending q)\<rparr>,
     False)"
  using open_q queue_ok_pending(1) [OF ok old] update_triv [OF queue_ok_pending(1) [OF ok old]]
  by (simp add: enqueue_locked_def raise_trigger_def Let_def)

lemma enqueue_locked_new:
  assumes ok: "queue_ok q" and open_q: "\<not> q_closed q" and new: "dedupKey j \<notin> set (q_order q)"
  shows "enqueue_locked j q =
    (q\<lparr>q_pending := AList.update (dedupKey j) j (q_pending q), q_order := q_order q @ [dedupKey j]\<rparr>, True)"
  using open_q queue_ok_pending(3) [OF ok new] by (simp add: enqueue_locked_def Let_def)

lemma pending_at_update:
  "pending_at (q\<lparr>q_pending := AList.update k v (q_pending q)\<rparr>) k' = (if k' = k then v else pending_at q k')"
  "pending_at (q\<lparr>q_pending := AList.update k v (q_pending q), q_order := ord\<rparr>) k' =
     (if k' = k then v else pending_at q k')"
  by (simp_all add: pending_at_def update_conv')

lemma enqueue_locked_spec:
  assumes ok: "queue_ok q" and open_q: "\<not> q_closed q"
  shows "queue_ok (fst (enqueue_locked j q))"
    and "jobs (fst (enqueue_locked j q)) = enq_spec j (jobs q)"
    and "snd (enqueue_locked j q) \<longleftrightarrow> dedupKey j \<notin> set (q_order q)"
    and "q_kick (fst (enqueue_locked j q)) = q_kick q" "\<not> q_closed (fst (enqueue_locked j q))"
proof -
  let ?k = "dedupKey j"
  have keys: "set (map dedupKey (jobs q)) = set (q_order q)" using keys_of_jobs [OF ok] by simp
  have "queue_ok (fst (enqueue_locked j q)) \<and>
    jobs (fst (enqueue_locked j q)) = enq_spec j (jobs q) \<and>
    (snd (enqueue_locked j q) \<longleftrightarrow> ?k \<notin> set (q_order q)) \<and>
    q_kick (fst (enqueue_locked j q)) = q_kick q \<and> \<not> q_closed (fst (enqueue_locked j q))"
  proof (cases "?k \<in> set (q_order q)")
    case True
    have at: "dedupKey (pending_at q ?k) = ?k" using queue_ok_pending(2) [OF ok True] .
    have "queue_ok (fst (enqueue_locked j q))"
      using ok True at by (auto simp: enqueue_locked_merge [OF ok open_q True] queue_ok_def
          update_conv' distinct_update split: if_splits)
    moreover have "jobs (fst (enqueue_locked j q)) = enq_spec j (jobs q)"
      using True keys queue_ok_pending(2) [OF ok]
      by (auto simp: enqueue_locked_merge [OF ok open_q True] jobs_def enq_spec_def pending_at_update)
    ultimately show ?thesis using True open_q by (simp add: enqueue_locked_merge [OF ok open_q True])
  next
    case False
    have "queue_ok (fst (enqueue_locked j q))"
      using ok False by (auto simp: enqueue_locked_new [OF ok open_q False] queue_ok_def
          update_conv' distinct_update split: if_splits)
    moreover have "jobs (fst (enqueue_locked j q)) = enq_spec j (jobs q)"
      using False keys by (auto simp: enqueue_locked_new [OF ok open_q False] jobs_def enq_spec_def pending_at_update)
    ultimately show ?thesis using False open_q by (simp add: enqueue_locked_new [OF ok open_q False])
  qed
  then show "queue_ok (fst (enqueue_locked j q))"
    and "jobs (fst (enqueue_locked j q)) = enq_spec j (jobs q)"
    and "snd (enqueue_locked j q) \<longleftrightarrow> dedupKey j \<notin> set (q_order q)"
    and "q_kick (fst (enqueue_locked j q)) = q_kick q" "\<not> q_closed (fst (enqueue_locked j q))"
    by blast+
qed

lemma Enqueue_alt:
  "Enqueue j q = (if snd (enqueue_locked j q) then send_kick (fst (enqueue_locked j q))
                  else fst (enqueue_locked j q))"
  by (simp add: Enqueue_def split: prod.split)

lemma Enqueue_spec:
  assumes "queue_ok q" "\<not> q_closed q"
  shows "queue_ok (Enqueue j q)" "jobs (Enqueue j q) = enq_spec j (jobs q)" "\<not> q_closed (Enqueue j q)"
  using enqueue_locked_spec [OF assms] by (simp_all add: Enqueue_alt) (simp_all add: send_kick_def)

lemma Enqueue_closed: "q_closed q \<Longrightarrow> Enqueue j q = q"
  by (simp add: Enqueue_def enqueue_locked_closed)

text \<open>\<open>Take\<close> removes the first job.\<close>

lemma pending_at_delete:
  "pending_at (q\<lparr>q_order := ord, q_pending := AList.delete k (q_pending q)\<rparr>) k' =
     (if k' = k then zero_Job else pending_at q k')"
  "pending_at (q\<lparr>q_pending := AList.delete k (q_pending q)\<rparr>) k' =
     (if k' = k then zero_Job else pending_at q k')"
  by (simp_all add: pending_at_def delete_conv')

lemma take_locked_cons:
  assumes ok: "queue_ok q" and ord: "q_order q = k # ks"
  defines "q' \<equiv> q\<lparr>q_order := ks, q_pending := AList.delete k (q_pending q)\<rparr>"
  shows "take_locked q = (Taken (hd (jobs q)), q')" "queue_ok q'" "jobs q' = tl (jobs q)"
proof -
  have k: "k \<notin> set ks" "distinct ks" using ok ord by (auto simp: queue_ok_def)
  show "take_locked q = (Taken (hd (jobs q)), q')" by (simp add: take_locked_def ord q'_def jobs_def)
  have "dom (map_of (q_pending q)) - {k} = set ks" using ok ord k by (auto simp: queue_ok_def)
  then show "queue_ok q'"
    using ok k by (auto simp: queue_ok_def q'_def delete_conv' distinct_delete split: if_splits)
  show "jobs q' = tl (jobs q)"
    using k by (auto simp: jobs_def q'_def ord pending_at_delete)
qed

lemma Take_cons:
  assumes ok: "queue_ok q" and js: "jobs q = j # js"
  obtains q' where "Take q = Some (j, q')" "queue_ok q'" "jobs q' = js" "q_closed q' = q_closed q"
proof -
  from js obtain k ks where ord: "q_order q = k # ks" by (cases "q_order q") (auto simp: jobs_def)
  from take_locked_cons [OF ok ord] js that show ?thesis by (simp add: Take_def)
qed

lemma Take_nil: "jobs q = [] \<Longrightarrow> Take q = None"
  by (simp add: jobs_def Take_def take_locked_def)

text \<open>\<open>DropTask\<close> keeps exactly the other tasks' jobs, in order.\<close>

lemma drop_loop_spec:
  assumes "distinct (kept @ ks)" "distinct (map fst (q_pending q))"
    "set (kept @ ks) = dom (map_of (q_pending q))"
    "\<forall>k j. map_of (q_pending q) k = Some j \<longrightarrow> dedupKey j = k"
    "\<forall>k \<in> set kept. jTaskID (pending_at q k) \<noteq> t"
  shows "queue_ok (drop_loop t kept ks q) \<and> q_closed (drop_loop t kept ks q) = q_closed q \<and>
    q_kick (drop_loop t kept ks q) = q_kick q \<and>
    jobs (drop_loop t kept ks q) =
      map (pending_at q) kept @ filter (\<lambda>j. jTaskID j \<noteq> t) (map (pending_at q) ks)"
  using assms
proof (induction ks arbitrary: kept q)
  case Nil
  then show ?case by (simp add: queue_ok_def jobs_def pending_at_def)
next
  case (Cons k ks)
  show ?case
  proof (cases "jTaskID (pending_at q k) = t")
    case True
    let ?q = "q\<lparr>q_pending := AList.delete k (q_pending q)\<rparr>"
    have k: "k \<notin> set kept" "k \<notin> set ks" using Cons.prems(1) by auto
    have "set (kept @ ks) = dom (map_of (q_pending q)) - {k}"
      unfolding Cons.prems(3) [symmetric] using k by auto
    then have IH: "queue_ok (drop_loop t kept ks ?q) \<and> q_closed (drop_loop t kept ks ?q) = q_closed ?q \<and>
      q_kick (drop_loop t kept ks ?q) = q_kick ?q \<and>
      jobs (drop_loop t kept ks ?q) =
        map (pending_at ?q) kept @ filter (\<lambda>j. jTaskID j \<noteq> t) (map (pending_at ?q) ks)"
      using Cons.prems k by (intro Cons.IH) (auto simp: delete_conv' distinct_delete pending_at_delete split: if_splits)
    have same: "map (pending_at ?q) kept = map (pending_at q) kept"
      "map (pending_at ?q) ks = map (pending_at q) ks"
      using k by (auto simp: pending_at_delete)
    show ?thesis using IH True by (simp only: same) simp
  next
    case False
    with Cons.prems Cons.IH [of "kept @ [k]" q] show ?thesis by simp
  qed
qed

lemma DropTask_spec:
  assumes "queue_ok q"
  shows "queue_ok (DropTask t q)" "jobs (DropTask t q) = filter (\<lambda>j. jTaskID j \<noteq> t) (jobs q)"
    "q_closed (DropTask t q) = q_closed q" "q_kick (DropTask t q) = q_kick q"
  using drop_loop_spec [of "[]" "q_order q" q t] assms
  by (simp_all add: DropTask_def queue_ok_def jobs_def)

lemma HasPending_iff: "queue_ok q \<Longrightarrow> HasPending t q \<longleftrightarrow> (\<exists>j \<in> set (jobs q). jTaskID j = t)"
proof -
  assume ok: "queue_ok q"
  have "(k, j) \<in> set (q_pending q) \<longleftrightarrow> map_of (q_pending q) k = Some j" for k j
    using ok by (simp add: queue_ok_def)
  then have "HasPending t q \<longleftrightarrow> (\<exists>k j. map_of (q_pending q) k = Some j \<and> jTaskID j = t)"
    by (auto simp: HasPending_def list_ex_iff)
  also have "\<dots> \<longleftrightarrow> (\<exists>k \<in> set (q_order q). jTaskID (pending_at q k) = t)"
  proof
    assume "\<exists>k j. map_of (q_pending q) k = Some j \<and> jTaskID j = t"
    then obtain k j where kj: "map_of (q_pending q) k = Some j" "jTaskID j = t" by blast
    then have "k \<in> set (q_order q)" "pending_at q k = j"
      using ok by (auto simp: queue_ok_def pending_at_def)
    with kj show "\<exists>k \<in> set (q_order q). jTaskID (pending_at q k) = t" by blast
  next
    assume "\<exists>k \<in> set (q_order q). jTaskID (pending_at q k) = t"
    with queue_ok_pending(1) [OF ok]
    show "\<exists>k j. map_of (q_pending q) k = Some j \<and> jTaskID j = t" by blast
  qed
  finally show ?thesis by (simp add: jobs_def)
qed

lemma Close_spec [simp]: "queue_ok (Close q) = queue_ok q" "jobs (Close q) = jobs q"
  by (simp_all add: Close_def)

section \<open>The contract of a deduplicating queue\<close>

text \<open>Taking up to \<open>n\<close> jobs, and the keys in the order of their first arrival.\<close>

fun take_n :: "('q \<Rightarrow> ('j \<times> 'q) option) \<Rightarrow> nat \<Rightarrow> 'q \<Rightarrow> 'j list \<times> 'q" where
  "take_n deq 0 q = ([], q)"
| "take_n deq (Suc n) q =
     (case deq q of None \<Rightarrow> ([], q)
      | Some (j, q') \<Rightarrow> (case take_n deq n q' of (js, q'') \<Rightarrow> (j # js, q'')))"

definition add_new :: "'k \<Rightarrow> 'k list \<Rightarrow> 'k list" where
  "add_new k ks = (if k \<in> set ks then ks else ks @ [k])"

locale dedup_queue =
  fixes enq :: "'j \<Rightarrow> 'q \<Rightarrow> 'q"
    and deq :: "'q \<Rightarrow> ('j \<times> 'q) option"
    and drop :: "'t \<Rightarrow> 'q \<Rightarrow> 'q"
    and content :: "'q \<Rightarrow> 'j list"
    and inv :: "'q \<Rightarrow> bool"
    and key :: "'j \<Rightarrow> 'k"
    and owner :: "'j \<Rightarrow> 't"
    and rank :: "'j \<Rightarrow> int"
    and merge :: "'j \<Rightarrow> 'j \<Rightarrow> 'j"
  assumes distinct_content: "inv q \<Longrightarrow> distinct (map key (content q))"
    and inv_enq: "inv q \<Longrightarrow> inv (enq j q)"
    and content_enq: "inv q \<Longrightarrow> content (enq j q) =
      (if key j \<in> key ` set (content q)
       then map (\<lambda>i. if key i = key j then merge j i else i) (content q) else content q @ [j])"
    and key_merge: "key (merge j i) = key i"
    and rank_merge: "rank (merge j i) = max (rank i) (rank j)"
    and deq_Nil: "content q = [] \<Longrightarrow> deq q = None"
    and deq_Cons: "inv q \<Longrightarrow> content q = j # js \<Longrightarrow>
      \<exists>q'. deq q = Some (j, q') \<and> inv q' \<and> content q' = js"
    and inv_drop: "inv q \<Longrightarrow> inv (drop t q)"
    and content_drop: "inv q \<Longrightarrow> content (drop t q) = filter (\<lambda>j. owner j \<noteq> t) (content q)"
begin

lemma take_n_content:
  "inv q \<Longrightarrow> fst (take_n deq n q) = take n (content q) \<and>
     inv (snd (take_n deq n q)) \<and> content (snd (take_n deq n q)) = List.drop n (content q)"
proof (induction n arbitrary: q)
  case 0
  then show ?case by simp
next
  case (Suc n)
  show ?case
  proof (cases "content q")
    case Nil
    with Suc.prems deq_Nil show ?thesis by simp
  next
    case (Cons j js)
    with deq_Cons [OF Suc.prems] obtain q' where "deq q = Some (j, q')" "inv q'" "content q' = js"
      by blast
    with Cons Suc.IH [of q'] show ?thesis by (auto split: prod.split)
  qed
qed

lemma keys_enq: "inv q \<Longrightarrow> map key (content (enq j q)) = add_new (key j) (map key (content q))"
  by (auto simp: content_enq add_new_def key_merge)

lemma inv_enq_all: "inv q \<Longrightarrow> inv (fold enq js q)"
  by (induction js arbitrary: q) (auto simp: inv_enq)

lemma keys_enq_all:
  "inv q \<Longrightarrow> map key (content (fold enq js q)) = fold (\<lambda>j. add_new (key j)) js (map key (content q))"
  by (induction js arbitrary: q) (auto simp: inv_enq keys_enq)

text \<open>Whatever is queued has the highest rank of everything submitted under its key.\<close>

lemma rank_enq_all:
  assumes "inv q" "content q = []" "i \<in> set (content (fold enq js q))"
  shows "rank i = Max (rank ` {j \<in> set js. key j = key i}) \<and> (\<exists>j \<in> set js. key j = key i)"
  using assms(3)
proof (induction js arbitrary: i rule: rev_induct)
  case Nil
  with assms show ?case by simp
next
  case (snoc j js)
  let ?q = "fold enq js q"
  have ok: "inv ?q" using inv_enq_all [OF assms(1)] .
  have Ins: "{x \<in> set (js @ [j]). key x = k} =
      (if key j = k then insert j {x \<in> set js. key x = k} else {x \<in> set js. key x = k})" for k
    by auto
  show ?case
  proof (cases "key j \<in> key ` set (content ?q)")
    case True
    from snoc.prems True obtain i0 where i0: "i0 \<in> set (content ?q)"
      and i: "i = (if key i0 = key j then merge j i0 else i0)"
      by (auto simp: content_enq [OF ok])
    have IH: "rank i0 = Max (rank ` {x \<in> set js. key x = key i0})" "\<exists>x \<in> set js. key x = key i0"
      using snoc.IH [OF i0] by blast+
    show ?thesis
    proof (cases "key i0 = key j")
      case True
      then have "{x \<in> set js. key x = key j} \<noteq> {}" using IH(2) by auto
      then have "Max (rank ` insert j {x \<in> set js. key x = key j}) = max (rank j) (rank i0)"
        using IH(1) True by simp
      moreover from True i have "i = merge j i0" "key i = key j" by (simp_all add: key_merge)
      ultimately show ?thesis unfolding Ins by (simp add: rank_merge max.commute)
    next
      case False
      with i IH have "rank i = Max (rank ` {x \<in> set (js @ [j]). key x = key i})"
        unfolding Ins by simp
      with False i IH show ?thesis by auto
    qed
  next
    case False
    show ?thesis
    proof (cases "i = j")
      case True
      have "key j \<notin> key ` set js"
      proof
        assume "key j \<in> key ` set js"
        moreover have "set (fold (\<lambda>j. add_new (key j)) js ks) = set ks \<union> key ` set js" for ks
          by (induction js arbitrary: ks) (auto simp: add_new_def)
        ultimately have "key j \<in> set (map key (content ?q))"
          using keys_enq_all [OF assms(1), of js] assms(2) by simp
        with False show False by simp
      qed
      then have "\<And>x. x \<in> set js \<Longrightarrow> key x \<noteq> key j" by (metis imageI)
      then have none: "{x \<in> set js. key x = key j} = {}" by auto
      have "{x \<in> set (js @ [j]). key x = key j} = {j}" unfolding Ins none by simp
      with True have "rank i = Max (rank ` {x \<in> set (js @ [j]). key x = key i})" by simp
      with True show ?thesis by auto
    next
      case neq: False
      with snoc.prems False have i: "i \<in> set (content ?q)" by (auto simp: content_enq [OF ok])
      with False have "key i \<noteq> key j" by (metis imageI)
      with snoc.IH [OF i] have "rank i = Max (rank ` {x \<in> set (js @ [j]). key x = key i})"
        unfolding Ins by simp
      with snoc.IH [OF i] show ?thesis by auto
    qed
  qed
qed

text \<open>Draining the queue after any submissions: each key once, in order of first arrival.\<close>

lemma drain_all:
  assumes "inv q" "content q = []" "length (content (fold enq js q)) \<le> n"
  shows "map key (fst (take_n deq n (fold enq js q))) = fold (\<lambda>j. add_new (key j)) js []"
    and "\<forall>i \<in> set (fst (take_n deq n (fold enq js q))). rank i = Max (rank ` {j \<in> set js. key j = key i})"
  using take_n_content [OF inv_enq_all [OF assms(1)], of n js] keys_enq_all [OF assms(1), of js]
    rank_enq_all [OF assms(1,2)] assms(2,3) by simp_all

lemma dropped_never_taken:
  assumes "inv q" "i \<in> set (fst (take_n deq n (drop t q)))"
  shows "owner i \<noteq> t" "i \<in> set (content q)"
  using take_n_content [OF inv_drop [OF assms(1)], of n t] assms
  by (auto simp: content_drop dest: in_set_takeD)

end

text \<open>The code's queue, while it is open, satisfies the contract.\<close>

definition open_queue :: "Queue \<Rightarrow> bool" where
  "open_queue q \<longleftrightarrow> queue_ok q \<and> \<not> q_closed q"

interpretation jq: dedup_queue Enqueue Take DropTask jobs open_queue dedupKey jTaskID
    "\<lambda>j. triggerRank (jTrigger j)" raise_trigger
proof unfold_locales
  fix q :: Queue and j :: Job and js t
  show "open_queue q \<Longrightarrow> distinct (map dedupKey (jobs q))"
    using keys_of_jobs [of q] by (simp add: open_queue_def queue_ok_def)
  show "open_queue q \<Longrightarrow> open_queue (Enqueue j q)" by (simp add: open_queue_def Enqueue_spec)
  show "open_queue q \<Longrightarrow> jobs (Enqueue j q) =
      (if dedupKey j \<in> dedupKey ` set (jobs q)
       then map (\<lambda>i. if dedupKey i = dedupKey j then raise_trigger j i else i) (jobs q)
       else jobs q @ [j])"
    by (simp add: open_queue_def Enqueue_spec enq_spec_def)
  show "jobs q = [] \<Longrightarrow> Take q = None" by (rule Take_nil)
  show "open_queue q \<Longrightarrow> jobs q = j # js \<Longrightarrow> \<exists>q'. Take q = Some (j, q') \<and> open_queue q' \<and> jobs q' = js"
    by (metis Take_cons open_queue_def)
  show "open_queue q \<Longrightarrow> open_queue (DropTask t q)" by (simp add: open_queue_def DropTask_spec)
  show "open_queue q \<Longrightarrow> jobs (DropTask t q) = filter (\<lambda>j. jTaskID j \<noteq> t) (jobs q)"
    by (simp add: open_queue_def DropTask_spec)
qed (simp_all add: raise_trigger_rank)

lemma open_NewQueue [simp]: "open_queue NewQueue"
  by (simp add: open_queue_def) (simp add: NewQueue_def)

section \<open>The deduplication key\<close>

text \<open>
  The key separates its parts with \<open>|\<close> and does not escape it, so it is injective only as
  long as task ids and scopes do not contain one: \<open>NewID\<close> produces \<open>t_\<close> and hex digits, and
  the scopes are the two constants.
\<close>

definition plain :: "string \<Rightarrow> bool" where
  "plain s \<longleftrightarrow> CHR ''|'' \<notin> set s"

lemma append_bar_eq:
  assumes "plain a" "plain b"
  shows "a @ CHR ''|'' # s = b @ CHR ''|'' # t \<longleftrightarrow> a = b \<and> s = t"
proof
  assume eq: "a @ CHR ''|'' # s = b @ CHR ''|'' # t"
  have "takeWhile (\<lambda>c. c \<noteq> CHR ''|'') (x @ CHR ''|'' # y) = x" if "plain x" for x y
    using that by (subst takeWhile_append2) (auto simp: plain_def)
  from this [OF assms(1), of s] this [OF assms(2), of t] eq show "a = b \<and> s = t" by simp
qed simp

definition target :: "Job \<Rightarrow> bool \<times> string" where
  "target j = (if jFile j \<noteq> [] then (True, jFile j) else (False, jDir j))"

lemma dedupKey_iff:
  assumes "plain (jTaskID i)" "plain (jTaskID j)" "plain (jScope i)" "plain (jScope j)"
  shows "dedupKey i = dedupKey j \<longleftrightarrow>
    jTaskID i = jTaskID j \<and> jScope i = jScope j \<and> target i = target j"
  using assms by (auto simp: dedupKey_def target_def append_bar_eq)

section \<open>Producers and the worker\<close>

text \<open>
  The interleaving of the code: every critical section (under \<open>q.mu\<close>) is one step, the send on
  \<open>kick\<close> after \<open>Enqueue\<close> released the lock is a step of its own (\<open>s_kicks\<close> counts the producers
  between the two), and the worker of \<open>engine.go\<close> loops over \<open>Take\<close>: checking, waiting in the
  \<open>select\<close>, running a job. A context that is cancelled stays cancelled.
\<close>

datatype worker = Checking | Waiting | Running Job | Stopped

record sys =
  s_queue :: Queue
  s_kicks :: nat
  s_worker :: worker
  s_cancelled :: bool

definition init_sys :: sys where
  "init_sys = \<lparr>s_queue = NewQueue, s_kicks = 0, s_worker = Checking, s_cancelled = False\<rparr>"

inductive qstep :: "sys \<Rightarrow> sys \<Rightarrow> bool" where
  enqueue: "enqueue_locked j (s_queue s) = (q', k) \<Longrightarrow>
     qstep s (s\<lparr>s_queue := q', s_kicks := (if k then Suc (s_kicks s) else s_kicks s)\<rparr>)"
| kick: "s_kicks s = Suc n \<Longrightarrow> qstep s (s\<lparr>s_queue := send_kick (s_queue s), s_kicks := n\<rparr>)"
| drop: "qstep s (s\<lparr>s_queue := DropTask t (s_queue s)\<rparr>)"
| close: "qstep s (s\<lparr>s_queue := Close (s_queue s)\<rparr>)"
| cancel: "qstep s (s\<lparr>s_cancelled := True\<rparr>)"
| take: "s_worker s = Checking \<Longrightarrow> take_locked (s_queue s) = (Taken j, q') \<Longrightarrow>
     qstep s (s\<lparr>s_queue := q', s_worker := Running j\<rparr>)"
| empty_closed: "s_worker s = Checking \<Longrightarrow> take_locked (s_queue s) = (QueueClosed, q') \<Longrightarrow>
     qstep s (s\<lparr>s_worker := Stopped\<rparr>)"
| empty_open: "s_worker s = Checking \<Longrightarrow> take_locked (s_queue s) = (MustWait, q') \<Longrightarrow>
     qstep s (s\<lparr>s_worker := Waiting\<rparr>)"
| wake: "s_worker s = Waiting \<Longrightarrow> q_kick (s_queue s) \<Longrightarrow>
     qstep s (s\<lparr>s_queue := (s_queue s)\<lparr>q_kick := False\<rparr>, s_worker := Checking\<rparr>)"
| give_up: "s_worker s = Waiting \<Longrightarrow> s_cancelled s \<Longrightarrow> qstep s (s\<lparr>s_worker := Stopped\<rparr>)"
| done_job: "s_worker s = Running j \<Longrightarrow> qstep s (s\<lparr>s_worker := Checking\<rparr>)"

inductive_cases qstepE: "qstep s t"

inductive reachable :: "sys \<Rightarrow> bool" where
  start: "reachable init_sys"
| step: "reachable s \<Longrightarrow> qstep s t \<Longrightarrow> reachable t"

text \<open>
  The strengthened invariant: a waiting worker with something to see (a job, or the closed
  flag) has a token in the channel or a producer about to send one.
\<close>

definition no_lost_wakeup :: "sys \<Rightarrow> bool" where
  "no_lost_wakeup s \<longleftrightarrow>
     (s_worker s = Waiting \<and> (q_order (s_queue s) \<noteq> [] \<or> q_closed (s_queue s)) \<longrightarrow>
        q_kick (s_queue s) \<or> 0 < s_kicks s)"

definition sys_ok :: "sys \<Rightarrow> bool" where
  "sys_ok s \<longleftrightarrow> queue_ok (s_queue s) \<and> no_lost_wakeup s"

lemma take_locked_empty:
  "take_locked q = (MustWait, q') \<longleftrightarrow> q_order q = [] \<and> \<not> q_closed q \<and> q' = q"
  "take_locked q = (QueueClosed, q') \<longleftrightarrow> q_order q = [] \<and> q_closed q \<and> q' = q"
  by (auto simp: take_locked_def split: list.splits)

lemma take_locked_Taken:
  assumes "queue_ok q" "take_locked q = (Taken j, q')"
  shows "queue_ok q'" "jobs q = j # jobs q'" "q_closed q' = q_closed q" "q_kick q' = q_kick q"
proof -
  from assms(2) obtain k ks where ord: "q_order q = k # ks"
    by (auto simp: take_locked_def split: list.splits if_splits)
  from take_locked_cons [OF assms(1) ord] assms(2) have q': "q' = q\<lparr>q_order := ks, q_pending := AList.delete k (q_pending q)\<rparr>"
    "j = hd (jobs q)" "queue_ok q'" "jobs q' = tl (jobs q)" by simp_all
  then show "queue_ok q'" "jobs q = j # jobs q'" "q_closed q' = q_closed q" "q_kick q' = q_kick q"
    using ord by (simp_all add: jobs_def)
qed

lemma enqueue_locked_keeps:
  assumes "queue_ok q" "enqueue_locked j q = (q', k)"
  shows "queue_ok q'" "q_kick q' = q_kick q" "q_closed q' = q_closed q"
    "k \<or> (q_order q' \<noteq> [] \<longrightarrow> q_order q \<noteq> [])"
proof -
  have "queue_ok q' \<and> q_kick q' = q_kick q \<and> q_closed q' = q_closed q \<and>
    (k \<or> (q_order q' \<noteq> [] \<longrightarrow> q_order q \<noteq> []))"
  proof (cases "q_closed q")
    case True
    with assms show ?thesis by (simp add: enqueue_locked_closed)
  next
    case False
    from enqueue_locked_spec [OF assms(1) False, of j] assms(2) False show ?thesis
      by (auto simp: enqueue_locked_def Let_def split: option.splits if_splits)
  qed
  then show "queue_ok q'" "q_kick q' = q_kick q" "q_closed q' = q_closed q"
    "k \<or> (q_order q' \<noteq> [] \<longrightarrow> q_order q \<noteq> [])" by blast+
qed

lemma DropTask_order: "queue_ok q \<Longrightarrow> q_order (DropTask t q) \<noteq> [] \<Longrightarrow> q_order q \<noteq> []"
  using keys_of_jobs [of q] keys_of_jobs [of "DropTask t q"] DropTask_spec [of q t] by auto

lemma qstep_sys_ok: "qstep s t \<Longrightarrow> sys_ok s \<Longrightarrow> sys_ok t"
proof (induction rule: qstep.induct)
  case (enqueue j s q' k)
  then have "queue_ok (s_queue s)" by (simp add: sys_ok_def)
  with enqueue enqueue_locked_keeps [OF _ enqueue.hyps] show ?case
    by (auto simp: sys_ok_def no_lost_wakeup_def)
next
  case (drop s t)
  then show ?case
    using DropTask_spec [of "s_queue s" t] DropTask_order [of "s_queue s" t]
    by (auto simp: sys_ok_def no_lost_wakeup_def)
next
  case (take s j q')
  then show ?case using take_locked_Taken [of "s_queue s" j q'] by (simp add: sys_ok_def no_lost_wakeup_def)
qed (auto simp: sys_ok_def no_lost_wakeup_def send_kick_def Close_def take_locked_empty)

lemma reachable_sys_ok: "reachable s \<Longrightarrow> sys_ok s"
proof (induction rule: reachable.induct)
  case start
  show ?case by (simp add: sys_ok_def no_lost_wakeup_def init_sys_def)
next
  case (step s t)
  then show ?case by (blast intro: qstep_sys_ok)
qed

text \<open>A waiting worker with work to do can always be brought to run the first job.\<close>

lemma wakeup_progress:
  assumes ok: "sys_ok s" and w: "s_worker s = Waiting" and js: "jobs (s_queue s) = j # js"
  shows "\<exists>t. qstep\<^sup>*\<^sup>* s t \<and> s_worker t = Running j \<and> jobs (s_queue t) = js"
proof -
  have qok: "queue_ok (s_queue s)" using ok by (simp add: sys_ok_def)
  have "q_order (s_queue s) \<noteq> []" using js by (auto simp: jobs_def)
  with ok w have k: "q_kick (s_queue s) \<or> 0 < s_kicks s" by (simp add: sys_ok_def no_lost_wakeup_def)
  have "\<exists>u. qstep\<^sup>*\<^sup>* s u \<and> q_kick (s_queue u) \<and> s_worker u = Waiting \<and> jobs (s_queue u) = j # js \<and>
      queue_ok (s_queue u)"
  proof (cases "q_kick (s_queue s)")
    case True
    with w js qok show ?thesis by blast
  next
    case False
    with k obtain n where "s_kicks s = Suc n" by (cases "s_kicks s") auto
    then have "qstep s (s\<lparr>s_queue := send_kick (s_queue s), s_kicks := n\<rparr>)" by (rule qstep.kick)
    with w js qok show ?thesis
      by (intro exI [of _ "s\<lparr>s_queue := send_kick (s_queue s), s_kicks := n\<rparr>"])
         (auto simp: send_kick_def)
  qed
  then obtain u where u: "qstep\<^sup>*\<^sup>* s u" "q_kick (s_queue u)" "s_worker u = Waiting"
    "jobs (s_queue u) = j # js" "queue_ok (s_queue u)" by blast
  define v where "v = u\<lparr>s_queue := (s_queue u)\<lparr>q_kick := False\<rparr>, s_worker := Checking\<rparr>"
  have uv: "qstep u v" unfolding v_def using u(3,2) by (rule qstep.wake)
  obtain k ks where "q_order (s_queue v) = k # ks"
    using u(4) by (cases "q_order (s_queue u)") (auto simp: v_def jobs_def)
  moreover have "queue_ok (s_queue v)" "jobs (s_queue v) = j # js" using u by (simp_all add: v_def)
  ultimately obtain q' where "take_locked (s_queue v) = (Taken j, q')" "jobs q' = js"
    using take_locked_cons [of "s_queue v" k ks] by simp
  then have "qstep v (v\<lparr>s_queue := q', s_worker := Running j\<rparr>)"
    by (intro qstep.take) (simp_all add: v_def)
  with u(1) uv \<open>jobs q' = js\<close> show ?thesis
    by (intro exI [of _ "v\<lparr>s_queue := q', s_worker := Running j\<rparr>"])
       (auto intro: rtranclp.rtrancl_into_rtrancl)
qed

section \<open>Properties\<close>

text \<open>C1. Whatever jobs are submitted to a fresh queue, draining it delivers every
  deduplication key exactly once, in the order of first submission.\<close>

theorem queue_delivers_each_once:
  "map dedupKey (fst (take_n Take (length (jobs (fold Enqueue js NewQueue))) (fold Enqueue js NewQueue)))
     = fold (\<lambda>j. add_new (dedupKey j)) js []"
  by (rule jq.drain_all(1)) simp_all

text \<open>A delivered job carries the highest-ranked trigger among all the submissions that were
  merged into it, so a manual run is never recorded as a weaker trigger.\<close>

theorem queue_keeps_highest_trigger:
  assumes "i \<in> set (jobs (fold Enqueue js NewQueue))"
  shows "triggerRank (jTrigger i) = Max ((\<lambda>j. triggerRank (jTrigger j)) ` {j \<in> set js. dedupKey j = dedupKey i})"
  using jq.rank_enq_all [OF open_NewQueue queue_ok_NewQueue(2) assms] by blast

definition example_job :: "string \<Rightarrow> Scope \<Rightarrow> Trigger \<Rightarrow> Job" where
  "example_job task scope trigger =
     \<lparr>jTaskID = task, jScope = scope, jTrigger = trigger, jDir = ''/media'', jFile = []\<rparr>"

theorem queue_keeps_highest_trigger_witness:
  "let js = [example_job ''t_1'' ScopeUpload TriggerWatch, example_job ''t_1'' ScopeUpload TriggerManual];
       i = example_job ''t_1'' ScopeUpload TriggerManual
   in jobs (fold Enqueue js NewQueue) = [i] \<and>
      triggerRank (jTrigger i) = Max ((\<lambda>j. triggerRank (jTrigger j)) ` {j \<in> set js. dedupKey j = dedupKey i})"
proof -
  let ?js = "[example_job ''t_1'' ScopeUpload TriggerWatch, example_job ''t_1'' ScopeUpload TriggerManual]"
  let ?i = "example_job ''t_1'' ScopeUpload TriggerManual"
  have q: "jobs (fold Enqueue ?js NewQueue) = [?i]" by code_simp
  then have "?i \<in> set (jobs (fold Enqueue ?js NewQueue))" by simp
  from q queue_keeps_highest_trigger [OF this] show ?thesis by (simp only: Let_def)
qed

text \<open>Stopping a task removes its queued work and nothing else: the remaining jobs are the
  other tasks' jobs in their order, and the task has nothing pending any more.\<close>

theorem drop_task_exact:
  assumes "queue_ok q"
  shows "queue_ok (DropTask t q) \<and>
    jobs (DropTask t q) = filter (\<lambda>j. jTaskID j \<noteq> t) (jobs q) \<and>
    \<not> HasPending t (DropTask t q)"
  using DropTask_spec [OF assms, of t] HasPending_iff [of "DropTask t q" t] by auto

theorem drop_task_exact_witness:
  "let q = fold Enqueue [example_job ''t_1'' ScopeUpload TriggerCron, example_job ''t_2'' ScopeUpload TriggerCron,
                         example_job ''t_1'' ScopeDownload TriggerCron] NewQueue
   in queue_ok q \<and> HasPending ''t_1'' q \<and>
      jobs (DropTask ''t_1'' q) = [example_job ''t_2'' ScopeUpload TriggerCron] \<and>
      \<not> HasPending ''t_1'' (DropTask ''t_1'' q)"
proof -
  let ?q = "fold Enqueue [example_job ''t_1'' ScopeUpload TriggerCron, example_job ''t_2'' ScopeUpload TriggerCron,
                         example_job ''t_1'' ScopeDownload TriggerCron] NewQueue"
  have ok: "queue_ok ?q" using jq.inv_enq_all [OF open_NewQueue] unfolding open_queue_def by blast
  have "HasPending ''t_1'' ?q"
    "filter (\<lambda>j. jTaskID j \<noteq> ''t_1'') (jobs ?q) = [example_job ''t_2'' ScopeUpload TriggerCron]"
    by code_simp+
  with ok drop_task_exact [OF ok, of "''t_1''"] show ?thesis by (simp only: Let_def) simp
qed

text \<open>Two jobs share a deduplication key exactly when they are for the same task, scope and
  target, provided task ids and scopes contain no separator; in particular the upload and the
  download job of one trigger never merge.\<close>

theorem dedupKey_separates:
  assumes "plain (jTaskID i)" "plain (jTaskID j)" "plain (jScope i)" "plain (jScope j)"
  shows "dedupKey i = dedupKey j \<longleftrightarrow>
    jTaskID i = jTaskID j \<and> jScope i = jScope j \<and> target i = target j"
  using assms by (rule dedupKey_iff)

theorem dedupKey_separates_witness:
  "dedupKey (example_job ''t_1'' ScopeUpload TriggerCron) \<noteq> dedupKey (example_job ''t_1'' ScopeDownload TriggerCron)"
proof -
  let ?u = "example_job ''t_1'' ScopeUpload TriggerCron" and ?d = "example_job ''t_1'' ScopeDownload TriggerCron"
  have "plain (jTaskID ?u)" "plain (jTaskID ?d)" "plain (jScope ?u)" "plain (jScope ?d)"
    by (simp_all add: example_job_def plain_def ScopeUpload_def ScopeDownload_def)
  from dedupKey_separates [OF this] show ?thesis
    by (simp add: example_job_def ScopeUpload_def ScopeDownload_def)
qed

text \<open>No wake-up is lost: in every reachable state of producers and worker, a worker that
  waits while a job is queued has a token in the channel or a producer about to send one, and
  some continuation makes it run the first queued job.\<close>

theorem worker_never_stranded:
  assumes "reachable s" "s_worker s = Waiting" "jobs (s_queue s) = j # js"
  shows "(q_kick (s_queue s) \<or> 0 < s_kicks s) \<and>
    (\<exists>t. qstep\<^sup>*\<^sup>* s t \<and> s_worker t = Running j \<and> jobs (s_queue t) = js)"
proof -
  have ok: "sys_ok s" using assms(1) by (rule reachable_sys_ok)
  have "q_order (s_queue s) \<noteq> []" using assms(3) by (auto simp: jobs_def)
  with ok assms(2) have "q_kick (s_queue s) \<or> 0 < s_kicks s"
    by (simp add: sys_ok_def no_lost_wakeup_def)
  with wakeup_progress [OF ok assms(2,3)] show ?thesis by blast
qed

theorem worker_never_stranded_witness:
  "\<exists>s j. reachable s \<and> s_worker s = Waiting \<and> jobs (s_queue s) = [j] \<and> s_kicks s = 1 \<and>
     (q_kick (s_queue s) \<or> 0 < s_kicks s) \<and>
     (\<exists>t. qstep\<^sup>*\<^sup>* s t \<and> s_worker t = Running j \<and> jobs (s_queue t) = [])"
proof -
  let ?j = "example_job ''t_1'' ScopeUpload TriggerCron"
  define s1 where "s1 = init_sys\<lparr>s_worker := Waiting\<rparr>"
  define q where "q = fst (enqueue_locked ?j NewQueue)"
  have kick: "enqueue_locked ?j NewQueue = (q, True)"
    by (simp add: q_def enqueue_locked_def NewQueue_def Let_def)
  have "qstep init_sys s1" unfolding s1_def
    by (rule qstep.empty_open) (simp_all add: init_sys_def take_locked_def NewQueue_def)
  then have r1: "reachable s1" by (rule reachable.step [OF reachable.start])
  have "qstep s1 (s1\<lparr>s_queue := q, s_kicks := (if True then Suc (s_kicks s1) else s_kicks s1)\<rparr>)"
    by (rule qstep.enqueue [of ?j]) (simp add: s1_def init_sys_def kick)
  then have r2: "reachable (s1\<lparr>s_queue := q, s_kicks := 1\<rparr>)"
    using reachable.step [OF r1] by (simp add: s1_def init_sys_def)
  have w: "s_worker (s1\<lparr>s_queue := q, s_kicks := 1\<rparr>) = Waiting" by (simp add: s1_def)
  have js: "jobs (s_queue (s1\<lparr>s_queue := q, s_kicks := 1\<rparr>)) = [?j]"
    using enqueue_locked_spec(2) [of NewQueue ?j] by (simp add: q_def enq_spec_def) (simp add: NewQueue_def)
  show ?thesis
    using worker_never_stranded [OF r2 w js] r2 w js
    by (intro exI [of _ "s1\<lparr>s_queue := q, s_kicks := 1\<rparr>"] exI [of _ ?j]) auto
qed

end
