(* ===== verification/Record_Codec.thy ===== *)
theory Record_Codec
  imports Go_Base
begin

text \<open>
  The index records of \<open>internal/store/index.go\<close> and their binary form: a version byte, the
  kind, the size and the length of the file id in big-endian order, then the file id and the
  pickcode.
\<close>

section \<open>Kinds and records\<close>

text \<open>\<open>Kind\<close> is a Go \<open>uint8\<close>: a decoded record can hold any byte.\<close>

type_synonym Kind = "8 word"

definition KindDir :: Kind where "KindDir = 0"
definition KindFile :: Kind where "KindFile = 1"
definition KindStrm :: Kind where "KindStrm = 2"

lemma kinds_distinct [simp]:
  "KindDir \<noteq> KindFile" "KindFile \<noteq> KindDir" "KindDir \<noteq> KindStrm" "KindStrm \<noteq> KindDir"
  "KindFile \<noteq> KindStrm" "KindStrm \<noteq> KindFile"
  by (simp_all add: KindDir_def KindFile_def KindStrm_def)

record Record =
  rFid :: string
  rPickCode :: string
  rKind :: Kind
  rSize :: i64

definition zero_Record :: Record where
  "zero_Record = \<lparr>rFid = [], rPickCode = [], rKind = 0, rSize = 0\<rparr>"

lemma zero_Record_simps [simp]:
  "rFid zero_Record = []" "rPickCode zero_Record = []" "rKind zero_Record = KindDir" "rSize zero_Record = 0"
  by (simp_all add: zero_Record_def KindDir_def)

section \<open>The codec\<close>

definition recordVersion :: char where "recordVersion = CHR 0x02"
definition recordHeaderLen :: nat where "recordHeaderLen = 1 + 1 + 8 + 2"

text \<open>\<open>uint16(len(r.Fid))\<close> keeps the low 16 bits, as \<open>be_bytes 2\<close> does.\<close>

definition encodeRecord :: "Record \<Rightarrow> string" where
  "encodeRecord r =
     [recordVersion, char_of (unat (rKind r))] @ be_bytes 8 (unat (rSize r)) @
     be_bytes 2 (length (rFid r)) @ rFid r @ rPickCode r"

definition decodeRecord :: "string \<Rightarrow> Record option" where
  "decodeRecord v =
     (if length v < recordHeaderLen \<or> v ! 0 \<noteq> recordVersion then None
      else
        let fidLen = be_value (take 2 (drop 10 v)) in
        if length v < recordHeaderLen + fidLen then None
        else Some \<lparr>rFid = take fidLen (drop recordHeaderLen v),
                   rPickCode = drop (recordHeaderLen + fidLen) v,
                   rKind = of_nat (of_char (v ! 1)),
                   rSize = of_nat (be_value (take 8 (drop 2 v)))\<rparr>)"

section \<open>Lemmas\<close>

lemma of_char_char_of_word:
  "(of_nat (of_char (char_of (unat (w :: 8 word)) :: char)) :: 8 word) = w"
  using unsigned_less [of w, where 'a = nat] by simp

lemma char_of_word_of_char:
  "char_of (unat (of_nat (of_char c) :: 8 word)) = (c :: char)"
  by (simp add: unsigned_of_nat take_bit_eq_mod)

lemma unat_8_mod [simp]: "unat (w :: 8 word) mod 256 = unat w"
  using unsigned_less [of w, where 'a = nat] by simp

lemma unat_64_mod [simp]: "unat (w :: 64 word) mod 18446744073709551616 = unat w"
  using unsigned_less [of w, where 'a = nat] by simp

lemma decode_header:
  assumes "length sz = 8" "length fl = 2"
  shows "decodeRecord ([recordVersion, k] @ sz @ fl @ rest) =
    (if length rest < be_value fl then None
     else Some \<lparr>rFid = take (be_value fl) rest, rPickCode = drop (be_value fl) rest,
                rKind = of_nat (of_char k), rSize = of_nat (be_value sz)\<rparr>)"
  using assms by (simp add: decodeRecord_def recordHeaderLen_def Let_def numeral_2_eq_2 take_Cons' drop_Cons')

text \<open>A value that is accepted splits into the fields of the header.\<close>

lemma decode_Some_shape:
  assumes "decodeRecord v = Some r"
  obtains k sz fl rest where "v = [recordVersion, k] @ sz @ fl @ rest" "length sz = 8" "length fl = 2"
proof -
  have len: "12 \<le> length v" and v0: "v ! 0 = recordVersion"
    using assms by (auto simp: decodeRecord_def recordHeaderLen_def split: if_splits)
  then obtain a b w where v: "v = a # b # w" by (cases v rule: list.exhaust; cases "tl v") auto
  have "w = take 8 w @ take 2 (drop 8 w) @ drop 2 (drop 8 w)"
    by (simp only: append_take_drop_id)
  with v v0 have "v = [recordVersion, b] @ take 8 w @ take 2 (drop 8 w) @ drop 2 (drop 8 w)" by simp
  moreover have "length (take 8 w) = 8" "length (take 2 (drop 8 w)) = 2" using len v by auto
  ultimately show ?thesis using that by blast
qed

lemma decode_encode:
  "length (rFid r) < 65536 \<Longrightarrow> decodeRecord (encodeRecord r) = Some r"
  unfolding encodeRecord_def
  by (simp only: decode_header length_be_bytes) (simp add: be_value_be_bytes of_char_char_of_word)

section \<open>Properties\<close>

text \<open>C21. A stored record reads back as it was written, for every kind, size and pickcode and
  every file id of less than 65536 bytes.\<close>

theorem record_roundtrip:
  assumes "length (rFid r) < 65536"
  shows "decodeRecord (encodeRecord r) = Some r"
  using assms by (rule decode_encode)

theorem record_roundtrip_witness:
  "decodeRecord (encodeRecord \<lparr>rFid = ''v789'', rPickCode = ''abcdefghijklmnop'', rKind = KindStrm, rSize = 1234567890\<rparr>)
     = Some \<lparr>rFid = ''v789'', rPickCode = ''abcdefghijklmnop'', rKind = KindStrm, rSize = 1234567890\<rparr>"
  by (rule record_roundtrip) simp

text \<open>Conversely the decoder accepts nothing but encodings: a value that decodes to a
  record is byte for byte the encoding of that record, so two different values never stand
  for the same record.\<close>

theorem record_decode_canonical:
  assumes "decodeRecord v = Some r"
  shows "encodeRecord r = v \<and> length (rFid r) < 65536"
proof -
  from assms obtain k sz fl rest where v: "v = [recordVersion, k] @ sz @ fl @ rest"
    and len: "length sz = 8" "length fl = 2" by (rule decode_Some_shape)
  have b: "be_value fl < 65536" "be_value sz < 2 ^ 64"
    using be_value_bound [of fl] be_value_bound [of sz] len by simp_all
  from assms decode_header [OF len, of k rest] v have r:
    "be_value fl \<le> length rest"
    "r = \<lparr>rFid = take (be_value fl) rest, rPickCode = drop (be_value fl) rest,
          rKind = of_nat (of_char k), rSize = of_nat (be_value sz)\<rparr>"
    by (auto split: if_splits)
  show ?thesis
    using r b len be_bytes_be_value [of sz] be_bytes_be_value [of fl]
    by (simp add: encodeRecord_def v unat_of_nat char_of_word_of_char)
qed

theorem record_decode_canonical_witness:
  "\<exists>v r. decodeRecord v = Some r \<and> encodeRecord r = v \<and> rFid r = ''d1''"
proof -
  let ?r = "\<lparr>rFid = ''d1'', rPickCode = [], rKind = KindDir, rSize = 0\<rparr>"
  have "decodeRecord (encodeRecord ?r) = Some ?r" by code_simp
  from this record_decode_canonical [OF this] show ?thesis by (intro exI [of _ "encodeRecord ?r"] exI [of _ ?r]) simp
qed

text \<open>The bound on the file id is needed: the length field keeps 16 bits only, and a record
  whose file id has exactly 65536 bytes reads back with an empty file id.\<close>

theorem record_fid_overflow:
  assumes "length (rFid r) = 65536"
  shows "\<exists>r'. decodeRecord (encodeRecord r) = Some r' \<and> rFid r' = [] \<and> rPickCode r' = rFid r @ rPickCode r"
  using assms unfolding encodeRecord_def
  by (simp only: decode_header length_be_bytes) (simp add: be_value_be_bytes)

theorem record_fid_overflow_witness:
  "\<exists>r r'. length (rFid r) = 65536 \<and> decodeRecord (encodeRecord r) = Some r' \<and> rFid r' = []"
proof -
  let ?r = "\<lparr>rFid = replicate 65536 (CHR ''7''), rPickCode = [], rKind = KindFile, rSize = 1\<rparr>"
  have "length (rFid ?r) = 65536" by simp
  from this record_fid_overflow [OF this] show ?thesis by blast
qed

end
