(* ===== verification/Store_Index.thy ===== *)
theory Store_Index
  imports Record_Codec Go_Path
begin

text \<open>
  The path index of \<open>internal/store/index.go\<close> over the database handle of
  \<open>internal/store/store.go\<close>. The key-value store itself (bbolt) is third-party code: the
  operations the index calls on its bucket are the fields of the record \<open>bolt\<close>, an argument of
  every definition here, and the locale \<open>bucket\<close> states what bbolt documents about them. The
  two loops over a cursor are not known to end, so they are partial functions whose value is
  \<open>None\<close> when the code's loop runs forever.
\<close>

section \<open>Contexts, errors and the database handle\<close>

text \<open>
  A context is a countdown: \<open>None\<close> is a context that is never cancelled, \<open>Some n\<close> one that
  is found cancelled at every check after the next \<open>n\<close>.
\<close>

type_synonym ctx = "nat option"

fun ctx_check :: "ctx \<Rightarrow> bool \<times> ctx" where
  "ctx_check None = (False, None)"
| "ctx_check (Some 0) = (True, Some 0)"
| "ctx_check (Some (Suc n)) = (False, Some n)"

datatype store_error = ECancelled | EBolt

text \<open>
  The bucket operations: a lookup, a put (\<open>None\<close> is an error), a delete at the cursor, the first
  pair at or after a key (\<open>Cursor.Seek\<close>), the first pair after the cursor's key
  (\<open>Cursor.Next\<close>), and whether a transaction can start and commit.
\<close>

record 'b bolt =
  bk_get :: "'b \<Rightarrow> string \<Rightarrow> string option"
  bk_put :: "'b \<Rightarrow> string \<Rightarrow> string \<Rightarrow> 'b option"
  bk_delete :: "'b \<Rightarrow> string \<Rightarrow> 'b option"
  bk_seek :: "'b \<Rightarrow> string \<Rightarrow> (string \<times> string) option"
  bk_next :: "'b \<Rightarrow> string \<Rightarrow> (string \<times> string) option"
  bk_begin :: "'b \<Rightarrow> bool"
  bk_commit :: "'b \<Rightarrow> bool"

text \<open>\<open>Store.db\<close> is \<open>nil\<close> after \<open>Close\<close>.\<close>

record 'b Store =
  st_db :: "'b option"

definition Close :: "'b Store \<Rightarrow> 'b Store" where
  "Close s = s\<lparr>st_db := None\<rparr>"

text \<open>
  \<open>view\<close> runs a reading function; without a connection the function does not run, and the
  result is the value the caller started from. \<open>update\<close> and \<open>batch\<close> run a writing function
  and keep its result only when it returns no error and the transaction commits.
\<close>

definition view :: "'b bolt \<Rightarrow> 'b Store \<Rightarrow> 'a \<Rightarrow> ('b \<Rightarrow> 'a) \<Rightarrow> 'a" where
  "view bk s a0 fn = (case st_db s of None \<Rightarrow> a0 | Some b \<Rightarrow> if bk_begin bk b then fn b else a0)"

definition update :: "'b bolt \<Rightarrow> 'b Store \<Rightarrow> ('b \<Rightarrow> 'b option) \<Rightarrow> 'b Store" where
  "update bk s fn =
     (case st_db s of
        None \<Rightarrow> s
      | Some b \<Rightarrow>
          if \<not> bk_begin bk b then s
          else (case fn b of
                  None \<Rightarrow> s
                | Some b' \<Rightarrow> if bk_commit bk b' then s\<lparr>st_db := Some b'\<rparr> else s))"

section \<open>Single records\<close>

definition Get :: "'b bolt \<Rightarrow> 'b Store \<Rightarrow> string \<Rightarrow> Record option" where
  "Get bk s path =
     view bk s None (\<lambda>b. case bk_get bk b path of Some v \<Rightarrow> decodeRecord v | None \<Rightarrow> None)"

definition Fid :: "'b bolt \<Rightarrow> 'b Store \<Rightarrow> string \<Rightarrow> string" where
  "Fid bk s path = (case Get bk s path of None \<Rightarrow> [] | Some r \<Rightarrow> rFid r)"

definition Put :: "'b bolt \<Rightarrow> 'b Store \<Rightarrow> string \<Rightarrow> Record \<Rightarrow> 'b Store" where
  "Put bk s path r = update bk s (\<lambda>b. bk_put bk b path (encodeRecord r))"

section \<open>Prefix scans\<close>

definition dirPrefix :: "string \<Rightarrow> string" where
  "dirPrefix p = (if p = [] \<or> last p \<noteq> CHR ''/'' then p @ ''/'' else p)"

definition skipSuccessor :: "string \<Rightarrow> nat \<Rightarrow> string" where
  "skipSuccessor k n = take (n + 1) k @ [CHR 0xFF]"

text \<open>
  The loop of \<open>scanPrefix\<close>: the current pair of the cursor, and the callback's accumulator.
  The callback returns the accumulator and the key to jump to, if any. The result is the
  accumulator, the error and the context; \<open>None\<close> is a loop that does not end.
\<close>

partial_function (option) scan_loop ::
  "'b bolt \<Rightarrow> 'b \<Rightarrow> string \<Rightarrow> (string \<Rightarrow> string \<Rightarrow> 'a \<Rightarrow> 'a \<times> string option) \<Rightarrow> ctx \<Rightarrow>
   (string \<times> string) option \<Rightarrow> 'a \<Rightarrow> ('a \<times> store_error option \<times> ctx) option" where
  "scan_loop bk b prefix fn c kv acc =
     (case kv of
        None \<Rightarrow> Some (acc, None, c)
      | Some (k, v) \<Rightarrow>
          if \<not> has_prefix k prefix then Some (acc, None, c)
          else case ctx_check c of (stop, c') \<Rightarrow>
            if stop then Some (acc, Some ECancelled, c')
            else case fn k v acc of (acc', nxt) \<Rightarrow>
              scan_loop bk b prefix fn c'
                (case nxt of Some s \<Rightarrow> bk_seek bk b s | None \<Rightarrow> bk_next bk b k) acc')"

declare scan_loop.simps [code]

definition scanPrefix ::
  "'b bolt \<Rightarrow> 'b \<Rightarrow> string \<Rightarrow> (string \<Rightarrow> string \<Rightarrow> 'a \<Rightarrow> 'a \<times> string option) \<Rightarrow> ctx \<Rightarrow>
   'a \<Rightarrow> ('a \<times> store_error option \<times> ctx) option" where
  "scanPrefix bk b prefix fn c acc = scan_loop bk b prefix fn c (bk_seek bk b prefix) acc"

text \<open>The three scans keep what they collected when the context is cancelled.\<close>

record Child =
  cName :: string
  cRec :: Record

definition children_step :: "string \<Rightarrow> string \<Rightarrow> string \<Rightarrow> Child list \<Rightarrow> Child list \<times> string option" where
  "children_step prefix k v out =
     (let rel = drop (length prefix) k in
      case index_byte (CHR ''/'') rel of
        Some i \<Rightarrow> (out, Some (skipSuccessor k (length prefix + i)))
      | None \<Rightarrow>
          (case decodeRecord v of
             None \<Rightarrow> (out, None)
           | Some r \<Rightarrow> (out @ [\<lparr>cName = rel, cRec = r\<rparr>], None)))"

definition Children :: "'b bolt \<Rightarrow> 'b Store \<Rightarrow> ctx \<Rightarrow> string \<Rightarrow> (Child list \<times> ctx) option" where
  "Children bk s c dir =
     (case ctx_check c of (stop, c') \<Rightarrow>
        if stop then Some ([], c')
        else view bk s (Some ([], c')) (\<lambda>b.
          map_option (\<lambda>(out, err, c''). (out, c''))
            (scanPrefix bk b (dirPrefix dir) (children_step (dirPrefix dir)) c' [])))"

definition count_step :: "string \<Rightarrow> string \<Rightarrow> i64 \<Rightarrow> i64 \<times> string option" where
  "count_step k v count = (count + 1, None)"

definition CountRecursive :: "'b bolt \<Rightarrow> 'b Store \<Rightarrow> ctx \<Rightarrow> string \<Rightarrow> (i64 \<times> ctx) option" where
  "CountRecursive bk s c path =
     view bk s (Some (0, c)) (\<lambda>b.
       map_option (\<lambda>(n, err, c'). (n, c')) (scanPrefix bk b (dirPrefix path) count_step c 0))"

definition strmSuffix :: string where "strmSuffix = ''.strm''"

definition strm_step :: "string \<Rightarrow> string \<Rightarrow> string list \<Rightarrow> string list \<times> string option" where
  "strm_step k v fids =
     (if length k < length strmSuffix \<or>
         \<not> equal_fold (drop (length k - length strmSuffix) k) strmSuffix then (fids, None)
      else case decodeRecord v of
             Some r \<Rightarrow> if rFid r \<noteq> [] then (fids @ [rFid r], None) else (fids, None)
           | None \<Rightarrow> (fids, None))"

definition ListStrmFids :: "'b bolt \<Rightarrow> 'b Store \<Rightarrow> ctx \<Rightarrow> string \<Rightarrow> (string list \<times> ctx) option" where
  "ListStrmFids bk s c dirPath =
     view bk s (Some ([], c)) (\<lambda>b.
       map_option (\<lambda>(fids, err, c'). (fids, c')) (scanPrefix bk b (dirPrefix dirPath) strm_step c []))"

section \<open>Deleting a tree\<close>

text \<open>
  The inner loop of \<open>ClearTree\<close>; the inner option is an error of \<open>Cursor.Delete\<close>. The cursor is modelled by the key
  it stands on: after \<open>Delete\<close>, \<open>Next\<close> gives the first key after the deleted one. That is more than bbolt documents, which
  asks for a \<open>Seek\<close> after every change; the code does without.
\<close>

partial_function (option) clear_loop ::
  "'b bolt \<Rightarrow> string \<Rightarrow> string \<Rightarrow> 'b \<Rightarrow> (string \<times> string) option \<Rightarrow> 'b option option" where
  "clear_loop bk self childPrefix b kv =
     (case kv of
        None \<Rightarrow> Some (Some b)
      | Some (k, v) \<Rightarrow>
          if k \<noteq> self \<and> \<not> has_prefix k childPrefix then Some (Some b)
          else case bk_delete bk b k of
                 None \<Rightarrow> Some None
               | Some b' \<Rightarrow> clear_loop bk self childPrefix b' (bk_next bk b' k))"

declare clear_loop.simps [code]

definition clear_one :: "'b bolt \<Rightarrow> string \<Rightarrow> 'b \<Rightarrow> 'b option option" where
  "clear_one bk p b =
     (let childPrefix = dirPrefix p; self = trim_suffix childPrefix ''/''
      in clear_loop bk self childPrefix b (bk_seek bk b self))"

fun clear_all :: "'b bolt \<Rightarrow> string list \<Rightarrow> 'b \<Rightarrow> 'b option option" where
  "clear_all bk [] b = Some (Some b)"
| "clear_all bk (p # ps) b =
     (case clear_one bk p b of
        None \<Rightarrow> None
      | Some None \<Rightarrow> Some None
      | Some (Some b') \<Rightarrow> clear_all bk ps b')"

definition ClearTree :: "'b bolt \<Rightarrow> 'b Store \<Rightarrow> string list \<Rightarrow> 'b Store option" where
  "ClearTree bk s paths =
     (if paths = [] then Some s
      else case st_db s of
             None \<Rightarrow> Some s
           | Some b \<Rightarrow>
               if \<not> bk_begin bk b then Some s
               else (case clear_all bk paths b of
                       None \<Rightarrow> None
                     | Some r \<Rightarrow> Some (update bk s (\<lambda>_. r))))"

end
