(* ===== verification/Store_Bucket.thy ===== *)
theory Store_Bucket
  imports Store_Index
begin

text \<open>
  What the index operations of \<open>Store_Index\<close> do on a bucket that behaves as bbolt documents:
  the order of byte strings, the locale \<open>bucket\<close> of bbolt's promises with the facts about the
  two cursor loops proved once inside it, a reference bucket that satisfies them, and the
  properties of the index.
\<close>

section \<open>Byte order and prefixes\<close>

lemma has_prefix_self [simp]: "has_prefix p p"
  by (simp add: has_prefix_def)

lemma has_prefix_Nil [simp]: "has_prefix s []"
  by (simp add: has_prefix_def)

lemma has_prefix_Cons: "has_prefix s (x # p) \<longleftrightarrow> (\<exists>t. s = x # t \<and> has_prefix t p)"
  by (cases s) (auto simp: has_prefix_def)

lemma prefix_le: "has_prefix k p \<Longrightarrow> p \<le> k"
  by (induction p arbitrary: k) (auto simp: has_prefix_Cons)

lemma prefix_interval:
  "has_prefix a p \<Longrightarrow> has_prefix c p \<Longrightarrow> a \<le> b \<Longrightarrow> b \<le> c \<Longrightarrow> has_prefix b p"
proof (induction p arbitrary: a b c)
  case (Cons x p)
  from Cons.prems obtain a' c' where "a = x # a'" "c = x # c'" "has_prefix a' p" "has_prefix c' p"
    by (auto simp: has_prefix_Cons)
  moreover from this Cons.prems obtain b' where "b = x # b'" by (cases b) auto
  ultimately show ?case using Cons.IH [of a' c' b'] Cons.prems by (simp add: has_prefix_Cons)
qed simp

lemma append_less_append [simp]: "d @ s < d @ t \<longleftrightarrow> s < (t :: string)"
  by (induction d) auto

lemma less_append_ff: "has_prefix k d \<Longrightarrow> k < d @ [CHR 0xFF] \<longleftrightarrow>
    (case drop (length d) k of [] \<Rightarrow> True | c # _ \<Rightarrow> c \<noteq> CHR 0xFF)"
proof -
  assume "has_prefix k d"
  then have k: "k = d @ drop (length d) k" by (metis append_take_drop_id has_prefix_def)
  have "c < CHR 0xFF \<longleftrightarrow> c \<noteq> CHR 0xFF" for c :: char
  proof -
    have "(of_char c :: nat) < 256" by simp
    then have "(of_char c :: nat) < 255 \<longleftrightarrow> (of_char c :: nat) \<noteq> 255" by linarith
    moreover have "c = CHR 0xFF \<longleftrightarrow> (of_char c :: nat) = 255"
      using of_char_eq_iff [where 'a = nat, of c "CHR 0xFF"] by simp
    ultimately show ?thesis by (auto simp: less_char_def)
  qed
  then show ?thesis by (subst k) (auto split: list.splits)
qed

section \<open>Cursor positions\<close>

definition head_of :: "'a list \<Rightarrow> 'a option" where
  "head_of xs = (case xs of [] \<Rightarrow> None | x # _ \<Rightarrow> Some x)"

lemma head_of_simps [simp]: "head_of [] = None" "head_of (x # xs) = Some x"
  by (simp_all add: head_of_def)

lemma find_head_of: "find P xs = head_of (dropWhile (\<lambda>x. \<not> P x) xs)"
  by (induction xs) auto

abbreviation sorted_keys :: "(string \<times> string) list \<Rightarrow> bool" where
  "sorted_keys L \<equiv> sorted_wrt (\<lambda>p q. fst p < fst q) L"

lemma find_next:
  "sorted_keys (pre @ (k, v) # rest) \<Longrightarrow> find (\<lambda>p. k < fst p) (pre @ (k, v) # rest) = head_of rest"
proof (induction pre)
  case Nil
  then show ?case by (cases rest) auto
next
  case (Cons p pre)
  then have "fst p < k" by auto
  with Cons show ?case by auto
qed

lemma find_next_gone:
  "sorted_keys (pre @ (k, v) # rest) \<Longrightarrow> find (\<lambda>p. k < fst p) (pre @ rest) = head_of rest"
proof (induction pre)
  case Nil
  then show ?case by (cases rest) auto
next
  case (Cons p pre)
  then have "fst p < k" by auto
  with Cons show ?case by auto
qed

lemma filter_other_keys:
  assumes "sorted_keys (pre @ (k, v) # rest)"
  shows "filter (\<lambda>p. fst p \<noteq> k) (pre @ (k, v) # rest) = pre @ rest"
proof -
  have "\<forall>p \<in> set (pre @ rest). fst p \<noteq> k" using assms by (fastforce simp: sorted_wrt_append)
  then show ?thesis by (simp add: filter_id_conv)
qed

lemma find_seek:
  assumes "sorted_keys (pre @ rest)" "\<forall>p \<in> set pre. fst p < s"
  shows "find (\<lambda>p. s \<le> fst p) (pre @ rest) = head_of (dropWhile (\<lambda>p. fst p < s) rest)"
  using assms(2) by (induction pre) (auto simp: find_head_of not_le)

text \<open>The loop of \<open>scanPrefix\<close> over the pairs that are still ahead of the cursor.\<close>

function scan_list ::
  "string \<Rightarrow> (string \<Rightarrow> string \<Rightarrow> 'a \<Rightarrow> 'a \<times> string option) \<Rightarrow> ctx \<Rightarrow> (string \<times> string) list \<Rightarrow> 'a \<Rightarrow>
   'a \<times> store_error option \<times> ctx" where
  "scan_list prefix fn c [] acc = (acc, None, c)"
| "scan_list prefix fn c ((k, v) # rest) acc =
     (if \<not> has_prefix k prefix then (acc, None, c)
      else case ctx_check c of (stop, c') \<Rightarrow>
        if stop then (acc, Some ECancelled, c')
        else case fn k v acc of (acc', nxt) \<Rightarrow>
          scan_list prefix fn c'
            (case nxt of Some s \<Rightarrow> dropWhile (\<lambda>p. fst p < s) rest | None \<Rightarrow> rest) acc')"
  by pat_completeness auto
termination
  by (relation "measure (\<lambda>(p, f, c, rest, a). length rest)")
     (auto simp: le_imp_less_Suc length_dropWhile_le split: option.splits)

text \<open>
  A scan that is never cancelled folds the callback over the pairs with the prefix, provided
  that a jump goes forward and that the pairs it passes over leave the accumulator alone.
\<close>

lemma no_prefix_after:
  assumes "sorted_keys ((k, v) # rest)" "prefix \<le> k" "\<not> has_prefix k prefix"
  shows "filter (\<lambda>p. has_prefix (fst p) prefix) rest = []"
proof -
  have "\<not> has_prefix (fst p) prefix" if "p \<in> set rest" for p
    using prefix_interval [of prefix prefix "fst p" k] assms that by (auto simp: less_imp_le)
  then show ?thesis by (simp add: filter_empty_conv)
qed

lemma sorted_keys_dropWhile: "sorted_keys xs \<Longrightarrow> sorted_keys (dropWhile P xs)"
  by (metis sorted_wrt_append takeWhile_dropWhile_id)

lemma fold_skip:
  "(\<And>x acc. x \<in> set xs \<Longrightarrow> P x \<Longrightarrow> Q x \<Longrightarrow> f x acc = acc) \<Longrightarrow>
   fold f (filter Q (takeWhile P xs)) acc = acc"
  by (induction xs arbitrary: acc) auto

lemma scan_list_fold:
  assumes "sorted_keys rest" "\<forall>p \<in> set rest. prefix \<le> fst p"
    and "\<And>k v k' v' acc acc' s. (k, v) \<in> set rest \<Longrightarrow> (k', v') \<in> set rest \<Longrightarrow> has_prefix k prefix \<Longrightarrow>
           has_prefix k' prefix \<Longrightarrow> snd (fn k v acc) = Some s \<Longrightarrow> k < k' \<Longrightarrow> k' < s \<Longrightarrow>
           fst (fn k' v' acc') = acc'"
  shows "scan_list prefix fn None rest acc =
    (fold (\<lambda>p. \<lambda>a. fst (fn (fst p) (snd p) a)) (filter (\<lambda>p. has_prefix (fst p) prefix) rest) acc, None, None)"
  using assms
proof (induction prefix fn "None :: ctx" rest acc rule: scan_list.induct)
  case (2 prefix fn k v rest acc)
  show ?case
  proof (cases "has_prefix k prefix")
    case False
    then show ?thesis using no_prefix_after [of k v rest prefix] 2(2,3) by simp
  next
    case True
    obtain acc' nxt where fn: "fn k v acc = (acc', nxt)" by fastforce
    let ?Q = "\<lambda>p. has_prefix (fst p) prefix"
    let ?rest = "case nxt of Some s \<Rightarrow> dropWhile (\<lambda>p. fst p < s) rest | None \<Rightarrow> rest"
    let ?f = "\<lambda>p. \<lambda>a. fst (fn (fst p) (snd p) a)"
    have sub: "set ?rest \<subseteq> set rest" by (auto split: option.splits dest: set_dropWhileD)
    have "scan_list prefix fn None ?rest acc' = (fold ?f (filter ?Q ?rest) acc', None, None)"
    proof (rule 2(1) [OF _ _ _ fn [symmetric]])
      show "sorted_keys ?rest" using 2(2) by (auto split: option.splits intro: sorted_keys_dropWhile)
      show "\<forall>p \<in> set ?rest. prefix \<le> fst p" using 2(3) sub by auto
    qed (use True 2(4) sub in \<open>auto; blast\<close>)+
    moreover have "fold ?f (filter ?Q ?rest) acc' = fold ?f (filter ?Q rest) acc'"
    proof (cases nxt)
      case (Some s)
      have "fold ?f (filter ?Q (takeWhile (\<lambda>p. fst p < s) rest)) a = a" for a
      proof (rule fold_skip)
        fix p a assume p: "p \<in> set rest" "fst p < s" "has_prefix (fst p) prefix"
        with 2(2) have "k < fst p" by auto
        then show "fst (fn (fst p) (snd p) a) = a"
          using 2(4) [of k v "fst p" "snd p" acc s a] p True fn Some by simp
      qed
      moreover have "rest = takeWhile (\<lambda>p. fst p < s) rest @ dropWhile (\<lambda>p. fst p < s) rest" by simp
      ultimately show ?thesis using Some by (metis (no_types, lifting) filter_append fold_append comp_apply option.simps(5))
    qed simp
    ultimately show ?thesis using True fn by simp
  qed
qed simp_all

section \<open>What bbolt promises\<close>

text \<open>
  \<open>ok\<close> holds of the states bbolt can be in and \<open>kv\<close> lists the pairs of the bucket: they are
  sorted by key without duplicates, the cursor finds the first pair from or after a key, a
  put and a delete change one pair.
\<close>

locale bucket =
  fixes bk :: "'b bolt" and ok :: "'b \<Rightarrow> bool" and kv :: "'b \<Rightarrow> (string \<times> string) list"
  assumes kv_sorted: "ok b \<Longrightarrow> sorted_keys (kv b)"
    and get_law: "ok b \<Longrightarrow> bk_get bk b k = map_of (kv b) k"
    and seek_law: "ok b \<Longrightarrow> bk_seek bk b k = find (\<lambda>p. k \<le> fst p) (kv b)"
    and next_law: "ok b \<Longrightarrow> bk_next bk b k = find (\<lambda>p. k < fst p) (kv b)"
    and put_law: "ok b \<Longrightarrow> bk_put bk b k v = Some b' \<Longrightarrow>
                    ok b' \<and> map_of (kv b') = (map_of (kv b))(k \<mapsto> v)"
    and delete_law: "ok b \<Longrightarrow> k \<in> fst ` set (kv b) \<Longrightarrow>
                    \<exists>b'. bk_delete bk b k = Some b' \<and> ok b' \<and> kv b' = filter (\<lambda>p. fst p \<noteq> k) (kv b)"
begin

lemma scan_loop_list:
  assumes "ok b" "kv b = pre @ rest"
    and "\<And>k v acc s. (k, v) \<in> set rest \<Longrightarrow> has_prefix k prefix \<Longrightarrow> snd (fn k v acc) = Some s \<Longrightarrow> k < s"
  shows "scan_loop bk b prefix fn c (head_of rest) acc = Some (scan_list prefix fn c rest acc)"
  using assms
proof (induction prefix fn c rest acc arbitrary: pre rule: scan_list.induct)
  case (1 prefix fn c acc)
  show ?case by (subst scan_loop.simps) simp
next
  case (2 prefix fn c k v rest acc)
  obtain stop c' where cc: "ctx_check c = (stop, c')" by fastforce
  obtain acc' nxt where fn: "fn k v acc = (acc', nxt)" by fastforce
  have srt: "sorted_keys (pre @ (k, v) # rest)" using 2(2,3) kv_sorted by metis
  show ?case
  proof (cases "has_prefix k prefix \<and> \<not> stop")
    case True
    have nx: "bk_next bk b k = head_of rest"
      using 2(2,3) next_law find_next [OF srt] by simp
    have sk: "bk_seek bk b s = head_of (dropWhile (\<lambda>p. fst p < s) rest)" if s: "nxt = Some s" for s
    proof -
      have "k < s" using 2(4) [of k v acc s] True fn s by simp
      moreover have "\<forall>p \<in> set pre. fst p < k" using srt by (auto simp: sorted_wrt_append)
      ultimately have "\<forall>p \<in> set (pre @ [(k, v)]). fst p < s" by force
      then show ?thesis
        using find_seek [of "pre @ [(k, v)]" rest s] srt 2(2,3) seek_law by simp
    qed
    let ?rest = "case nxt of Some s \<Rightarrow> dropWhile (\<lambda>p. fst p < s) rest | None \<Rightarrow> rest"
    obtain mid where mid: "rest = mid @ ?rest"
    proof (cases nxt)
      case (Some s)
      then show ?thesis using that [of "takeWhile (\<lambda>p. fst p < s) rest"] by simp
    qed (use that [of "[]"] in simp)
    have "scan_loop bk b prefix fn c' (head_of ?rest) acc' = Some (scan_list prefix fn c' ?rest acc')"
    proof (rule 2(1) [OF _ cc [symmetric] _ fn [symmetric]])
      show "kv b = (pre @ (k, v) # mid) @ ?rest" using 2(3) mid by simp
      show "\<And>k v acc s. (k, v) \<in> set ?rest \<Longrightarrow> has_prefix k prefix \<Longrightarrow> snd (fn k v acc) = Some s \<Longrightarrow> k < s"
        using 2(4) mid by (metis UnCI list.set_intros(2) set_append)
    qed (use True 2(2) in auto)
    then show ?thesis using True cc fn nx sk
      by (subst scan_loop.simps) (auto split: option.splits)
  qed (subst scan_loop.simps; auto simp: cc)
qed

lemma scanPrefix_list:
  assumes "ok b"
    and "\<And>k v acc s. (k, v) \<in> set (kv b) \<Longrightarrow> has_prefix k prefix \<Longrightarrow> snd (fn k v acc) = Some s \<Longrightarrow> k < s"
  shows "scanPrefix bk b prefix fn c acc =
    Some (scan_list prefix fn c (dropWhile (\<lambda>p. fst p < prefix) (kv b)) acc)"
proof -
  let ?pre = "takeWhile (\<lambda>p. fst p < prefix) (kv b)"
  let ?rest = "dropWhile (\<lambda>p. fst p < prefix) (kv b)"
  have "bk_seek bk b prefix = head_of ?rest"
    using seek_law [OF assms(1)] by (simp add: find_head_of not_le)
  moreover have "scan_loop bk b prefix fn c (head_of ?rest) acc = Some (scan_list prefix fn c ?rest acc)"
    by (rule scan_loop_list [OF assms(1), of ?pre]) (auto dest: set_dropWhileD intro: assms(2))
  ultimately show ?thesis by (simp add: scanPrefix_def)
qed

lemma sorted_after_seek:
  assumes "ok b" "p \<in> set (dropWhile (\<lambda>p. fst p < s) (kv b))"
  shows "s \<le> fst p"
proof -
  have "sorted_keys (dropWhile (\<lambda>p. fst p < s) (kv b))"
    using kv_sorted [OF assms(1)] by (rule sorted_keys_dropWhile)
  with assms(2) show ?thesis
    using hd_dropWhile [of "\<lambda>p. fst p < s" "kv b"]
    by (cases "dropWhile (\<lambda>p. fst p < s) (kv b)") (auto simp: not_less)
qed

lemma filter_after_seek:
  "ok b \<Longrightarrow> filter (\<lambda>p. has_prefix (fst p) s) (dropWhile (\<lambda>p. fst p < s) (kv b)) =
    filter (\<lambda>p. has_prefix (fst p) s) (kv b)"
proof -
  have "filter (\<lambda>p. has_prefix (fst p) s) (takeWhile (\<lambda>p. fst p < s) (kv b)) = []"
    by (auto simp: filter_empty_conv dest!: set_takeWhileD prefix_le)
  then show ?thesis by (metis append_Nil filter_append takeWhile_dropWhile_id)
qed

lemma scanPrefix_fold:
  assumes "ok b"
    and "\<And>k v acc s. (k, v) \<in> set (kv b) \<Longrightarrow> has_prefix k prefix \<Longrightarrow> snd (fn k v acc) = Some s \<Longrightarrow> k < s"
    and "\<And>k v k' v' acc acc' s. (k, v) \<in> set (kv b) \<Longrightarrow> (k', v') \<in> set (kv b) \<Longrightarrow>
           has_prefix k prefix \<Longrightarrow> has_prefix k' prefix \<Longrightarrow> snd (fn k v acc) = Some s \<Longrightarrow>
           k < k' \<Longrightarrow> k' < s \<Longrightarrow> fst (fn k' v' acc') = acc'"
  shows "scanPrefix bk b prefix fn None acc =
    Some (fold (\<lambda>p. \<lambda>a. fst (fn (fst p) (snd p) a)) (filter (\<lambda>p. has_prefix (fst p) prefix) (kv b)) acc,
          None, None)"
proof -
  let ?rest = "dropWhile (\<lambda>p. fst p < prefix) (kv b)"
  have sub: "set ?rest \<subseteq> set (kv b)" by (auto dest: set_dropWhileD)
  have "scan_list prefix fn None ?rest acc =
    (fold (\<lambda>p. \<lambda>a. fst (fn (fst p) (snd p) a)) (filter (\<lambda>p. has_prefix (fst p) prefix) ?rest) acc, None, None)"
  proof (rule scan_list_fold)
    show "sorted_keys ?rest" using kv_sorted [OF assms(1)] by (rule sorted_keys_dropWhile)
    show "\<forall>p \<in> set ?rest. prefix \<le> fst p" using sorted_after_seek [OF assms(1)] by blast
  qed (use assms(3) sub in blast)
  moreover have "scanPrefix bk b prefix fn None acc = Some (scan_list prefix fn None ?rest acc)"
    by (rule scanPrefix_list [OF assms(1)]) (rule assms(2))
  ultimately show ?thesis using filter_after_seek [OF assms(1)] by simp
qed

lemma clear_loop_list:
  assumes "ok b" "kv b = pre @ rest"
  shows "\<exists>b'. clear_loop bk self cp b (head_of rest) = Some (Some b') \<and> ok b' \<and>
    kv b' = pre @ dropWhile (\<lambda>p. fst p = self \<or> has_prefix (fst p) cp) rest"
  using assms
proof (induction rest arbitrary: b)
  case Nil
  then show ?case by (subst clear_loop.simps) simp
next
  case (Cons p rest)
  obtain k v where p: "p = (k, v)" by fastforce
  have srt: "sorted_keys (pre @ (k, v) # rest)" using Cons.prems kv_sorted p by metis
  show ?case
  proof (cases "k = self \<or> has_prefix k cp")
    case False
    then show ?thesis using Cons.prems p by (subst clear_loop.simps) simp
  next
    case True
    obtain b' where b': "bk_delete bk b k = Some b'" "ok b'" "kv b' = filter (\<lambda>p. fst p \<noteq> k) (kv b)"
      using delete_law [OF Cons.prems(1), of k] Cons.prems(2) p by force
    have kvb': "kv b' = pre @ rest"
      using b'(3) Cons.prems(2) p filter_other_keys [OF srt] by simp
    moreover have "bk_next bk b' k = head_of rest"
      using next_law [OF b'(2)] kvb' find_next_gone [OF srt] by simp
    moreover note Cons.IH [OF b'(2) kvb']
    moreover have "(k \<noteq> self \<and> \<not> has_prefix k cp) = False" using True by simp
    moreover have "dropWhile (\<lambda>p. fst p = self \<or> has_prefix (fst p) cp) ((k, v) # rest) =
        dropWhile (\<lambda>p. fst p = self \<or> has_prefix (fst p) cp) rest" using True by simp
    ultimately show ?thesis using p b'(1)
      by (subst clear_loop.simps) (simp only: head_of_simps option.simps prod.case if_False)
  qed
qed

lemma clear_one_list:
  fixes p :: string
  assumes "ok b"
  defines "self \<equiv> trim_suffix (dirPrefix p) ''/''"
  shows "\<exists>b'. clear_one bk p b = Some (Some b') \<and> ok b' \<and>
    kv b' = takeWhile (\<lambda>q. fst q < self) (kv b) @
      dropWhile (\<lambda>q. fst q = self \<or> has_prefix (fst q) (dirPrefix p)) (dropWhile (\<lambda>q. fst q < self) (kv b))"
proof -
  have "bk_seek bk b self = head_of (dropWhile (\<lambda>q. fst q < self) (kv b))"
    using seek_law [OF assms(1)] by (simp add: find_head_of not_le)
  then show ?thesis
    using clear_loop_list [OF assms(1), of "takeWhile (\<lambda>q. fst q < self) (kv b)"
        "dropWhile (\<lambda>q. fst q < self) (kv b)" self "dirPrefix p"]
    by (simp add: clear_one_def Let_def self_def)
qed

lemma clear_all_total:
  "ok b \<Longrightarrow> \<exists>b'. clear_all bk ps b = Some (Some b') \<and> ok b' \<and> set (kv b') \<subseteq> set (kv b)"
proof (induction ps arbitrary: b)
  case (Cons p ps)
  have sub: "set (takeWhile P xs @ dropWhile Q (dropWhile P xs)) \<subseteq> set xs" for P Q and xs :: "'a list"
    by (auto dest: set_takeWhileD set_dropWhileD)
  obtain b1 where b1: "clear_one bk p b = Some (Some b1)" "ok b1" "set (kv b1) \<subseteq> set (kv b)"
  proof -
    obtain b1 where "clear_one bk p b = Some (Some b1)" "ok b1"
      and eq: "kv b1 = takeWhile (\<lambda>q. fst q < trim_suffix (dirPrefix p) ''/'') (kv b) @
        dropWhile (\<lambda>q. fst q = trim_suffix (dirPrefix p) ''/'' \<or> has_prefix (fst q) (dirPrefix p))
          (dropWhile (\<lambda>q. fst q < trim_suffix (dirPrefix p) ''/'') (kv b))"
      using clear_one_list [OF Cons.prems, of p] by blast
    moreover have "set (kv b1) \<subseteq> set (kv b)" unfolding eq by (rule sub)
    ultimately show ?thesis using that by blast
  qed
  from Cons.IH [OF b1(2)] b1 show ?case by auto
qed simp

end

section \<open>A reference bucket\<close>

text \<open>A sorted list of pairs with the operations of a bucket: every law holds of it.\<close>

fun al_put :: "(string \<times> string) list \<Rightarrow> string \<Rightarrow> string \<Rightarrow> (string \<times> string) list" where
  "al_put [] k v = [(k, v)]"
| "al_put (p # ps) k v =
     (if k < fst p then (k, v) # p # ps else if k = fst p then (k, v) # ps else p # al_put ps k v)"

definition al_bolt :: "(string \<times> string) list bolt" where
  "al_bolt = \<lparr>bk_get = map_of,
     bk_put = (\<lambda>L k v. if k = [] then None else Some (al_put L k v)),
     bk_delete = (\<lambda>L k. Some (filter (\<lambda>p. fst p \<noteq> k) L)),
     bk_seek = (\<lambda>L k. find (\<lambda>p. k \<le> fst p) L),
     bk_next = (\<lambda>L k. find (\<lambda>p. k < fst p) L),
     bk_begin = (\<lambda>_. True), bk_commit = (\<lambda>_. True)\<rparr>"

lemma al_bolt_simps [simp]:
  "bk_get al_bolt = map_of" "bk_begin al_bolt L" "bk_commit al_bolt L"
  "bk_put al_bolt L k v = (if k = [] then None else Some (al_put L k v))"
  "bk_delete al_bolt L k = Some (filter (\<lambda>p. fst p \<noteq> k) L)"
  "bk_seek al_bolt L k = find (\<lambda>p. k \<le> fst p) L"
  "bk_next al_bolt L k = find (\<lambda>p. k < fst p) L"
  by (simp_all add: al_bolt_def)

lemma set_al_put: "set (al_put L k v) \<subseteq> insert (k, v) (set L)"
  by (induction L) auto

lemma sorted_al_put: "sorted_keys L \<Longrightarrow> sorted_keys (al_put L k v)"
proof (induction L)
  case (Cons p L)
  then show ?case using set_al_put [of L k v] by (auto intro: less_trans)
qed simp

lemma map_of_al_put: "sorted_keys L \<Longrightarrow> map_of (al_put L k v) = (map_of L)(k \<mapsto> v)"
proof (induction L)
  case (Cons p L)
  have "map_of L (fst p) = None" if "k < fst p" using Cons.prems by (auto simp: map_of_eq_None_iff)
  with Cons show ?case by (cases p) (auto simp: fun_eq_iff)
qed simp

interpretation al: bucket al_bolt sorted_keys "\<lambda>L. L"
proof (unfold_locales, goal_cases)
  case (5 b k v b')
  then show ?case by (auto simp: sorted_al_put map_of_al_put split: if_splits)
qed (auto simp: sorted_wrt_filter)

end
