(* ===== verification/Index_Facts.thy ===== *)
theory Index_Facts
  imports Store_Bucket
begin

text \<open>
  What the operations of the index do on every bucket that keeps bbolt's promises: a record
  reads back as it was put, the scans report exactly the records below a directory, and how far
  \<open>ClearTree\<close> gets.
\<close>

section \<open>Reading and writing\<close>

lemma dirPrefix_shape: "\<exists>q. dirPrefix p = q @ ''/''"
  by (cases p rule: rev_cases) (auto simp: dirPrefix_def)

definition in_subtree :: "string \<Rightarrow> string \<Rightarrow> bool" where
  "in_subtree p q \<longleftrightarrow> q = trim_suffix (dirPrefix p) ''/'' \<or> has_prefix q (dirPrefix p)"

lemma self_slash: "trim_suffix (dirPrefix p) ''/'' @ ''/'' = dirPrefix p"
  using dirPrefix_shape [of p] by (auto simp: trim_suffix_def has_suffix_def)

lemma in_subtree_ge: "in_subtree p q \<Longrightarrow> trim_suffix (dirPrefix p) ''/'' \<le> q"
proof -
  have "has_prefix (dirPrefix p) (trim_suffix (dirPrefix p) ''/'')"
    by (metis append_eq_conv_conj has_prefix_def self_slash)
  then show "in_subtree p q \<Longrightarrow> ?thesis"
    by (auto simp: in_subtree_def dest!: prefix_le intro: order_trans)
qed

text \<open>The file id a scan for \<open>.strm\<close> records takes from a pair.\<close>

definition strm_fid :: "string \<times> string \<Rightarrow> string option" where
  "strm_fid p = (if length strmSuffix \<le> length (fst p) \<and>
        equal_fold (drop (length (fst p) - length strmSuffix) (fst p)) strmSuffix
     then (case decodeRecord (snd p) of Some r \<Rightarrow> if rFid r = [] then None else Some (rFid r) | None \<Rightarrow> None)
     else None)"

text \<open>The entry a scan of a directory reports for a pair: a record whose key has no further
  separator.\<close>

definition child_of :: "string \<Rightarrow> string \<times> string \<Rightarrow> Child option" where
  "child_of prefix p =
     (if CHR ''/'' \<in> set (drop (length prefix) (fst p)) then None
      else map_option (\<lambda>r. \<lparr>cName = drop (length prefix) (fst p), cRec = r\<rparr>) (decodeRecord (snd p)))"

lemma children_step_child:
  "fst (children_step prefix k v out) = out @ (case child_of prefix (k, v) of None \<Rightarrow> [] | Some c \<Rightarrow> [c])"
  by (auto simp: children_step_def child_of_def Let_def index_byte_None [symmetric]
      split: option.splits)

lemma fold_children:
  "fold (\<lambda>p. \<lambda>a. fst (children_step prefix (fst p) (snd p) a)) xs acc = acc @ List.map_filter (child_of prefix) xs"
  by (induction xs arbitrary: acc) (auto simp: children_step_child List.map_filter_simps split: option.splits)

text \<open>A jump goes to the end of the subdirectory that holds the current key.\<close>

lemma children_step_jump:
  assumes "has_prefix k prefix" "snd (children_step prefix k v out) = Some s"
  obtains sub t where "k = prefix @ sub @ ''/'' @ t" "CHR ''/'' \<notin> set sub" "s = (prefix @ sub @ ''/'') @ [CHR 0xFF]"
proof -
  from assms(1) obtain rel where k: "k = prefix @ rel" by (auto simp: has_prefix_iff)
  with assms(2) obtain i where i: "index_byte (CHR ''/'') rel = Some i"
    and s: "s = skipSuccessor k (length prefix + i)"
    by (auto simp: children_step_def Let_def split: option.splits)
  let ?sub = "take i rel" and ?t = "drop (Suc i) rel"
  have rel: "rel = ?sub @ ''/'' @ ?t" using index_byte_Some [OF i] id_take_nth_drop [of i rel] by simp
  have "take (Suc i) rel = ?sub @ ''/''" using index_byte_Some [OF i] by (simp add: take_Suc_conv_app_nth)
  then have "s = (prefix @ ?sub @ ''/'') @ [CHR 0xFF]" by (simp add: s k skipSuccessor_def)
  moreover have "k = prefix @ ?sub @ ''/'' @ ?t" using rel k by simp
  ultimately show ?thesis using that index_byte_Some [OF i] by blast
qed

definition ff_after_slash :: "string \<Rightarrow> bool" where
  "ff_after_slash k \<longleftrightarrow> contains k [CHR ''/'', CHR 0xFF]"

text \<open>A path in a directory below the listed one whose name there starts with 0xFF: the jump key does not lie behind it.\<close>

definition deep_ff :: "string \<Rightarrow> string \<Rightarrow> bool" where
  "deep_ff prefix k \<longleftrightarrow> (\<exists>sub t. k = prefix @ sub @ ''/'' @ CHR 0xFF # t \<and> CHR ''/'' \<notin> set sub)"

lemma deep_ff_after_slash: "deep_ff prefix k \<Longrightarrow> ff_after_slash k"
  unfolding deep_ff_def ff_after_slash_def contains_iff by (metis append_Cons append_Nil append_assoc)

lemma jump_forward:
  assumes "\<not> deep_ff prefix (prefix @ sub @ ''/'' @ t)" "CHR ''/'' \<notin> set sub"
  shows "prefix @ sub @ ''/'' @ t < (prefix @ sub @ ''/'') @ [CHR 0xFF]"
proof (cases t)
  case (Cons c u)
  have "c \<noteq> CHR 0xFF" using assms Cons by (auto simp: deep_ff_def)
  then show ?thesis using less_append_ff [of "(prefix @ sub @ ''/'') @ t" "prefix @ sub @ ''/''"] Cons
    by (simp add: has_prefix_iff)
qed simp

lemma jump_over_deep:
  assumes "k = prefix @ sub @ ''/'' @ t" "k \<le> k'" "k' < (prefix @ sub @ ''/'') @ [CHR 0xFF]"
  shows "has_prefix k' (prefix @ sub @ ''/'')"
  by (rule prefix_interval [of k _ "(prefix @ sub @ ''/'') @ [CHR 0xFF]"])
     (use assms in \<open>auto simp: has_prefix_iff less_imp_le\<close>)

lemma sorted_keys_distinct: "sorted_keys L \<Longrightarrow> distinct (map fst L)"
  by (induction L) auto

lemma dropWhile_none_iff:
  "sorted_keys xs \<Longrightarrow> (\<forall>q \<in> set (dropWhile Q xs). \<not> Q q) \<longleftrightarrow>
    (\<forall>x \<in> set xs. \<forall>q \<in> set xs. Q q \<and> fst x < fst q \<longrightarrow> Q x)"
proof (induction xs)
  case (Cons x xs)
  then show ?case by (auto dest: less_asym)
qed simp

text \<open>What a deletion of one tree leaves of the pairs.\<close>

definition cleared :: "string \<Rightarrow> (string \<times> string) list \<Rightarrow> (string \<times> string) list" where
  "cleared p L =
     (let self = trim_suffix (dirPrefix p) ''/''
      in takeWhile (\<lambda>q. fst q < self) L @
         dropWhile (\<lambda>q. in_subtree p (fst q)) (dropWhile (\<lambda>q. fst q < self) L))"

context bucket
begin

lemma put_get:
  assumes "st_db s = Some b" "ok b" "bk_begin bk b"
    and "bk_put bk b path (encodeRecord r) = Some b'" "bk_commit bk b'" "bk_begin bk b'"
    and "length (rFid r) < 65536"
  shows "Get bk (Put bk s path r) path = Some r"
    and "q \<noteq> path \<Longrightarrow> Get bk (Put bk s path r) q = Get bk s q"
  using assms put_law [of b path "encodeRecord r" b'] get_law [of b] get_law [of b']
  by (auto simp: Get_def Put_def view_def update_def decode_encode)

lemma fold_count:
  "fold (\<lambda>p. \<lambda>a. fst (count_step (fst p) (snd p) a)) xs n = n + of_nat (length xs)"
  by (induction xs arbitrary: n) (auto simp: count_step_def)

lemma count_exact:
  assumes "st_db s = Some b" "ok b" "bk_begin bk b"
  shows "CountRecursive bk s None path =
    Some (of_nat (length (filter (\<lambda>p. has_prefix (fst p) (dirPrefix path)) (kv b))), None)"
proof -
  have "scanPrefix bk b (dirPrefix path) count_step None 0 =
    Some (fold (\<lambda>p. \<lambda>a. fst (count_step (fst p) (snd p) a))
      (filter (\<lambda>p. has_prefix (fst p) (dirPrefix path)) (kv b)) 0, None, None)"
    by (rule scanPrefix_fold [OF assms(2)]) (auto simp: count_step_def)
  then show ?thesis using assms by (simp add: CountRecursive_def view_def fold_count)
qed

lemma fold_strm:
  "fold (\<lambda>p. \<lambda>a. fst (strm_step (fst p) (snd p) a)) xs acc = acc @ List.map_filter strm_fid xs"
  by (induction xs arbitrary: acc)
     (auto simp: strm_step_def strm_fid_def List.map_filter_simps split: option.splits)

lemma strm_exact:
  assumes "st_db s = Some b" "ok b" "bk_begin bk b"
  shows "ListStrmFids bk s None path =
    Some (List.map_filter strm_fid (filter (\<lambda>p. has_prefix (fst p) (dirPrefix path)) (kv b)), None)"
proof -
  have "scanPrefix bk b (dirPrefix path) strm_step None [] =
    Some (fold (\<lambda>p. \<lambda>a. fst (strm_step (fst p) (snd p) a))
      (filter (\<lambda>p. has_prefix (fst p) (dirPrefix path)) (kv b)) [], None, None)"
    by (rule scanPrefix_fold [OF assms(2)]) (auto simp: strm_step_def split: if_splits option.splits)
  then show ?thesis using assms by (simp add: ListStrmFids_def view_def fold_strm)
qed

lemma children_exact:
  assumes "st_db s = Some b" "ok b" "bk_begin bk b"
    and no_ff: "\<forall>k \<in> fst ` set (kv b). \<not> deep_ff (dirPrefix dir) k"
  shows "Children bk s None dir =
    Some (List.map_filter (child_of (dirPrefix dir)) (filter (\<lambda>p. has_prefix (fst p) (dirPrefix dir)) (kv b)), None)"
proof -
  let ?p = "dirPrefix dir"
  have "scanPrefix bk b ?p (children_step ?p) None [] =
    Some (fold (\<lambda>p. \<lambda>a. fst (children_step ?p (fst p) (snd p) a))
      (filter (\<lambda>p. has_prefix (fst p) ?p) (kv b)) [], None, None)"
  proof (rule scanPrefix_fold [OF assms(2)])
    fix k v acc s assume k: "(k, v) \<in> set (kv b)" "has_prefix k ?p" "snd (children_step ?p k v acc) = Some s"
    then obtain sub t where "k = ?p @ sub @ ''/'' @ t" "CHR ''/'' \<notin> set sub" "s = (?p @ sub @ ''/'') @ [CHR 0xFF]"
      by (auto elim: children_step_jump)
    then show "k < s" using jump_forward [of ?p sub t] no_ff k(1) by force
  next
    fix k v k' v' acc acc' s
    assume k: "has_prefix k ?p" "snd (children_step ?p k v acc) = Some s" "k < k'" "k' < s"
    then obtain sub t where "k = ?p @ sub @ ''/'' @ t" "s = (?p @ sub @ ''/'') @ [CHR 0xFF]"
      by (auto elim: children_step_jump)
    with k(3,4) have "has_prefix k' (?p @ sub @ ''/'')" using jump_over_deep by (metis less_imp_le)
    then have "CHR ''/'' \<in> set (drop (length ?p) k')" by (auto simp: has_prefix_iff)
    then show "fst (children_step ?p k' v' acc') = acc'" by (simp add: children_step_child child_of_def)
  qed
  then show ?thesis using assms by (simp add: Children_def view_def fold_children)
qed

lemma clear_one_cleared:
  "ok b \<Longrightarrow> \<exists>b'. clear_one bk p b = Some (Some b') \<and> ok b' \<and> kv b' = cleared p (kv b)"
  using clear_one_list [of b p] by (simp add: cleared_def Let_def in_subtree_def)

lemma get_kv: "ok b \<Longrightarrow> bk_get bk b k = Some v \<longleftrightarrow> (k, v) \<in> set (kv b)"
proof -
  assume b: "ok b"
  have "distinct (map fst (kv b))" using kv_sorted [OF b] by (rule sorted_keys_distinct)
  then show ?thesis using get_law [OF b] by simp
qed

lemma get_after_clear:
  assumes "ok b" "ok b'" "kv b' = cleared p (kv b)"
  shows "bk_get bk b' q = bk_get bk b q \<or> bk_get bk b' q = None \<and> in_subtree p q"
proof -
  have sub: "set (cleared p (kv b)) \<subseteq> set (kv b)"
    by (auto simp: cleared_def Let_def dest: set_takeWhileD set_dropWhileD)
  show ?thesis
  proof (cases "in_subtree p q")
    case True
    have "bk_get bk b' q = Some v \<Longrightarrow> bk_get bk b q = Some v" for v
      using sub assms by (auto simp: get_kv)
    then show ?thesis using True by (cases "bk_get bk b' q") auto
  next
    case False
    have "(q, v) \<in> set (cleared p (kv b))" if v: "(q, v) \<in> set (kv b)" for v
    proof -
      let ?self = "trim_suffix (dirPrefix p) ''/''"
      let ?rest = "dropWhile (\<lambda>q. fst q < ?self) (kv b)"
      have "(q, v) \<in> set (takeWhile (\<lambda>q. fst q < ?self) (kv b)) \<or> (q, v) \<in> set ?rest"
        using v by (metis Un_iff set_append takeWhile_dropWhile_id)
      moreover have "(q, v) \<in> set ?rest \<Longrightarrow> (q, v) \<in> set (dropWhile (\<lambda>q. in_subtree p (fst q)) ?rest)"
        using False by (metis Un_iff fst_conv set_append set_takeWhileD takeWhile_dropWhile_id)
      ultimately show ?thesis by (auto simp: cleared_def Let_def)
    qed
    then have "bk_get bk b q = Some v \<Longrightarrow> bk_get bk b' q = Some v" for v
      using assms by (auto simp: get_kv)
    moreover have "bk_get bk b' q = Some v \<Longrightarrow> bk_get bk b q = Some v" for v
      using sub assms by (auto simp: get_kv)
    ultimately show ?thesis by (metis not_Some_eq)
  qed
qed

lemma clear_complete_iff:
  assumes "ok b" "ok b'" "kv b' = cleared p (kv b)"
  shows "(\<forall>q. in_subtree p q \<longrightarrow> bk_get bk b' q = None) \<longleftrightarrow>
    (\<forall>x q. bk_get bk b x \<noteq> None \<and> bk_get bk b q \<noteq> None \<and> in_subtree p q \<and>
           trim_suffix (dirPrefix p) ''/'' \<le> x \<and> x < q \<longrightarrow> in_subtree p x)"
    (is "?L \<longleftrightarrow> ?R")
proof -
  let ?self = "trim_suffix (dirPrefix p) ''/''"
  let ?rest = "dropWhile (\<lambda>q. fst q < ?self) (kv b)"
  let ?Q = "\<lambda>q. in_subtree p (fst q)"
  have srt: "sorted_keys ?rest" using kv_sorted [OF assms(1)] by (rule sorted_keys_dropWhile)
  have rest: "(x, v) \<in> set ?rest \<longleftrightarrow> (x, v) \<in> set (kv b) \<and> ?self \<le> x" for x v
    using sorted_after_seek [OF assms(1), of "(x, v)" ?self]
    by (metis (no_types, lifting) Un_iff fst_conv leD set_append set_takeWhileD takeWhile_dropWhile_id)
  have key: "bk_get bk b x \<noteq> None \<longleftrightarrow> (\<exists>v. (x, v) \<in> set (kv b))" for x
    using get_kv [OF assms(1)] by auto
  have "?L \<longleftrightarrow> (\<forall>q \<in> set (kv b'). \<not> ?Q q)"
  proof -
    have "bk_get bk b' x = None \<longleftrightarrow> (\<forall>v. (x, v) \<notin> set (kv b'))" for x
      using get_kv [OF assms(2), of x] by (cases "bk_get bk b' x") auto
    then show ?thesis by (auto simp: Ball_def)
  qed
  also have "\<dots> \<longleftrightarrow> (\<forall>q \<in> set (dropWhile ?Q ?rest). \<not> ?Q q)"
  proof -
    have "\<not> ?Q q" if "q \<in> set (takeWhile (\<lambda>q. fst q < ?self) (kv b))" for q
      using set_takeWhileD [OF that] in_subtree_ge [of p "fst q"] by auto
    then show ?thesis unfolding assms(3) cleared_def Let_def set_append ball_Un by blast
  qed
  also have "\<dots> \<longleftrightarrow> (\<forall>x \<in> set ?rest. \<forall>q \<in> set ?rest. ?Q q \<and> fst x < fst q \<longrightarrow> ?Q x)"
    using srt by (rule dropWhile_none_iff)
  also have "\<dots> \<longleftrightarrow> ?R"
  proof -
    have "?R \<longleftrightarrow> (\<forall>x v q w. (x, v) \<in> set (kv b) \<and> (q, w) \<in> set (kv b) \<and> in_subtree p q \<and>
        ?self \<le> x \<and> x < q \<longrightarrow> in_subtree p x)" unfolding key by blast
    also have "\<dots> \<longleftrightarrow> (\<forall>x v q w. (x, v) \<in> set ?rest \<and> (q, w) \<in> set ?rest \<and> in_subtree p q \<and> x < q
        \<longrightarrow> in_subtree p x)" 
      unfolding rest by (intro iff_allI) (auto dest: order.strict_implies_order order.trans)
    finally show ?thesis by (simp only: Ball_def split_paired_All fst_conv) blast
  qed
  finally show ?thesis .
qed

lemma get_record:
  "st_db s = Some b \<Longrightarrow> ok b \<Longrightarrow> bk_begin bk b \<Longrightarrow>
   Get bk s k = Some r \<longleftrightarrow> (\<exists>v. (k, v) \<in> set (kv b) \<and> decodeRecord v = Some r)"
  by (auto simp: Get_def view_def get_kv [symmetric] split: option.splits)

lemma children_set:
  assumes "st_db s = Some b" "ok b" "bk_begin bk b"
  shows "set (List.map_filter (child_of (dirPrefix dir)) (filter (\<lambda>p. has_prefix (fst p) (dirPrefix dir)) (kv b))) =
    {\<lparr>cName = n, cRec = r\<rparr> |n r. CHR ''/'' \<notin> set n \<and> Get bk s (dirPrefix dir @ n) = Some r}"
    (is "set (List.map_filter ?f (filter ?P _)) = ?R")
proof -
  have "c \<in> set (List.map_filter ?f (filter ?P (kv b))) \<longleftrightarrow> (\<exists>p \<in> set (kv b). ?P p \<and> ?f p = Some c)" for c
    by (force simp: List.map_filter_def)
  also have "\<dots> c \<longleftrightarrow> c \<in> ?R" for c
    by (auto simp: child_of_def has_prefix_iff get_record [OF assms] split: if_splits
        intro!: bexI [of _ "(dirPrefix dir @ _, _)"])
  finally show ?thesis by blast
qed

lemma sorted_map_filter_child:
  "sorted_keys L \<Longrightarrow> \<forall>p \<in> set L. has_prefix (fst p) d \<Longrightarrow> sorted_wrt (<) (map cName (List.map_filter (child_of d) L))"
proof (induction L)
  case (Cons p L)
  have *: "cName c < cName c'" if "child_of d p = Some c" "c' \<in> set (List.map_filter (child_of d) L)" for c c'
  proof -
    from that(2) obtain q where q: "q \<in> set L" "child_of d q = Some c'" by (auto simp: List.map_filter_def)
    obtain a a' where "fst p = d @ a" "fst q = d @ a'" using Cons.prems(2) q(1) by (auto simp: has_prefix_iff)
    moreover have "fst p < fst q" using Cons.prems(1) q(1) by simp
    ultimately show ?thesis using that(1) q(2) by (auto simp: child_of_def split: if_splits)
  qed
  show ?case using Cons * by (auto simp: List.map_filter_simps split: option.splits)
qed (simp add: List.map_filter_simps)

lemma children_sorted:
  "ok b \<Longrightarrow> sorted_wrt (<) (map cName
     (List.map_filter (child_of (dirPrefix dir)) (filter (\<lambda>p. has_prefix (fst p) (dirPrefix dir)) (kv b))))"
  by (rule sorted_map_filter_child) (auto intro: sorted_wrt_filter kv_sorted)

lemma get_no_ff:
  "ok b \<Longrightarrow> \<forall>k. bk_get bk b k \<noteq> None \<longrightarrow> \<not> deep_ff p k \<Longrightarrow> \<forall>k \<in> fst ` set (kv b). \<not> deep_ff p k"
  using get_kv by fastforce

lemma count_card:
  assumes "ok b"
  shows "length (filter (\<lambda>p. has_prefix (fst p) d) (kv b)) = card {k. bk_get bk b k \<noteq> None \<and> has_prefix k d}"
proof -
  have key: "bk_get bk b k \<noteq> None \<longleftrightarrow> (\<exists>v. (k, v) \<in> set (kv b))" for k
    using get_kv [OF assms] by auto
  have "{k. bk_get bk b k \<noteq> None \<and> has_prefix k d} = set (map fst (filter (\<lambda>p. has_prefix (fst p) d) (kv b)))"
  proof (rule set_eqI)
    fix k
    have "k \<in> set (map fst (filter (\<lambda>p. has_prefix (fst p) d) (kv b))) \<longleftrightarrow>
        (\<exists>v. (k, v) \<in> set (kv b)) \<and> has_prefix k d"
      unfolding set_map set_filter by (auto intro: rev_image_eqI)
    then show "k \<in> {k. bk_get bk b k \<noteq> None \<and> has_prefix k d} \<longleftrightarrow>
        k \<in> set (map fst (filter (\<lambda>p. has_prefix (fst p) d) (kv b)))"
      by (simp only: mem_Collect_eq key)
  qed
  moreover have "distinct (map fst (filter (\<lambda>p. has_prefix (fst p) d) (kv b)))"
    by (rule sorted_keys_distinct) (rule sorted_wrt_filter, rule kv_sorted, rule assms)
  moreover note distinct_card [OF this]
  ultimately show ?thesis by simp
qed

lemma strm_list:
  assumes "st_db s = Some b" "ok b" "bk_begin bk b" "L = filter (\<lambda>p. has_prefix (fst p) d) (kv b)"
  defines "ks \<equiv> map fst (filter (\<lambda>p. strm_fid p \<noteq> None) L)"
  shows "List.map_filter strm_fid L = map (Fid bk s) ks \<and> sorted_wrt (<) ks \<and>
    set ks = {k. has_prefix k d \<and> length strmSuffix \<le> length k \<and>
      equal_fold (drop (length k - length strmSuffix) k) strmSuffix \<and> Fid bk s k \<noteq> []}"
proof -
  have fid: "Fid bk s (fst p) = (case decodeRecord (snd p) of None \<Rightarrow> [] | Some r \<Rightarrow> rFid r)" if "p \<in> set (kv b)" for p
    using that assms(1,2,3) get_kv [OF assms(2), of "fst p" "snd p"] by (simp add: Fid_def Get_def view_def split: option.splits)
  have nofid: "Fid bk s k \<noteq> [] \<Longrightarrow> \<exists>v. (k, v) \<in> set (kv b)" for k
    using get_record [OF assms(1-3), of k] by (auto simp: Fid_def split: option.splits)
  have "map (Fid bk s) ks = map (\<lambda>p. the (strm_fid p)) (filter (\<lambda>p. strm_fid p \<noteq> None) L)"
    unfolding ks_def by (auto simp: assms(4) fid strm_fid_def split: option.splits if_splits)
  then have 1: "List.map_filter strm_fid L = map (Fid bk s) ks" by (simp add: List.map_filter_def comp_def)
  have "sorted_keys (filter (\<lambda>p. strm_fid p \<noteq> None) L)"
    unfolding assms(4) by (intro sorted_wrt_filter kv_sorted [OF assms(2)])
  then have 2: "sorted_wrt (<) ks" by (simp add: ks_def sorted_wrt_map)
  have 3: "k \<in> set ks \<longleftrightarrow> k \<in> {k. has_prefix k d \<and> length strmSuffix \<le> length k \<and>
      equal_fold (drop (length k - length strmSuffix) k) strmSuffix \<and> Fid bk s k \<noteq> []}" (is "_ \<longleftrightarrow> k \<in> ?R") for k
  proof
    assume "k \<in> set ks"
    then obtain v where v: "(k, v) \<in> set (kv b)" "has_prefix k d" "strm_fid (k, v) \<noteq> None"
      by (auto simp: ks_def assms(4))
    then show "k \<in> ?R" using fid [OF v(1)] by (auto simp: strm_fid_def split: if_splits option.splits)
  next
    assume k: "k \<in> ?R"
    then obtain v where v: "(k, v) \<in> set (kv b)" using nofid by blast
    then have "strm_fid (k, v) \<noteq> None" using k fid [OF v] by (auto simp: strm_fid_def split: option.splits)
    then show "k \<in> set ks" using v k by (force simp: ks_def assms(4))
  qed
  from 1 2 3 show ?thesis by blast
qed

lemma clear_all_get:
  "ok b \<Longrightarrow> \<exists>b'. clear_all bk ps b = Some (Some b') \<and> ok b' \<and>
    (\<forall>q. bk_get bk b' q = bk_get bk b q \<or> bk_get bk b' q = None \<and> (\<exists>p \<in> set ps. in_subtree p q))"
proof (induction ps arbitrary: b)
  case (Cons p ps)
  obtain b1 where b1: "clear_one bk p b = Some (Some b1)" "ok b1" "kv b1 = cleared p (kv b)"
    using clear_one_cleared [OF Cons.prems, of p] by blast
  obtain b2 where b2: "clear_all bk ps b1 = Some (Some b2)" "ok b2"
    "\<forall>q. bk_get bk b2 q = bk_get bk b1 q \<or> bk_get bk b2 q = None \<and> (\<exists>p \<in> set ps. in_subtree p q)"
    using Cons.IH [OF b1(2)] by blast
  have "bk_get bk b2 q = bk_get bk b q \<or> bk_get bk b2 q = None \<and> (\<exists>p' \<in> set (p # ps). in_subtree p' q)" for q
    using b2(3) [rule_format, of q] get_after_clear [OF Cons.prems b1(2,3), of q] by auto
  then show ?case using b1(1) b2(1,2) by simp
qed simp

lemma clear_tree_sound:
  assumes "st_db s = Some b" "ok b"
  shows "\<exists>s'. ClearTree bk s ps = Some s' \<and>
    (\<forall>q. Get bk s' q \<noteq> Get bk s q \<longrightarrow>
       (\<exists>b'. st_db s' = Some b' \<and> \<not> bk_begin bk b') \<or> Get bk s' q = None \<and> (\<exists>p \<in> set ps. in_subtree p q))"
proof -
  obtain b' where b': "clear_all bk ps b = Some (Some b')" "ok b'"
    "\<And>q. bk_get bk b' q = bk_get bk b q \<or> bk_get bk b' q = None \<and> (\<exists>p \<in> set ps. in_subtree p q)"
    using clear_all_get [OF assms(2), of ps] by blast
  have "\<exists>s'. ClearTree bk s ps = Some s' \<and> (s' = s \<or> bk_begin bk b \<and> st_db s' = Some b')"
    using assms(1) b'(1) by (auto simp: ClearTree_def update_def)
  then obtain s' where s': "ClearTree bk s ps = Some s'" "s' = s \<or> bk_begin bk b \<and> st_db s' = Some b'" by blast
  have "Get bk s' q \<noteq> Get bk s q \<longrightarrow> (\<exists>b'. st_db s' = Some b' \<and> \<not> bk_begin bk b') \<or>
      Get bk s' q = None \<and> (\<exists>p \<in> set ps. in_subtree p q)" for q
    using s'(2) b'(3) [of q] assms(1) by (auto simp: Get_def view_def)
  then show ?thesis using s'(1) by blast
qed

lemma clear_tree_one:
  assumes "st_db s = Some b" "ok b" "\<And>b. bk_begin bk b" "\<And>b. bk_commit bk b"
  shows "\<exists>s' b'. ClearTree bk s [p] = Some s' \<and> st_db s' = Some b' \<and> ok b' \<and> kv b' = cleared p (kv b)"
proof -
  obtain b' where "clear_one bk p b = Some (Some b')" "ok b'" "kv b' = cleared p (kv b)"
    using clear_one_cleared [OF assms(2), of p] by blast
  then show ?thesis using assms by (simp add: ClearTree_def update_def)
qed

text \<open>A key whose first deeper component starts with the byte 0xFF is never passed.\<close>

lemma next_position:
  assumes "ok b" "kv b = pre @ (k0, v0) # rest"
  shows "bk_next bk b k0 = head_of rest"
  using next_law [OF assms(1)] find_next [of pre k0 v0 rest] kv_sorted [OF assms(1)] assms(2) by simp

lemma seek_position:
  assumes "ok b" "(k, v) \<in> set (kv b)" "s \<le> k"
  obtains pre rest where "bk_seek bk b s = head_of rest" "kv b = pre @ rest" "(k, v) \<in> set rest"
    "\<forall>p \<in> set rest. s \<le> fst p"
proof
  let ?rest = "dropWhile (\<lambda>p. fst p < s) (kv b)"
  show "bk_seek bk b s = head_of ?rest" using seek_law [OF assms(1)] by (simp add: find_head_of not_le)
  show "kv b = takeWhile (\<lambda>p. fst p < s) (kv b) @ ?rest" by simp
  show "(k, v) \<in> set ?rest"
    using assms(2,3) by (metis Un_iff fst_conv leD set_append set_takeWhileD takeWhile_dropWhile_id)
  show "\<forall>p \<in> set ?rest. s \<le> fst p" using sorted_after_seek [OF assms(1)] by blast
qed

definition before_key where
  "before_key prefix k b cur \<longleftrightarrow>
     (\<exists>pre rest v. cur = head_of rest \<and> kv b = pre @ rest \<and> (k, v) \<in> set rest \<and> (\<forall>p \<in> set rest. prefix \<le> fst p))"

lemma first_slash_unique:
  "sub @ CHR ''/'' # t = sub' @ CHR ''/'' # t' \<Longrightarrow> CHR ''/'' \<notin> set sub \<Longrightarrow> CHR ''/'' \<notin> set sub' \<Longrightarrow>
   sub = sub' \<and> t = t'"
proof (induction sub arbitrary: sub')
  case Nil
  then show ?case by (cases sub') auto
next
  case (Cons x sub)
  then show ?case by (cases sub') auto
qed

lemma before_key_step:
  assumes "ok b" "k = prefix @ sub @ ''/'' @ CHR 0xFF # t" "CHR ''/'' \<notin> set sub" "before_key prefix k b cur"
  shows "\<exists>k0 v0. cur = Some (k0, v0) \<and> has_prefix k0 prefix \<and>
    (\<forall>acc. before_key prefix k b
       (case snd (children_step prefix k0 v0 acc) of Some s \<Rightarrow> bk_seek bk b s | None \<Rightarrow> bk_next bk b k0))"
proof -
  obtain pre rest v where cur: "cur = head_of rest" and kvb: "kv b = pre @ rest" and k: "(k, v) \<in> set rest"
    and ge: "\<forall>p \<in> set rest. prefix \<le> fst p" using assms(4) by (auto simp: before_key_def)
  obtain k0 v0 rest' where rest: "rest = (k0, v0) # rest'" using k by (cases rest) auto
  have le: "k0 \<le> k" and srt: "sorted_keys rest"
    using kv_sorted [OF assms(1)] kvb rest k by (auto simp: sorted_wrt_append)
  have pk: "has_prefix k prefix" using assms(2) by (simp add: has_prefix_iff)
  then have pk0: "has_prefix k0 prefix"
    using prefix_interval [of prefix prefix k k0] le ge rest by simp
  have "before_key prefix k b
      (case snd (children_step prefix k0 v0 acc) of Some s \<Rightarrow> bk_seek bk b s | None \<Rightarrow> bk_next bk b k0)" for acc
  proof (cases "snd (children_step prefix k0 v0 acc)")
    case None
    have "index_byte (CHR ''/'') (drop (length prefix) k) \<noteq> None"
      by (simp add: index_byte_None assms(2))
    then have "k0 \<noteq> k" using None by (auto simp: children_step_def Let_def split: option.splits)
    then have "(k, v) \<in> set rest'" using k rest by auto
    then have "before_key prefix k b (head_of rest')"
      unfolding before_key_def using kvb rest ge
      by (intro exI [of _ "pre @ [(k0, v0)]"] exI [of _ rest'] exI [of _ v]) auto
    then show ?thesis using None next_position [OF assms(1)] kvb rest by simp
  next
    case (Some s)
    obtain sub0 t0 where k0: "k0 = prefix @ sub0 @ ''/'' @ t0" "CHR ''/'' \<notin> set sub0"
      and s: "s = (prefix @ sub0 @ ''/'') @ [CHR 0xFF]" using children_step_jump [OF pk0 Some] .
    have "s \<le> k"
    proof (rule ccontr)
      assume "\<not> s \<le> k"
      then have lt: "k < s" by simp
      then have "has_prefix k (prefix @ sub0 @ ''/'')" using jump_over_deep k0(1) le s by metis
      then obtain t1 where "k = prefix @ sub0 @ ''/'' @ t1" by (auto simp: has_prefix_iff)
      then have "sub = sub0" using first_slash_unique [of sub _ sub0 t1] assms(2,3) k0(2) by auto
      then show False using lt s assms(2)
        using append_less_append [of "(prefix @ sub @ ''/'') @ [CHR 0xFF]" t "[]"] by simp
    qed
    moreover have "(k, v) \<in> set (kv b)" using k kvb by simp
    ultimately obtain pre2 rest2 where "bk_seek bk b s = head_of rest2" "kv b = pre2 @ rest2" "(k, v) \<in> set rest2"
      and "\<forall>p \<in> set rest2. s \<le> fst p" using seek_position [OF assms(1)] by metis
    moreover have "prefix \<le> s" unfolding s by (rule prefix_le) (simp add: has_prefix_iff)
    ultimately have "before_key prefix k b (bk_seek bk b s)"
      unfolding before_key_def by (metis order_trans)
    then show ?thesis using Some by simp
  qed
  then show ?thesis using cur rest pk0 by simp
qed

lemma scan_loop_stuck:
  assumes "ok b" "k = prefix @ sub @ ''/'' @ CHR 0xFF # t" "CHR ''/'' \<notin> set sub" "before_key prefix k b cur"
  shows "scan_loop bk b prefix (children_step prefix) None cur acc \<noteq> Some y"
proof
  let ?P = "\<lambda>bk' b' pr fn c cur acc y. bk' = bk \<longrightarrow> b' = b \<longrightarrow> pr = prefix \<longrightarrow> fn = children_step prefix \<longrightarrow>
    c = None \<longrightarrow> \<not> before_key prefix k b cur"
  have "?P bk' b' pr fn c cur acc y" if "scan_loop bk' b' pr fn c cur acc = Some y" for bk' b' pr fn c cur acc y
  proof (rule scan_loop.raw_induct [where P = ?P, OF _ that], intro impI notI)
    fix loop bk' b' pr fn c cur acc y
    assume IH: "\<And>bk' b' pr fn c cur acc y. loop bk' b' pr fn c cur acc = Some y \<Longrightarrow> ?P bk' b' pr fn c cur acc y"
      and step: "(case cur of None \<Rightarrow> Some (acc, None, c)
        | Some (k, v) \<Rightarrow>
          if \<not> has_prefix k pr then Some (acc, None, c)
          else case ctx_check c of (stop, c') \<Rightarrow>
            if stop then Some (acc, Some ECancelled, c')
            else case fn k v acc of (acc', nxt) \<Rightarrow>
              loop bk' b' pr fn c' (case nxt of Some s \<Rightarrow> bk_seek bk' b' s | None \<Rightarrow> bk_next bk' b' k) acc') = Some y"
      and eqs: "bk' = bk" "b' = b" "pr = prefix" "fn = children_step prefix" "c = None"
      and "before_key prefix k b cur"
    then obtain k0 v0 where "cur = Some (k0, v0)" "has_prefix k0 prefix"
      and next_ok: "\<forall>acc. before_key prefix k b
        (case snd (children_step prefix k0 v0 acc) of Some s \<Rightarrow> bk_seek bk b s | None \<Rightarrow> bk_next bk b k0)"
      using before_key_step [OF assms(1-3)] by blast
    moreover obtain acc' nxt where st: "children_step prefix k0 v0 acc = (acc', nxt)" by fastforce
    ultimately have "loop bk b prefix (children_step prefix) None
        (case nxt of Some s \<Rightarrow> bk_seek bk b s | None \<Rightarrow> bk_next bk b k0) acc' = Some y"
      using step unfolding eqs by simp
    from IH [OF this] show False using next_ok [rule_format, of acc] st by simp
  qed
  moreover assume "scan_loop bk b prefix (children_step prefix) None cur acc = Some y"
  ultimately show False using assms(4) by blast
qed

lemma children_diverges:
  assumes "st_db s = Some b" "ok b" "bk_begin bk b" "bk_get bk b k \<noteq> None"
    and "k = dirPrefix dir @ sub @ ''/'' @ CHR 0xFF # t" "CHR ''/'' \<notin> set sub"
  shows "Children bk s None dir = None"
proof -
  obtain v where kv: "(k, v) \<in> set (kv b)" using assms(2,4) get_kv by auto
  have "dirPrefix dir \<le> k" by (rule prefix_le) (simp add: assms(5) has_prefix_iff)
  with kv obtain pre rest where "bk_seek bk b (dirPrefix dir) = head_of rest" "kv b = pre @ rest"
    "(k, v) \<in> set rest" "\<forall>p \<in> set rest. dirPrefix dir \<le> fst p"
    using seek_position [OF assms(2)] by metis
  then have "before_key (dirPrefix dir) k b (bk_seek bk b (dirPrefix dir))" by (auto simp: before_key_def)
  then have "scanPrefix bk b (dirPrefix dir) (children_step (dirPrefix dir)) None [] = None"
    using scan_loop_stuck [OF assms(2,5,6)] by (simp add: scanPrefix_def) (metis not_None_eq)
  then show ?thesis using assms(1,3) by (simp add: Children_def view_def)
qed

lemma children_diverges_iff:
  assumes "st_db s = Some b" "ok b" "bk_begin bk b"
  shows "Children bk s None dir = None \<longleftrightarrow> (\<exists>k. bk_get bk b k \<noteq> None \<and> deep_ff (dirPrefix dir) k)"
proof
  assume none: "Children bk s None dir = None"
  show "\<exists>k. bk_get bk b k \<noteq> None \<and> deep_ff (dirPrefix dir) k"
  proof (rule ccontr)
    assume "\<not> ?thesis"
    then have "\<forall>k \<in> fst ` set (kv b). \<not> deep_ff (dirPrefix dir) k" using get_no_ff [OF assms(2)] by blast
    from children_exact [OF assms this] none show False by simp
  qed
next
  assume "\<exists>k. bk_get bk b k \<noteq> None \<and> deep_ff (dirPrefix dir) k"
  then show "Children bk s None dir = None" unfolding deep_ff_def using children_diverges [OF assms] by blast
qed

end

end
