(* ===== verification/Index_Props.thy ===== *)
theory Index_Props
  imports Index_Facts
begin

text \<open>
  The properties of the index: each states what an operation of \<open>Store_Index\<close> does on a bucket
  that keeps bbolt's promises, and is instantiated on a sample library in the reference bucket.
\<close>

section \<open>Properties\<close>

text \<open>
  A sample library, as it is stored: a directory with a note, a directory and a file whose names
  extend another directory's name, and two levels below that directory.
\<close>

definition sample_record :: "string \<Rightarrow> Kind \<Rightarrow> string" where
  "sample_record fid kind = encodeRecord \<lparr>rFid = fid, rPickCode = [], rKind = kind, rSize = 0\<rparr>"

definition sample_index :: "(string \<times> string) list" where
  "sample_index =
     [(''/m'', sample_record ''1'' KindDir), (''/m/Show'', sample_record ''2'' KindDir),
      (''/m/Show (2020)'', sample_record ''3'' KindDir), (''/m/Show/a.strm'', sample_record ''4'' KindStrm),
      (''/m/Show/s1'', sample_record ''5'' KindDir), (''/m/Show/s1/b.STRM'', sample_record ''6'' KindStrm),
      (''/m/Z'', sample_record ''7'' KindDir)]"

definition sample_store :: "(string \<times> string) list Store" where
  "sample_store = \<lparr>st_db = Some sample_index\<rparr>"

lemma sample_store_simps [simp]:
  "sorted_keys sample_index" "st_db sample_store = Some sample_index"
  by (simp_all add: sample_index_def sample_store_def less_char_def)

text \<open>Writing then reading the index. On a bucket that keeps bbolt's promises, a put whose
  transaction goes through makes exactly the written record readable under its path (for a
  file id below 65536 bytes), and leaves every other path as it was.\<close>

theorem Put_Get:
  assumes "bucket bk ok kv" "st_db s = Some b" "ok b" "bk_begin bk b"
    and "bk_put bk b path (encodeRecord r) = Some b'" "bk_commit bk b'" "bk_begin bk b'"
    and "length (rFid r) < 65536"
  shows "Get bk (Put bk s path r) path = Some r \<and> Fid bk (Put bk s path r) path = rFid r \<and>
    (\<forall>q. q \<noteq> path \<longrightarrow> Get bk (Put bk s path r) q = Get bk s q)"
  using bucket.put_get [OF assms] by (simp add: Fid_def)

theorem Put_Get_witness:
  "let r = \<lparr>rFid = ''8'', rPickCode = ''pc'', rKind = KindStrm, rSize = 0\<rparr>;
       s = Put al_bolt sample_store ''/m/Z/new.strm'' r
   in Get al_bolt s ''/m/Z/new.strm'' = Some r \<and> Get al_bolt s ''/m'' = Get al_bolt sample_store ''/m''"
  using Put_Get [OF al.bucket_axioms, of sample_store sample_index "''/m/Z/new.strm''"
      "\<lparr>rFid = ''8'', rPickCode = ''pc'', rKind = KindStrm, rSize = 0\<rparr>" "al_put sample_index ''/m/Z/new.strm''
        (encodeRecord \<lparr>rFid = ''8'', rPickCode = ''pc'', rKind = KindStrm, rSize = 0\<rparr>)"]
  by (simp add: Let_def)

text \<open>C19. Listing a directory. When no stored path has a component that starts with the byte 0xFF,
  the scan of a directory ends, and returns exactly the direct children: the names without a
  separator whose path holds a readable record, with that record, each once and in byte order.
  Skipping whole subdirectories loses nothing.\<close>

theorem Children_exact:
  assumes "bucket bk ok kv" "st_db s = Some b" "ok b" "bk_begin bk b"
    and "\<forall>k. bk_get bk b k \<noteq> None \<longrightarrow> \<not> ff_after_slash k"
  shows "\<exists>cs. Children bk s None dir = Some (cs, None) \<and>
    set cs = {\<lparr>cName = n, cRec = r\<rparr> |n r. CHR ''/'' \<notin> set n \<and> Get bk s (dirPrefix dir @ n) = Some r} \<and>
    sorted_wrt (<) (map cName cs)"
proof -
  have "\<forall>k. bk_get bk b k \<noteq> None \<longrightarrow> \<not> deep_ff (dirPrefix dir) k" using assms(5) deep_ff_after_slash by blast
  from bucket.children_exact [OF assms(1-4) bucket.get_no_ff [OF assms(1,3) this]] show ?thesis
    using bucket.children_set [OF assms(1-4), of dir] bucket.children_sorted [OF assms(1,3), of dir] by simp
qed

theorem Children_exact_witness:
  "\<exists>cs. Children al_bolt sample_store None ''/m'' = Some (cs, None) \<and> sorted_wrt (<) (map cName cs) \<and>
     \<lparr>cName = ''Z'', cRec = \<lparr>rFid = ''7'', rPickCode = [], rKind = KindDir, rSize = 0\<rparr>\<rparr> \<in> set cs"
proof -
  have "\<forall>k. bk_get al_bolt sample_index k \<noteq> None \<longrightarrow> \<not> ff_after_slash k"
    by (auto simp: sample_index_def ff_after_slash_def split: if_splits)
  from Children_exact [OF al.bucket_axioms sample_store_simps(2,1) al_bolt_simps(2) this]
  obtain cs where "Children al_bolt sample_store None ''/m'' = Some (cs, None)" "sorted_wrt (<) (map cName cs)"
    "set cs = {\<lparr>cName = n, cRec = r\<rparr> |n r. CHR ''/'' \<notin> set n \<and>
      Get al_bolt sample_store (dirPrefix ''/m'' @ n) = Some r}" by blast
  moreover have "Get al_bolt sample_store (dirPrefix ''/m'' @ ''Z'') =
      Some \<lparr>rFid = ''7'', rPickCode = [], rKind = KindDir, rSize = 0\<rparr>"
    by (simp add: Get_def view_def sample_index_def dirPrefix_def sample_record_def decode_encode)
  ultimately show ?thesis by auto
qed

text \<open>Counting the records below a path: the number of stored paths with the directory's
  prefix, not counting the directory itself, modulo the width of the counter.\<close>

theorem CountRecursive_exact:
  assumes "bucket bk ok kv" "st_db s = Some b" "ok b" "bk_begin bk b"
  shows "CountRecursive bk s None path =
    Some (of_nat (card {k. bk_get bk b k \<noteq> None \<and> has_prefix k (dirPrefix path)}), None)"
  using bucket.count_exact [OF assms] bucket.count_card [OF assms(1,3)] by simp

theorem CountRecursive_exact_witness:
  "CountRecursive al_bolt sample_store None ''/m/Show/'' = Some (3, None)"
proof -
  have "{k. bk_get al_bolt sample_index k \<noteq> None \<and> has_prefix k (dirPrefix ''/m/Show/'')} =
      {''/m/Show/a.strm'', ''/m/Show/s1'', ''/m/Show/s1/b.STRM''}"
    by (auto simp: sample_index_def dirPrefix_def has_prefix_def split: if_splits)
  with CountRecursive_exact [OF al.bucket_axioms sample_store_simps(2,1) al_bolt_simps(2), of "''/m/Show/''"]
  show ?thesis by simp
qed

text \<open>The file ids of the videos below a directory: the scan visits each stored path below the
  directory whose last five bytes are \<open>.strm\<close> in any case, in byte order, and returns the file
  ids of the readable records there that have one.\<close>

theorem ListStrmFids_exact:
  assumes "bucket bk ok kv" "st_db s = Some b" "ok b" "bk_begin bk b"
  shows "\<exists>ks. ListStrmFids bk s None dir = Some (map (Fid bk s) ks, None) \<and> sorted_wrt (<) ks \<and>
    set ks = {k. has_prefix k (dirPrefix dir) \<and> length strmSuffix \<le> length k \<and>
      equal_fold (drop (length k - length strmSuffix) k) strmSuffix \<and> Fid bk s k \<noteq> []}"
  using bucket.strm_exact [OF assms] bucket.strm_list [OF assms refl] by metis

theorem ListStrmFids_exact_witness:
  "\<exists>fids. ListStrmFids al_bolt sample_store None ''/m/Show'' = Some (fids, None) \<and> ''6'' \<in> set fids \<and> ''5'' \<notin> set fids"
proof -
  obtain ks where L: "ListStrmFids al_bolt sample_store None ''/m/Show'' = Some (map (Fid al_bolt sample_store) ks, None)"
    and ks: "set ks = {k. has_prefix k (dirPrefix ''/m/Show'') \<and> length strmSuffix \<le> length k \<and>
      equal_fold (drop (length k - length strmSuffix) k) strmSuffix \<and> Fid al_bolt sample_store k \<noteq> []}"
    using ListStrmFids_exact [OF al.bucket_axioms sample_store_simps(2,1) al_bolt_simps(2)] by blast
  have fid: "Fid al_bolt sample_store k = (case map_of sample_index k of None \<Rightarrow> [] | Some v \<Rightarrow>
      (case decodeRecord v of None \<Rightarrow> [] | Some r \<Rightarrow> rFid r))" for k
    by (simp add: Fid_def Get_def view_def split: option.splits)
  have low: "ascii_lower CHR ''S'' = CHR ''s''" "ascii_lower CHR ''T'' = CHR ''t''"
    "ascii_lower CHR ''R'' = CHR ''r''" "ascii_lower CHR ''M'' = CHR ''m''" "ascii_lower CHR ''s'' = CHR ''s''"
    "ascii_lower CHR ''t'' = CHR ''t''" "ascii_lower CHR ''r'' = CHR ''r''" "ascii_lower CHR ''m'' = CHR ''m''"
    "ascii_lower CHR ''1'' = CHR ''1''"
    by code_simp+
  have "''/m/Show/s1/b.STRM'' \<in> set ks" "Fid al_bolt sample_store ''/m/Show/s1/b.STRM'' = ''6''"
    by (simp_all add: ks fid sample_index_def sample_record_def decode_encode strmSuffix_def dirPrefix_def
        has_prefix_def low)
  moreover have no5: "Fid al_bolt sample_store k \<noteq> ''5''" if "k \<in> set ks" for k
    using that by (auto simp: ks fid sample_index_def sample_record_def decode_encode strmSuffix_def low split: if_splits)
  ultimately have "''6'' \<in> Fid al_bolt sample_store ` set ks" by (metis imageI)
  moreover have "''5'' \<notin> Fid al_bolt sample_store ` set ks"
  proof
    assume "''5'' \<in> Fid al_bolt sample_store ` set ks"
    then show False using no5 by (metis imageE)
  qed
  ultimately show ?thesis using L by (metis set_map)
qed

text \<open>Deleting trees. The deletion always ends; every record it removes is one of the given
  paths or lies below one of them, and every other record stays as it was.\<close>

theorem ClearTree_sound:
  assumes "bucket bk ok kv" "st_db s = Some b" "ok b" "\<And>b. bk_begin bk b"
  shows "\<exists>s'. ClearTree bk s ps = Some s' \<and>
    (\<forall>q. Get bk s' q = Get bk s q \<or> Get bk s' q = None \<and> (\<exists>p \<in> set ps. in_subtree p q))"
  using bucket.clear_tree_sound [OF assms(1-3), of ps] assms(4) by blast

theorem ClearTree_sound_witness:
  "\<exists>s'. ClearTree al_bolt sample_store [''/m/Show''] = Some s' \<and> Get al_bolt s' ''/m'' = Get al_bolt sample_store ''/m''"
  using ClearTree_sound [OF al.bucket_axioms sample_store_simps(2,1) al_bolt_simps(2), of "[''/m/Show'']"]
  by (auto simp: in_subtree_def dirPrefix_def has_prefix_def trim_suffix_def has_suffix_def)

text \<open>C20. How far deleting one tree gets. It removes the whole tree exactly when no stored path
  outside the tree sorts between the directory and one of its descendants: the loop stops at
  the first such path and keeps every descendant after it.\<close>

theorem ClearTree_complete_iff:
  assumes "bucket bk ok kv" "st_db s = Some b" "ok b" "\<And>b. bk_begin bk b" "\<And>b. bk_commit bk b"
  shows "\<exists>s' b'. ClearTree bk s [p] = Some s' \<and> st_db s' = Some b' \<and>
    ((\<forall>q. in_subtree p q \<longrightarrow> bk_get bk b' q = None) \<longleftrightarrow>
     (\<forall>x q. bk_get bk b x \<noteq> None \<and> bk_get bk b q \<noteq> None \<and> in_subtree p q \<and>
           trim_suffix (dirPrefix p) ''/'' \<le> x \<and> x < q \<longrightarrow> in_subtree p x))"
  using bucket.clear_tree_one [OF assms, of p] bucket.clear_complete_iff [OF assms(1,3), of _ p] by metis

theorem ClearTree_complete_iff_witness:
  "\<exists>s' b'. ClearTree al_bolt sample_store [''/m/Z''] = Some s' \<and> st_db s' = Some b' \<and> map_of b' ''/m/Z'' = None"
proof -
  have "in_subtree ''/m/Z'' x" if "map_of sample_index x \<noteq> None" "''/m/Z'' \<le> x" for x
    using that by (auto simp: sample_index_def in_subtree_def dirPrefix_def trim_suffix_def has_suffix_def
        less_char_def split: if_splits)
  then show ?thesis
    using ClearTree_complete_iff [OF al.bucket_axioms sample_store_simps(2,1) al_bolt_simps(2,3), of "''/m/Z''"]
    by (auto simp: in_subtree_def dirPrefix_def trim_suffix_def has_suffix_def)
qed

text \<open>A deletion that stops early: in the sample library the directory \<open>Show (2020)\<close> sorts
  between \<open>Show\<close> and what is below it, because a blank sorts before a slash. Deleting the tree
  of \<open>Show\<close> removes its own record and leaves all three records below it.\<close>

theorem ClearTree_leaves_descendants:
  "map_option (\<lambda>s. map_option (map fst) (st_db s)) (ClearTree al_bolt sample_store [''/m/Show'']) =
   Some (Some [''/m'', ''/m/Show (2020)'', ''/m/Show/a.strm'', ''/m/Show/s1'', ''/m/Show/s1/b.STRM'', ''/m/Z''])"
proof -
  have self: "trim_suffix (dirPrefix ''/m/Show'') ''/'' = ''/m/Show''"
    by (simp add: dirPrefix_def trim_suffix_def has_suffix_def)
  have "map fst (cleared ''/m/Show'' sample_index) =
    [''/m'', ''/m/Show (2020)'', ''/m/Show/a.strm'', ''/m/Show/s1'', ''/m/Show/s1/b.STRM'', ''/m/Z'']"
    by (simp add: cleared_def Let_def self in_subtree_def sample_index_def less_char_def dirPrefix_def has_prefix_def
        trim_suffix_def has_suffix_def)
  then show ?thesis
    using al.clear_tree_one [OF sample_store_simps(2,1) al_bolt_simps(2,3), of "''/m/Show''"] by auto
qed

text \<open>C39. When a listing never ends. Without a cancellation the scan of a directory runs forever exactly when some
  stored path goes through a child of the directory and its next component starts with the byte 0xFF: the
  key that should jump over the child does not lie behind that path. Names of the directory's own
  children, and of anything further down, do no harm.\<close>

theorem Children_diverges_iff:
  assumes "bucket bk ok kv" "st_db s = Some b" "ok b" "bk_begin bk b"
  shows "Children bk s None dir = None \<longleftrightarrow>
    (\<exists>sub t. CHR ''/'' \<notin> set sub \<and> bk_get bk b (dirPrefix dir @ sub @ ''/'' @ CHR 0xFF # t) \<noteq> None)"
  using bucket.children_diverges_iff [OF assms] unfolding deep_ff_def by blast

theorem Children_diverges_iff_witness:
  "Children al_bolt \<lparr>st_db = Some [(''/m/d/'' @ [CHR 0xFF], sample_record ''1'' KindFile)]\<rparr> None ''/m'' = None \<and>
   Children al_bolt \<lparr>st_db = Some [(''/m/'' @ [CHR 0xFF], sample_record ''1'' KindFile)]\<rparr> None ''/m'' \<noteq> None"
proof -
  have p: "dirPrefix ''/m'' = ''/m/''" by (simp add: dirPrefix_def)
  have "CHR ''/'' \<notin> set ''d'' \<and> map_of [(''/m/d/'' @ [CHR 0xFF], sample_record ''1'' KindFile)] (''/m/'' @ ''d'' @ ''/'' @ CHR 0xFF # []) \<noteq> None"
    by simp
  then have "Children al_bolt \<lparr>st_db = Some [(''/m/d/'' @ [CHR 0xFF], sample_record ''1'' KindFile)]\<rparr> None ''/m'' = None"
    by (subst Children_diverges_iff [OF al.bucket_axioms]) (auto simp: p intro: exI [of _ "''d''"])
  moreover have "\<not> (CHR ''/'' \<notin> set sub \<and> ''/m/'' @ sub @ ''/'' @ CHR 0xFF # t = ''/m/'' @ [CHR 0xFF])" for sub t
    by (cases sub) auto
  then have "Children al_bolt \<lparr>st_db = Some [(''/m/'' @ [CHR 0xFF], sample_record ''1'' KindFile)]\<rparr> None ''/m'' \<noteq> None"
    by (subst Children_diverges_iff [OF al.bucket_axioms]) (auto simp: p)
  ultimately show ?thesis by blast
qed

end
