(* ===== verification/Mirror_Model.thy ===== *)
theory Mirror_Model
  imports Go_Text Record_Codec
begin

text \<open>
  The data of package \<open>internal/mirror\<close> (\<open>model.go\<close>) and its pure functions on \<open>.strm\<close> files
  (\<open>strm.go\<close>): the kinds of actions and their phases, the paths of a task and the mapping
  between cloud and local paths, the classification rules, the snapshot of a cloud tree, and
  the link a \<open>.strm\<close> file holds. Chinese literals are given by their code points.
\<close>

section \<open>Actions\<close>

datatype OpKind = OpNormalize | OpMkdir | OpUpload | OpAdopt | OpDownload | OpRetire | OpDrop | OpArchive

fun OpKind_Label :: "OpKind \<Rightarrow> string" where
  "OpKind_Label OpNormalize = utf8 [0x4FEE, 0x6B63] @ '' STRM '' @ utf8 [0x94FE, 0x63A5]"
| "OpKind_Label OpMkdir = utf8 [0x521B, 0x5EFA, 0x4E91, 0x7AEF, 0x76EE, 0x5F55]"
| "OpKind_Label OpUpload = utf8 [0x4E0A, 0x4F20]"
| "OpKind_Label OpAdopt = utf8 [0x63A5, 0x7BA1] @ '' STRM''"
| "OpKind_Label OpDownload = utf8 [0x4E0B, 0x8F7D, 0x5230, 0x672C, 0x5730]"
| "OpKind_Label OpRetire = utf8 [0x79FB, 0x5165, 0x56DE, 0x6536, 0x7AD9]"
| "OpKind_Label OpDrop = utf8 [0x5220, 0x9664, 0x4E91, 0x7AEF, 0x9879]"
| "OpKind_Label OpArchive = utf8 [0x5F52, 0x6863, 0x5230, 0x56DE, 0x6536, 0x7AD9]"

definition OpKind_Danger :: "OpKind \<Rightarrow> bool" where
  "OpKind_Danger k \<longleftrightarrow> k = OpRetire \<or> k = OpDrop \<or> k = OpArchive"

fun OpKind_phase :: "OpKind \<Rightarrow> int" where
  "OpKind_phase OpRetire = 0"
| "OpKind_phase OpDrop = 0"
| "OpKind_phase OpMkdir = 1"
| "OpKind_phase OpUpload = 2"
| "OpKind_phase OpAdopt = 2"
| "OpKind_phase OpDownload = 3"
| "OpKind_phase OpNormalize = 3"
| "OpKind_phase OpArchive = 4"

record Op =
  opKind :: OpKind
  opLabel :: string
  opPath :: string
  opReason :: string
  opSize :: i64
  opIsVideo :: bool
  opFid :: string
  opPickCode :: string
  opReplaceFid :: string

definition newOp :: "OpKind \<Rightarrow> string \<Rightarrow> string \<Rightarrow> Op" where
  "newOp kind path reason =
     \<lparr>opKind = kind, opLabel = OpKind_Label kind, opPath = path, opReason = reason, opSize = 0,
      opIsVideo = False, opFid = [], opPickCode = [], opReplaceFid = []\<rparr>"

lemma newOp_simps [simp]:
  "opKind (newOp k p r) = k" "opLabel (newOp k p r) = OpKind_Label k" "opPath (newOp k p r) = p"
  "opReason (newOp k p r) = r" "opSize (newOp k p r) = 0" "opIsVideo (newOp k p r) = False"
  "opFid (newOp k p r) = []" "opPickCode (newOp k p r) = []" "opReplaceFid (newOp k p r) = []"
  by (simp_all add: newOp_def)

section \<open>Configuration of a task\<close>

record LocalCfg =
  lcToStrm :: bool
  lcToCache :: bool
  lcExcludeDir :: string

record CloudCfg =
  ccToStrm :: bool
  ccDropStale :: bool
  ccArchive :: bool

record Paths =
  paLocalDir :: string
  paCloudDir :: string
  paCloudFid :: string
  paTempFid :: string
  paStrmURL :: string
  paCacheDir :: string

section \<open>Paths\<close>

definition RelToRoot :: "string \<Rightarrow> string \<Rightarrow> char \<Rightarrow> string" where
  "RelToRoot root path sep = trim_prefix (trim_prefix (path_clean path) (path_clean root)) [sep]"

definition CleanCloudPath :: "string \<Rightarrow> string" where
  "CleanCloudPath p = (let q = trim_right (CHR ''/'') p in if q = [] then ''/'' else q)"

definition MapCloudToLocal :: "string \<Rightarrow> string \<Rightarrow> string \<Rightarrow> string" where
  "MapCloudToLocal localRoot cloudRoot cloudPath =
     (let rel = RelToRoot (CleanCloudPath cloudRoot) cloudPath (CHR ''/'')
      in if rel = [] then localRoot else path_join localRoot rel)"

section \<open>Rules\<close>

text \<open>
  The set of video extensions is the list of its elements. \<open>ruLower\<close> stands for Go's Unicode
  tables in \<open>strings.ToLower\<close>: it is only consulted for a string that is not all ASCII.
\<close>

record Rules =
  ruVideoExts :: "string list"
  ruUploadExclude :: "string list"
  ruLower :: "string \<Rightarrow> string"

definition NewRules :: "(string \<Rightarrow> string) \<Rightarrow> string list \<Rightarrow> string list \<Rightarrow> Rules" where
  "NewRules ul videoExts uploadExclude =
     \<lparr>ruVideoExts = map (to_lower ul) videoExts, ruUploadExclude = map (to_lower ul) uploadExclude,
      ruLower = ul\<rparr>"

definition IsVideoExt :: "Rules \<Rightarrow> string \<Rightarrow> bool" where
  "IsVideoExt r path \<longleftrightarrow> to_lower (ruLower r) (path_ext path) \<in> set (ruVideoExts r)"

definition videoThreshold :: i64 where "videoThreshold = 10 * 1024 * 1024"

definition IsVideo :: "Rules \<Rightarrow> string \<Rightarrow> i64 \<Rightarrow> bool" where
  "IsVideo r path sz \<longleftrightarrow> IsVideoExt r path \<and> videoThreshold \<le>s sz"

definition Excluded :: "Rules \<Rightarrow> string \<Rightarrow> bool" where
  "Excluded r name \<longleftrightarrow>
     (let lower = to_lower (ruLower r) name in list_ex (\<lambda>p. glob_match p lower) (ruUploadExclude r))"

section \<open>The snapshot of a cloud tree\<close>

record CloudItem =
  ciPath :: string
  ciFid :: string
  ciPickCode :: string
  ciSize :: i64
  ciIsDir :: bool
  ciIsVideo :: bool

record CloudTree =
  ctRootPath :: string
  ctRootFid :: string
  ctItems :: "CloudItem list"

definition depth :: "string \<Rightarrow> nat" where
  "depth cloudPath =
     (let p = trim_byte (CHR ''/'') (CleanCloudPath cloudPath)
      in if p = [] then 0 else count_list p (CHR ''/'') + 1)"

definition TopDirs :: "CloudTree \<Rightarrow> CloudItem list" where
  "TopDirs t = filter (\<lambda>it. ciIsDir it \<and> depth (ciPath it) = depth (ctRootPath t) + 1) (ctItems t)"

definition FileItems :: "CloudTree \<Rightarrow> CloudItem list" where
  "FileItems t = filter (\<lambda>it. \<not> ciIsDir it) (ctItems t)"

section \<open>The state of a local path\<close>

record LocalState =
  lsExists :: bool
  lsIsDir :: bool
  lsSize :: i64

definition missing_state :: LocalState where
  "missing_state = \<lparr>lsExists = False, lsIsDir = False, lsSize = 0\<rparr>"

section \<open>.strm files (strm.go)\<close>

definition IsStrmPath :: "string \<Rightarrow> bool" where
  "IsStrmPath path = equal_fold (path_ext path) ''.strm''"

definition VideoToStrmPath :: "string \<Rightarrow> string" where
  "VideoToStrmPath path = trim_suffix path (path_ext path) @ ''.strm''"

definition StrmContent :: "string \<Rightarrow> string \<Rightarrow> string" where
  "StrmContent strmURL pickCode = trim_right (CHR ''/'') strmURL @ ''/download?pickcode='' @ pickCode"

definition trimBOM :: "string \<Rightarrow> string" where
  "trimBOM s = trim_space (trim_prefix s [CHR 0xEF, CHR 0xBB, CHR 0xBF])"

text \<open>The result of \<open>os.ReadFile\<close> is an argument: \<open>None\<close> is a read error.\<close>

definition ReadStrmFile :: "string option \<Rightarrow> string" where
  "ReadStrmFile data = (case data of None \<Rightarrow> [] | Some d \<Rightarrow> trimBOM d)"

definition ParsePickCode :: "(string \<Rightarrow> bool) \<Rightarrow> string \<Rightarrow> string" where
  "ParsePickCode auth_ok content =
     (case url_raw_query auth_ok content of None \<Rightarrow> [] | Some q \<Rightarrow> query_get q ''pickcode'')"

definition ParseStrmFile :: "(string \<Rightarrow> bool) \<Rightarrow> string option \<Rightarrow> string" where
  "ParseStrmFile auth_ok data = ParsePickCode auth_ok (ReadStrmFile data)"

definition StrmNeedsFix :: "string \<Rightarrow> string \<Rightarrow> string \<Rightarrow> bool" where
  "StrmNeedsFix strmURL pickCode content \<longleftrightarrow> pickCode \<noteq> [] \<and> content \<noteq> StrmContent strmURL pickCode"

end
