(* ===== verification/Mirror_Plan.thy ===== *)
theory Mirror_Plan
  imports Mirror_Model Store_Index "HOL-Library.AList"
begin

text \<open>
  The planner of \<open>internal/mirror/plan.go\<close>: it compares the local file system with the index
  (\<open>PlanLocal\<close>, \<open>PlanFile\<close>) or a cloud snapshot with both (\<open>PlanCloud\<close>) and returns the list of
  actions. The file system is the record \<open>FS\<close> of the answers the operating system gives, and the
  index is the record \<open>Index\<close> of the two operations of \<open>store.Index\<close> the planner calls. The
  recursion over directories takes fuel: a directory tree of height \<open>n\<close> needs \<open>n + 1\<close>.
\<close>

section \<open>The file system and the index, as the planner reads them\<close>

datatype fs_error = FsNotExist | FsOther

record DirEntry =
  deName :: string
  deIsDir :: bool
  deInfo :: "i64 option"

record FS =
  fsReadDir :: "string \<Rightarrow> fs_error + DirEntry list"
  fsReadFile :: "string \<Rightarrow> string option"
  fsStat :: "string \<Rightarrow> fs_error + bool \<times> i64"

record Index =
  ixGet :: "string \<Rightarrow> Record option"
  ixChildren :: "ctx \<Rightarrow> string \<Rightarrow> (Child list \<times> ctx) option"

text \<open>The index of the program: a \<open>Store\<close> over a bucket.\<close>

definition store_index :: "'b bolt \<Rightarrow> 'b Store \<Rightarrow> Index" where
  "store_index bk s = \<lparr>ixGet = Get bk s, ixChildren = Children bk s\<rparr>"

definition get_rec :: "Index \<Rightarrow> string \<Rightarrow> Record" where
  "get_rec ix path = (case ixGet ix path of None \<Rightarrow> zero_Record | Some r \<Rightarrow> r)"

section \<open>The reasons of actions\<close>

definition reason_stale_copy :: string where "reason_stale_copy =
  utf8 [0x4E91, 0x7AEF, 0x540C, 0x540D, 0x5197, 0x4F59, 0x526F, 0x672C]"
definition reason_cloud_new :: string where "reason_cloud_new =
  utf8 [0x4E91, 0x7AEF, 0x65B0, 0x589E, 0xFF0C, 0x672C, 0x5730, 0x7F3A, 0x5931]"
definition reason_archive :: string where "reason_archive =
  utf8 [0x540C, 0x6B65, 0x5B8C, 0x6210, 0xFF0C, 0x5F52, 0x6863, 0x5230, 0x56DE, 0x6536, 0x76EE, 0x5F55]"
definition reason_gone :: string where "reason_gone =
  utf8 [0x672C, 0x5730, 0x5DF2, 0x4E0D, 0x5B58, 0x5728, 0xFF0C, 0x6E05, 0x7406, 0x4E91, 0x7AEF]"
definition reason_new_dir :: string where "reason_new_dir =
  utf8 [0x65B0, 0x589E, 0x76EE, 0x5F55]"
definition reason_dir_over_file :: string where "reason_dir_over_file =
  utf8 [0x672C, 0x5730, 0x4E3A, 0x76EE, 0x5F55, 0x3001, 0x4E91, 0x7AEF, 0x4E3A, 0x540C, 0x540D, 0x6587, 0x4EF6, 0xFF0C, 0x4EE5, 0x672C, 0x5730, 0x4E3A, 0x51C6]"
definition reason_dir_again :: string where "reason_dir_again =
  utf8 [0x76EE, 0x5F55, 0x91CD, 0x5EFA]"
definition reason_strm_kind :: string where "reason_strm_kind =
  utf8 [0x672C, 0x5730, 0x4E3A] @ '' STRM'' @ utf8 [0x3001, 0x4E91, 0x7AEF, 0x7C7B, 0x578B, 0x4E0D, 0x7B26, 0xFF0C, 0x4EE5, 0x672C, 0x5730, 0x4E3A, 0x51C6]"
definition reason_strm_broken :: string where "reason_strm_broken =
  ''STRM '' @ utf8 [0x5185, 0x5BB9, 0x5931, 0x6548, 0xFF08, 0x65E0] @ '' pickcode'' @ utf8 [0xFF09]"
definition reason_strm_moved :: string where "reason_strm_moved =
  ''STRM '' @ utf8 [0x6307, 0x5411, 0x5DF2, 0x53D8, 0x66F4]"
definition reason_adopt_new :: string where "reason_adopt_new =
  utf8 [0x63A5, 0x7BA1, 0x65B0, 0x7684, 0x4E91, 0x7AEF, 0x89C6, 0x9891]"
definition reason_strm_format :: string where "reason_strm_format =
  ''STRM '' @ utf8 [0x76F4, 0x94FE, 0x683C, 0x5F0F, 0x9700, 0x4FEE, 0x6B63]"
definition reason_strm_record_kind :: string where "reason_strm_record_kind =
  utf8 [0x540C, 0x540D] @ '' STRM '' @ utf8 [0x8BB0, 0x5F55, 0x7C7B, 0x578B, 0x4E0D, 0x7B26, 0xFF0C, 0x4EE5, 0x672C, 0x5730, 0x4E3A, 0x51C6]"
definition reason_video_again :: string where "reason_video_again =
  utf8 [0x540C, 0x540D, 0x89C6, 0x9891, 0x5DF2, 0x5B58, 0x5728, 0xFF0C, 0x8986, 0x76D6, 0x91CD, 0x4F20]"
definition reason_video_new :: string where "reason_video_new =
  utf8 [0x65B0, 0x589E, 0x89C6, 0x9891]"
definition reason_file_kind :: string where "reason_file_kind =
  utf8 [0x672C, 0x5730, 0x4E3A, 0x6587, 0x4EF6, 0x3001, 0x4E91, 0x7AEF, 0x7C7B, 0x578B, 0x4E0D, 0x7B26, 0xFF0C, 0x4EE5, 0x672C, 0x5730, 0x4E3A, 0x51C6]"
definition reason_upload_again :: string where "reason_upload_again =
  utf8 [0x91CD, 0x65B0, 0x4E0A, 0x4F20]"
definition reason_file_new :: string where "reason_file_new =
  utf8 [0x65B0, 0x589E, 0x6587, 0x4EF6]"
definition reason_changed :: string where "reason_changed =
  utf8 [0x6587, 0x4EF6, 0x5185, 0x5BB9, 0x5DF2, 0x53D8, 0xFF0C, 0x5220, 0x9664, 0x4E91, 0x7AEF, 0x65E7, 0x526F, 0x672C]"
definition reason_adopt :: string where "reason_adopt =
  utf8 [0x63A5, 0x7BA1, 0x4E91, 0x7AEF, 0x89C6, 0x9891]"

section \<open>The planner\<close>

record planner =
  plFS :: FS
  plIdx :: Index
  plRules :: Rules
  plCfg :: LocalCfg
  plPaths :: Paths
  plAuth :: "string \<Rightarrow> bool"

text \<open>What changes while a plan is made: the context and the first fatal error.\<close>

record plan_state =
  psCtx :: ctx
  psErr :: "fs_error option"

type_synonym entries = "(string \<times> DirEntry) list"

definition readLocalDir :: "FS \<Rightarrow> string \<Rightarrow> Rules \<Rightarrow> string \<Rightarrow> fs_error + entries" where
  "readLocalDir fs path rules excludeDir =
     (case fsReadDir fs path of
        Inl e \<Rightarrow> Inl e
      | Inr es \<Rightarrow>
          Inr (fold (\<lambda>e m.
                 if excludeDir \<noteq> [] \<and> path_join path (deName e) = excludeDir then m
                 else if Excluded rules (deName e) then m
                 else AList.update (deName e) e m) es []))"

definition stateOf :: "DirEntry option \<Rightarrow> LocalState option" where
  "stateOf e =
     (case e of
        None \<Rightarrow> Some missing_state
      | Some d \<Rightarrow>
          if deIsDir d then Some \<lparr>lsExists = True, lsIsDir = True, lsSize = 0\<rparr>
          else map_option (\<lambda>sz. \<lparr>lsExists = True, lsIsDir = False, lsSize = sz\<rparr>) (deInfo d))"

definition StateFromInfo :: "bool \<times> i64 \<Rightarrow> LocalState" where
  "StateFromInfo info =
     (if fst info then \<lparr>lsExists = True, lsIsDir = True, lsSize = 0\<rparr>
      else \<lparr>lsExists = True, lsIsDir = False, lsSize = snd info\<rparr>)"

definition clearOp :: "string \<Rightarrow> Record \<Rightarrow> string \<Rightarrow> Op" where
  "clearOp path rec reason =
     (if rKind rec = KindStrm then (newOp OpRetire path reason)\<lparr>opFid := rFid rec\<rparr>
      else (newOp OpDrop path reason)\<lparr>opFid := rFid rec\<rparr>)"

definition adoptOps :: "string \<Rightarrow> string \<Rightarrow> Op list" where
  "adoptOps path pickCode =
     (if pickCode = [] then [] else [(newOp OpAdopt path reason_adopt)\<lparr>opPickCode := pickCode\<rparr>])"

definition coveredByLocal :: "planner \<Rightarrow> string \<Rightarrow> entries \<Rightarrow> bool" where
  "coveredByLocal p idxName entries =
     (if \<not> lcToStrm (plCfg p) \<or> \<not> IsStrmPath idxName then False
      else let stem = trim_suffix idxName (path_ext idxName) in
        list_ex (\<lambda>(name, e). \<not> deIsDir e \<and> IsVideoExt (plRules p) name \<and>
                   trim_suffix name (path_ext name) = stem) entries)"

definition decideMissing :: "string \<Rightarrow> Record \<Rightarrow> Op list" where
  "decideMissing path rec = (if rFid rec = [] then [] else [clearOp path rec reason_gone])"

definition decidePlain :: "string \<Rightarrow> Record \<Rightarrow> LocalState \<Rightarrow> Op list" where
  "decidePlain path rec st =
     (if rFid rec \<noteq> [] \<and> rKind rec \<noteq> KindFile then
        [clearOp path rec reason_file_kind, (newOp OpUpload path reason_upload_again)\<lparr>opSize := lsSize st\<rparr>]
      else if rFid rec = [] then [(newOp OpUpload path reason_file_new)\<lparr>opSize := lsSize st\<rparr>]
      else if rSize rec = lsSize st then []
      else [(newOp OpDrop path reason_changed)\<lparr>opFid := rFid rec\<rparr>,
            (newOp OpUpload path reason_upload_again)\<lparr>opSize := lsSize st\<rparr>])"

definition decideStrm :: "planner \<Rightarrow> string \<Rightarrow> Record \<Rightarrow> Op list" where
  "decideStrm p path rec =
     (let content = ReadStrmFile (fsReadFile (plFS p) path); pc = ParsePickCode (plAuth p) content in
      if rFid rec \<noteq> [] \<and> rKind rec \<noteq> KindStrm then clearOp path rec reason_strm_kind # adoptOps path pc
      else if rFid rec = [] then adoptOps path pc
      else if pc = [] then [(newOp OpRetire path reason_strm_broken)\<lparr>opFid := rFid rec\<rparr>]
      else if pc \<noteq> rPickCode rec then
        [(newOp OpRetire path reason_strm_moved)\<lparr>opFid := rFid rec\<rparr>,
         (newOp OpAdopt path reason_adopt_new)\<lparr>opPickCode := pc\<rparr>]
      else if StrmNeedsFix (paStrmURL (plPaths p)) pc content then [newOp OpNormalize path reason_strm_format]
      else [])"

definition decideVideo :: "planner \<Rightarrow> string \<Rightarrow> Record \<Rightarrow> LocalState \<Rightarrow> Op list" where
  "decideVideo p path rec st =
     (let key = VideoToStrmPath path; found = ixGet (plIdx p) key;
          wrong = (case found of Some r \<Rightarrow> rKind r \<noteq> KindStrm | None \<Rightarrow> False);
          ops = (case found of Some r \<Rightarrow> if wrong then [clearOp key r reason_strm_record_kind] else [] | None \<Rightarrow> []);
          strm = (if wrong then None else found)
      in if \<not> IsVideo (plRules p) path (lsSize st) then
           (if strm \<noteq> None then ops else ops @ decidePlain path rec st)
         else
           let op = (newOp OpUpload path reason_video_new)\<lparr>opSize := lsSize st, opIsVideo := True\<rparr> in
           ops @ [case strm of
                    Some r \<Rightarrow>
                      if rFid r \<noteq> [] then op\<lparr>opReplaceFid := rFid r, opReason := reason_video_again\<rparr> else op
                  | None \<Rightarrow> op])"

definition decideFile :: "planner \<Rightarrow> string \<Rightarrow> Record \<Rightarrow> LocalState \<Rightarrow> Op list" where
  "decideFile p path rec st =
     (if IsStrmPath path then decideStrm p path rec
      else if lcToStrm (plCfg p) \<and> IsVideoExt (plRules p) path then decideVideo p path rec st
      else decidePlain path rec st)"

text \<open>The functions that can recurse into a directory take the recursive call as an argument.\<close>

type_synonym dir_plan = "string \<Rightarrow> plan_state \<Rightarrow> (Op list \<times> plan_state) option"

definition decideDir :: "dir_plan \<Rightarrow> string \<Rightarrow> Record \<Rightarrow> plan_state \<Rightarrow> (Op list \<times> plan_state) option" where
  "decideDir walk path rec ps =
     (let ops = (if rFid rec = [] then [newOp OpMkdir path reason_new_dir]
                 else if rKind rec \<noteq> KindDir then
                   [clearOp path rec reason_dir_over_file, newOp OpMkdir path reason_dir_again]
                 else [])
      in map_option (\<lambda>(more, ps'). (ops @ more, ps')) (walk path ps))"

definition decide :: "planner \<Rightarrow> dir_plan \<Rightarrow> string \<Rightarrow> Record \<Rightarrow> LocalState \<Rightarrow> plan_state \<Rightarrow>
    (Op list \<times> plan_state) option" where
  "decide p walk path rec st ps =
     (if \<not> lsExists st then Some (decideMissing path rec, ps)
      else if lsIsDir st then decideDir walk path rec ps
      else Some (decideFile p path rec st, ps))"

text \<open>The two loops of \<open>planDir\<close>: over the records of the index, then over what is left locally.\<close>

fun plan_known :: "planner \<Rightarrow> dir_plan \<Rightarrow> string \<Rightarrow> Child list \<Rightarrow> entries \<Rightarrow> plan_state \<Rightarrow>
    (Op list \<times> entries \<times> plan_state) option" where
  "plan_known p walk dir [] entries ps = Some ([], entries, ps)"
| "plan_known p walk dir (ch # chs) entries ps =
     (let full = path_join dir (cName ch); e = map_of entries (cName ch) in
      if e = None \<and> coveredByLocal p (cName ch) entries then plan_known p walk dir chs entries ps
      else
        let entries' = AList.delete (cName ch) entries in
        case stateOf e of
          None \<Rightarrow> plan_known p walk dir chs entries' ps
        | Some st \<Rightarrow>
            (case decide p walk full (cRec ch) st ps of
               None \<Rightarrow> None
             | Some (ops, ps') \<Rightarrow>
                 map_option (\<lambda>(more, r). (ops @ more, r)) (plan_known p walk dir chs entries' ps')))"

fun plan_new :: "planner \<Rightarrow> dir_plan \<Rightarrow> string \<Rightarrow> string list \<Rightarrow> entries \<Rightarrow> plan_state \<Rightarrow>
    (Op list \<times> plan_state) option" where
  "plan_new p walk dir [] entries ps = Some ([], ps)"
| "plan_new p walk dir (name # names) entries ps =
     (case stateOf (map_of entries name) of
        None \<Rightarrow> plan_new p walk dir names entries ps
      | Some st \<Rightarrow>
          (case decide p walk (path_join dir name) zero_Record st ps of
             None \<Rightarrow> None
           | Some (ops, ps') \<Rightarrow>
               map_option (\<lambda>(more, r). (ops @ more, r)) (plan_new p walk dir names entries ps')))"

fun planDir :: "planner \<Rightarrow> nat \<Rightarrow> dir_plan" where
  "planDir p 0 dir ps = None"
| "planDir p (Suc n) dir ps =
     (if psErr ps \<noteq> None then Some ([], ps)
      else case ctx_check (psCtx ps) of (stop, c) \<Rightarrow>
        if stop then Some ([], ps\<lparr>psCtx := c\<rparr>)
        else case readLocalDir (plFS p) dir (plRules p) (lcExcludeDir (plCfg p)) of
          Inl e \<Rightarrow> Some ([], if e = FsNotExist then ps\<lparr>psCtx := c\<rparr> else ps\<lparr>psCtx := c, psErr := Some e\<rparr>)
        | Inr entries \<Rightarrow>
            (case ixChildren (plIdx p) c dir of
               None \<Rightarrow> None
             | Some (children, c') \<Rightarrow>
                 (case plan_known p (planDir p n) dir children entries (ps\<lparr>psCtx := c'\<rparr>) of
                    None \<Rightarrow> None
                  | Some (ops, left, ps') \<Rightarrow>
                      map_option (\<lambda>(more, r). (ops @ more, r))
                        (plan_new p (planDir p n) dir (sort (map fst left)) left ps'))))"

text \<open>\<open>PlanLocal\<close> returns the plan and the first fatal error.\<close>

definition PlanLocal :: "planner \<Rightarrow> nat \<Rightarrow> ctx \<Rightarrow> string \<Rightarrow> (Op list \<times> fs_error option) option" where
  "PlanLocal p n c root =
     map_option (\<lambda>(ops, ps). (ops, psErr ps)) (planDir p n root \<lparr>psCtx = c, psErr = None\<rparr>)"

text \<open>\<open>PlanFile\<close> for one path; a directory is walked like any other.\<close>

definition PlanFile :: "planner \<Rightarrow> nat \<Rightarrow> ctx \<Rightarrow> string \<Rightarrow> (fs_error + Op list) option" where
  "PlanFile p n c path =
     (let go = (\<lambda>st. map_option (\<lambda>(ops, ps). Inr ops)
                  (decide p (planDir p n) path (get_rec (plIdx p) path) st \<lparr>psCtx = c, psErr = None\<rparr>))
      in case fsStat (plFS p) path of
           Inl e \<Rightarrow> if e = FsNotExist then go missing_state else Some (Inl e)
         | Inr info \<Rightarrow> go (StateFromInfo info))"

section \<open>The plan for a cloud snapshot\<close>

definition plan_cloud_item :: "FS \<Rightarrow> Index \<Rightarrow> Rules \<Rightarrow> Paths \<Rightarrow> CloudCfg \<Rightarrow> CloudItem \<Rightarrow> Op list" where
  "plan_cloud_item fs ix rules paths cfg it =
     (let localPath = MapCloudToLocal (paLocalDir paths) (paCloudDir paths) (ciPath it);
          genStrm = ((ciIsVideo it \<or> IsVideoExt rules (ciPath it)) \<and> ccToStrm cfg);
          savePath = (if genStrm then VideoToStrmPath localPath else localPath);
          found = ixGet ix savePath
      in case fsStat fs savePath of
           Inr _ \<Rightarrow>
             (case found of
                Some rec \<Rightarrow>
                  if ccDropStale cfg \<and> rFid rec \<noteq> ciFid it
                  then [(newOp OpDrop savePath reason_stale_copy)\<lparr>opFid := ciFid it\<rparr>] else []
              | None \<Rightarrow> [])
         | Inl _ \<Rightarrow>
             if found \<noteq> None then []
             else [(newOp OpDownload savePath reason_cloud_new)\<lparr>opFid := ciFid it, opPickCode := ciPickCode it,
                     opSize := ciSize it, opIsVideo := genStrm\<rparr>])"

fun plan_cloud_items :: "FS \<Rightarrow> Index \<Rightarrow> Rules \<Rightarrow> Paths \<Rightarrow> CloudCfg \<Rightarrow> ctx \<Rightarrow> CloudItem list \<Rightarrow>
    store_error + Op list" where
  "plan_cloud_items fs ix rules paths cfg c [] = Inr []"
| "plan_cloud_items fs ix rules paths cfg c (it # its) =
     (case ctx_check c of (stop, c') \<Rightarrow>
        if stop then Inl ECancelled
        else map_sum id (\<lambda>ops. plan_cloud_item fs ix rules paths cfg it @ ops)
               (plan_cloud_items fs ix rules paths cfg c' its))"

definition PlanCloud :: "FS \<Rightarrow> Index \<Rightarrow> Rules \<Rightarrow> Paths \<Rightarrow> CloudCfg \<Rightarrow> ctx \<Rightarrow> CloudTree \<Rightarrow>
    store_error + Op list" where
  "PlanCloud fs ix rules paths cfg c tree =
     map_sum id
       (\<lambda>ops. if ccArchive cfg
              then ops @ map (\<lambda>d. (newOp OpArchive (ciPath d) reason_archive)\<lparr>opFid := ciFid d\<rparr>) (TopDirs tree)
              else ops)
       (plan_cloud_items fs ix rules paths cfg c (FileItems tree))"

end
