(* ===== verification/Plan_Facts.thy ===== *)
theory Plan_Facts
  imports Mirror_Plan
begin

text \<open>
  Facts on the planner: it ends when the directory tree is finite and more fuel changes
  nothing, what every action of a plan has in common, and which directories need no action.
\<close>

section \<open>Termination and fuel\<close>

lemma readLocalDir_entries:
  assumes "readLocalDir fs dir rules excl = Inr entries" "(name, e) \<in> set entries"
  shows "\<exists>es. fsReadDir fs dir = Inr es \<and> e \<in> set es \<and> deName e = name"
proof -
  let ?f = "\<lambda>e m. if excl \<noteq> [] \<and> path_join dir (deName e) = excl then m
                  else if Excluded rules (deName e) then m else AList.update (deName e) e m"
  have upd: "set (AList.update k v m) \<subseteq> insert (k, v) (set m)" for k v and m :: entries
    by (induction m) auto
  have "set (fold ?f es m) \<subseteq> set m \<union> {(deName e, e) |e. e \<in> set es}" for es :: "DirEntry list" and m
  proof (induction es arbitrary: m)
    case (Cons d ds)
    have "set (fold ?f (d # ds) m) \<subseteq> set (?f d m) \<union> {(deName e, e) |e. e \<in> set ds}"
      using Cons.IH [of "?f d m"] by simp
    also have "\<dots> \<subseteq> insert (deName d, d) (set m) \<union> {(deName e, e) |e. e \<in> set ds}"
      using upd [of "deName d" d m] by (intro Un_mono) auto
    also have "\<dots> \<subseteq> set m \<union> {(deName e, e) |e. e \<in> set (d # ds)}" by auto
    finally show ?case .
  qed simp
  moreover obtain es where "fsReadDir fs dir = Inr es" "entries = fold ?f es []"
    using assms(1) by (auto simp: readLocalDir_def split: sum.splits)
  ultimately show ?thesis using assms(2) by fastforce
qed

lemma stateOf_dir: "stateOf e = Some st \<Longrightarrow> lsIsDir st \<Longrightarrow> \<exists>d. e = Some d \<and> deIsDir d"
  by (auto simp: stateOf_def missing_state_def split: option.splits if_splits)

lemma decide_Some:
  assumes "lsExists st \<Longrightarrow> lsIsDir st \<Longrightarrow> walk path ps \<noteq> None"
  shows "decide p walk path rec st ps \<noteq> None"
  using assms by (auto simp: decide_def decideDir_def Let_def)

lemma plan_known_Some:
  assumes "\<And>name e ps. (name, e) \<in> set entries \<Longrightarrow> deIsDir e \<Longrightarrow> walk (path_join dir name) ps \<noteq> None"
  shows "plan_known p walk dir chs entries ps \<noteq> None"
  using assms
proof (induction chs arbitrary: entries ps)
  case (Cons ch chs)
  have sub: "set (AList.delete k entries) \<subseteq> set entries" for k
    by (auto simp: AList.delete_eq)
  have IH1: "plan_known p walk dir chs entries ps \<noteq> None" for ps using Cons by blast
  have IH2: "plan_known p walk dir chs (AList.delete k entries) ps \<noteq> None" for k ps
    using Cons.IH [of "AList.delete k entries"] Cons.prems sub by blast
  have dec: "decide p walk (path_join dir (cName ch)) (cRec ch) st ps \<noteq> None"
    if st: "stateOf (map_of entries (cName ch)) = Some st" for st ps
  proof (rule decide_Some)
    assume "lsExists st" "lsIsDir st"
    then obtain e where "map_of entries (cName ch) = Some e" "deIsDir e"
      using stateOf_dir [OF st] by auto
    then show "walk (path_join dir (cName ch)) ps \<noteq> None" using Cons.prems by (meson map_of_SomeD)
  qed
  show ?case
  proof (cases "stateOf (map_of entries (cName ch))")
    case None
    then show ?thesis using IH1 IH2 by (simp add: Let_def)
  next
    case (Some st)
    obtain ops ps' where d: "decide p walk (path_join dir (cName ch)) (cRec ch) st ps = Some (ops, ps')"
      using dec [OF Some, of ps] by auto
    show ?thesis
    proof (cases "map_of entries (cName ch) = None \<and> coveredByLocal p (cName ch) entries")
      case True
      then show ?thesis using IH1 by simp
    next
      case False
      then show ?thesis using IH2 [of "cName ch" ps'] Some d by (auto simp: Let_def)
    qed
  qed
qed simp

lemma plan_new_Some:
  assumes "\<And>name e ps. (name, e) \<in> set entries \<Longrightarrow> deIsDir e \<Longrightarrow> walk (path_join dir name) ps \<noteq> None"
  shows "plan_new p walk dir names entries ps \<noteq> None"
  using assms
proof (induction names arbitrary: ps)
  case (Cons name names)
  have dec: "decide p walk (path_join dir name) zero_Record st ps \<noteq> None"
    if st: "stateOf (map_of entries name) = Some st" for st ps
  proof (rule decide_Some)
    assume "lsExists st" "lsIsDir st"
    then obtain e where "map_of entries name = Some e" "deIsDir e"
      using stateOf_dir [OF st] by auto
    then show "walk (path_join dir name) ps \<noteq> None" using Cons.prems by (meson map_of_SomeD)
  qed
  show ?case
  proof (cases "stateOf (map_of entries name)")
    case None
    then show ?thesis using Cons by simp
  next
    case (Some st)
    obtain ops ps' where d: "decide p walk (path_join dir name) zero_Record st ps = Some (ops, ps')"
      using dec [OF Some, of ps] by auto
    have "plan_new p walk dir names entries ps' \<noteq> None" using Cons by blast
    then show ?thesis using Some d by auto
  qed
qed simp

lemma plan_known_left:
  "plan_known p walk dir chs entries ps = Some (ops, left, ps') \<Longrightarrow> set left \<subseteq> set entries"
proof (induction chs arbitrary: entries ps ops ps')
  case (Cons ch chs)
  have sub: "set (AList.delete k entries) \<subseteq> set entries" for k by (auto simp: AList.delete_eq)
  show ?case using Cons.prems Cons.IH sub
    by (fastforce simp: Let_def split: if_splits option.splits)
qed simp

definition ranked :: "FS \<Rightarrow> (string \<Rightarrow> nat) \<Rightarrow> bool" where
  "ranked fs rank \<longleftrightarrow>
     (\<forall>dir es e. fsReadDir fs dir = Inr es \<and> e \<in> set es \<and> deIsDir e \<longrightarrow>
        rank (path_join dir (deName e)) < rank dir)"

lemma planDir_Some:
  assumes "ranked (plFS p) rank" "\<And>c dir. ixChildren (plIdx p) c dir \<noteq> None"
  shows "rank dir < n \<Longrightarrow> planDir p n dir ps \<noteq> None"
proof (induction n arbitrary: dir ps)
  case (Suc n)
  have walk: "planDir p n (path_join dir name) ps \<noteq> None"
    if rd: "readLocalDir (plFS p) dir (plRules p) (lcExcludeDir (plCfg p)) = Inr entries"
      "(name, e) \<in> set entries" "deIsDir e" for entries name e ps
  proof -
    obtain es where "fsReadDir (plFS p) dir = Inr es" "e \<in> set es" "deName e = name"
      using readLocalDir_entries [OF rd(1,2)] by blast
    then have "rank (path_join dir name) < rank dir" using assms(1) rd(3) by (auto simp: ranked_def)
    then show ?thesis using Suc by simp
  qed
  show ?case
  proof (cases "psErr ps = None \<and> \<not> fst (ctx_check (psCtx ps))")
    case True
    obtain c where c: "ctx_check (psCtx ps) = (False, c)" using True by (cases "ctx_check (psCtx ps)") auto
    show ?thesis
    proof (cases "readLocalDir (plFS p) dir (plRules p) (lcExcludeDir (plCfg p))")
      case (Inr entries)
      obtain chs c' where ch: "ixChildren (plIdx p) c dir = Some (chs, c')" using assms(2) [of c dir] by auto
      obtain ops left ps' where k: "plan_known p (planDir p n) dir chs entries (ps\<lparr>psCtx := c'\<rparr>) = Some (ops, left, ps')"
        using plan_known_Some [of entries "planDir p n" dir] walk [OF Inr] by (metis not_Some_eq prod_cases3)
      have "plan_new p (planDir p n) dir (sort (map fst left)) left ps' \<noteq> None"
        using plan_new_Some [of left "planDir p n" dir] walk [OF Inr] plan_known_left [OF k] by blast
      then show ?thesis using True c Inr ch k by auto
    qed (use True c in simp)
  qed (cases "ctx_check (psCtx ps)"; auto)
qed simp

section \<open>What the actions of a plan have in common\<close>

text \<open>
  A property of actions that all branches of the decision establish holds of a whole plan. \<open>L\<close> relates a path
  to the record that is decided on there, \<open>D\<close> holds of the directories that are walked.
\<close>

definition branches :: "planner \<Rightarrow> (string \<Rightarrow> Record \<Rightarrow> bool) \<Rightarrow> (Op \<Rightarrow> bool) \<Rightarrow> bool" where
  "branches p L Q \<longleftrightarrow>
     (\<forall>path rec reason. L path rec \<and> rFid rec \<noteq> [] \<longrightarrow> Q (clearOp path rec reason)) \<and>
     (\<forall>path reason. Q (newOp OpMkdir path reason)) \<and>
     (\<forall>path rec st. L path rec \<longrightarrow> (\<forall>op \<in> set (decideFile p path rec st). Q op))"

definition walks :: "(string \<Rightarrow> bool) \<Rightarrow> (Op \<Rightarrow> bool) \<Rightarrow> dir_plan \<Rightarrow> bool" where
  "walks D Q walk \<longleftrightarrow> (\<forall>path ps ops ps'. D path \<longrightarrow> walk path ps = Some (ops, ps') \<longrightarrow> (\<forall>op \<in> set ops. Q op))"

lemma decide_branches:
  assumes "branches p L Q" "walks D Q walk" "D path" "L path rec" "decide p walk path rec st ps = Some (ops, ps')"
  shows "\<forall>op \<in> set ops. Q op"
proof -
  consider "\<not> lsExists st" | "lsExists st" "lsIsDir st" | "lsExists st" "\<not> lsIsDir st" by blast
  then show ?thesis
  proof cases
    case 1
    then show ?thesis using assms(1,4,5) by (auto simp: decide_def decideMissing_def branches_def split: if_splits)
  next
    case 2
    then obtain more where m: "walk path ps = Some (more, ps')"
      "ops = (if rFid rec = [] then [newOp OpMkdir path reason_new_dir]
              else if rKind rec \<noteq> KindDir then
                [clearOp path rec reason_dir_over_file, newOp OpMkdir path reason_dir_again] else []) @ more"
      using assms(5) by (auto simp: decide_def decideDir_def Let_def)
    then show ?thesis using assms(1-4) unfolding branches_def walks_def by auto
  next
    case 3
    then show ?thesis using assms(1,4,5) by (auto simp: decide_def branches_def)
  qed
qed

lemma plan_known_branches:
  assumes "branches p L Q" "walks D Q walk" "\<And>name. D (path_join dir name)"
  shows "plan_known p walk dir chs entries ps = Some (ops, left, ps') \<Longrightarrow>
    \<forall>ch \<in> set chs. L (path_join dir (cName ch)) (cRec ch) \<Longrightarrow> \<forall>op \<in> set ops. Q op"
proof (induction chs arbitrary: entries ps ops)
  case (Cons ch chs)
  let ?e = "map_of entries (cName ch)" and ?es = "AList.delete (cName ch) entries"
  consider (skip) es where "plan_known p walk dir chs es ps = Some (ops, left, ps')"
    | (item) st o1 ps1 o2 where "decide p walk (path_join dir (cName ch)) (cRec ch) st ps = Some (o1, ps1)"
      "plan_known p walk dir chs ?es ps1 = Some (o2, left, ps')" "ops = o1 @ o2"
    using Cons.prems(1) by (auto simp: Let_def split: if_splits option.splits)
  then show ?case
  proof cases
    case skip
    then show ?thesis using Cons by auto
  next
    case item
    have "\<forall>op \<in> set o1. Q op"
      using decide_branches [OF assms(1,2) assms(3) _ item(1)] Cons.prems(2) by simp
    moreover have "\<forall>op \<in> set o2. Q op" using Cons.IH [OF item(2)] Cons.prems(2) by simp
    ultimately show ?thesis using item(3) by auto
  qed
qed simp

lemma plan_new_branches:
  assumes "branches p L Q" "walks D Q walk" "\<And>name. D (path_join dir name)" "\<And>path. L path zero_Record"
  shows "plan_new p walk dir names entries ps = Some (ops, ps') \<Longrightarrow> \<forall>op \<in> set ops. Q op"
proof (induction names arbitrary: ps ops)
  case (Cons name names)
  consider (skip) "plan_new p walk dir names entries ps = Some (ops, ps')"
    | (item) st o1 ps1 o2 where "decide p walk (path_join dir name) zero_Record st ps = Some (o1, ps1)"
      "plan_new p walk dir names entries ps1 = Some (o2, ps')" "ops = o1 @ o2"
    using Cons.prems by (auto split: option.splits)
  then show ?case
  proof cases
    case item
    have "\<forall>op \<in> set o1. Q op" by (rule decide_branches [OF assms(1,2) assms(3) assms(4) item(1)])
    moreover have "\<forall>op \<in> set o2. Q op" using Cons.IH [OF item(2)] .
    ultimately show ?thesis using item(3) by auto
  qed (use Cons in simp)
qed simp

text \<open>The three ways a directory is left.\<close>

lemma planDir_cases:
  assumes "planDir p (Suc n) dir ps = Some (ops, ps')"
  obtains (stopped) "ops = []" "psErr ps \<noteq> None \<or> fst (ctx_check (psCtx ps))" "psErr ps' = psErr ps"
  | (unreadable) e where "ops = []" "psErr ps = None"
      "readLocalDir (plFS p) dir (plRules p) (lcExcludeDir (plCfg p)) = Inl e"
      "psErr ps' = (if e = FsNotExist then None else Some e)"
  | (listed) entries c chs c' o1 left ps1 o2 where "psErr ps = None" "ctx_check (psCtx ps) = (False, c)"
      "readLocalDir (plFS p) dir (plRules p) (lcExcludeDir (plCfg p)) = Inr entries"
      "ixChildren (plIdx p) c dir = Some (chs, c')"
      "plan_known p (planDir p n) dir chs entries (ps\<lparr>psCtx := c'\<rparr>) = Some (o1, left, ps1)"
      "plan_new p (planDir p n) dir (sort (map fst left)) left ps1 = Some (o2, ps')" "ops = o1 @ o2"
proof (cases "psErr ps = None \<and> \<not> fst (ctx_check (psCtx ps))")
  case False
  then show ?thesis using assms stopped by (cases "ctx_check (psCtx ps)") (auto split: if_splits)
next
  case True
  then obtain c where c: "ctx_check (psCtx ps) = (False, c)" by (cases "ctx_check (psCtx ps)") auto
  show ?thesis
  proof (cases "readLocalDir (plFS p) dir (plRules p) (lcExcludeDir (plCfg p))")
    case (Inl e)
    then show ?thesis using assms True c unreadable by (auto split: if_splits)
  next
    case (Inr entries)
    then obtain chs c' where ch: "ixChildren (plIdx p) c dir = Some (chs, c')"
      using assms True c by (auto split: option.splits)
    then obtain o1 left ps1 where k: "plan_known p (planDir p n) dir chs entries (ps\<lparr>psCtx := c'\<rparr>) = Some (o1, left, ps1)"
      using assms True c Inr by (auto split: option.splits)
    then obtain o2 where "plan_new p (planDir p n) dir (sort (map fst left)) left ps1 = Some (o2, ps')" "ops = o1 @ o2"
      using assms True c Inr ch by (auto split: option.splits)
    then show ?thesis using listed [OF _ c Inr ch k] True by blast
  qed
qed

lemma planDir_branches:
  assumes "branches p L Q" "\<And>path. L path zero_Record" "\<And>dir name. D dir \<Longrightarrow> D (path_join dir name)"
    and "\<And>c dir cs c' ch. D dir \<Longrightarrow> ixChildren (plIdx p) c dir = Some (cs, c') \<Longrightarrow> ch \<in> set cs \<Longrightarrow> L (path_join dir (cName ch)) (cRec ch)"
  shows "D dir \<Longrightarrow> planDir p n dir ps = Some (ops, ps') \<Longrightarrow> \<forall>op \<in> set ops. Q op"
proof (induction n arbitrary: dir ps ops ps')
  case (Suc n)
  have w: "walks D Q (planDir p n)" unfolding walks_def using Suc.IH by blast
  note D = assms(3) [OF Suc.prems(1)]
  from Suc.prems(2) show ?case
  proof (cases rule: planDir_cases)
    case (listed entries c chs c' o1 left ps1 o2)
    have "\<forall>ch \<in> set chs. L (path_join dir (cName ch)) (cRec ch)" using assms(4) [OF Suc.prems(1) listed(4)] by blast
    then have "\<forall>op \<in> set o1. Q op" by (rule plan_known_branches [OF assms(1) w D listed(5)])
    moreover have "\<forall>op \<in> set o2. Q op" by (rule plan_new_branches [OF assms(1) w D assms(2) listed(6)])
    ultimately show ?thesis using listed(7) by auto
  qed auto
qed simp

text \<open>The record that is decided on: none, or one stored for that path, as it is or cleaned.\<close>

definition stored_at :: "Index \<Rightarrow> string \<Rightarrow> Record \<Rightarrow> bool" where
  "stored_at ix path r \<longleftrightarrow> (\<exists>q. ixGet ix q = Some r \<and> (path = q \<or> path = path_clean q))"

text \<open>A clean-up of exactly the item that is recorded at its own path: a video is moved away, anything else deleted.\<close>

definition cleans_recorded :: "Index \<Rightarrow> Op \<Rightarrow> bool" where
  "cleans_recorded ix op \<longleftrightarrow>
     (\<exists>r. stored_at ix (opPath op) r \<and> opFid op = rFid r \<and> opKind op = (if rKind r = KindStrm then OpRetire else OpDrop))"

lemma clearOp_recorded: "stored_at ix path rec \<Longrightarrow> cleans_recorded ix (clearOp path rec reason)"
  unfolding cleans_recorded_def by (rule exI [of _ rec]) (simp add: clearOp_def newOp_def)

lemma decideFile_safe:
  assumes "rec = zero_Record \<or> stored_at (plIdx p) path rec" "op \<in> set (decideFile p path rec st)"
  shows "opKind op \<notin> {OpMkdir, OpDownload, OpArchive} \<and> (OpKind_Danger (opKind op) \<longrightarrow> cleans_recorded (plIdx p) op)"
proof -
  have rec: "rFid rec \<noteq> [] \<Longrightarrow> stored_at (plIdx p) path rec" using assms(1) by auto
  have own: "cleans_recorded (plIdx p) ((newOp k path reason)\<lparr>opFid := rFid rec\<rparr>)"
    if "rFid rec \<noteq> []" "k = (if rKind rec = KindStrm then OpRetire else OpDrop)" for k reason
    using rec [OF that(1)] that(2) unfolding cleans_recorded_def by (intro exI [of _ rec]) (simp add: newOp_def)
  note c = clearOp_recorded [OF rec]
  have kinds: "opKind (clearOp q r reason) = (if rKind r = KindStrm then OpRetire else OpDrop)" "opKind (newOp k q reason) = k" for q r reason k
    by (simp_all add: clearOp_def newOp_def)
  have plain: "op \<in> set (decidePlain path rec st) \<Longrightarrow> ?thesis"
    by (auto simp: decidePlain_def OpKind_Danger_def own c kinds split: if_splits)
  have strm: "op \<in> set (decideStrm p path rec) \<Longrightarrow> ?thesis"
    by (auto simp: decideStrm_def adoptOps_def OpKind_Danger_def Let_def own c kinds split: if_splits)
  have key: "ixGet (plIdx p) q = Some r \<Longrightarrow> cleans_recorded (plIdx p) (clearOp q r reason)" for q r reason
    by (rule clearOp_recorded) (auto simp: stored_at_def)
  have "op \<in> set (decideVideo p path rec st) \<Longrightarrow> ?thesis"
    using plain by (auto simp: decideVideo_def OpKind_Danger_def Let_def key kinds split: if_splits option.splits)
  then show ?thesis using assms(2) plain strm by (auto simp: decideFile_def split: if_splits)
qed

section \<open>Directories that need no action\<close>

text \<open>What a local file must look like next to its record, and a directory next to the records of
  its children.\<close>

definition file_synced :: "planner \<Rightarrow> string \<Rightarrow> Record \<Rightarrow> DirEntry \<Rightarrow> bool" where
  "file_synced p path rec e \<longleftrightarrow>
     (if IsStrmPath path then
        deInfo e \<noteq> None \<and> rKind rec = KindStrm \<and> rPickCode rec \<noteq> [] \<and>
        ReadStrmFile (fsReadFile (plFS p) path) = StrmContent (paStrmURL (plPaths p)) (rPickCode rec) \<and>
        ParsePickCode (plAuth p) (StrmContent (paStrmURL (plPaths p)) (rPickCode rec)) = rPickCode rec
      else \<not> (lcToStrm (plCfg p) \<and> IsVideoExt (plRules p) path) \<and>
        rKind rec = KindFile \<and> deInfo e = Some (rSize rec))"

fun dir_synced :: "planner \<Rightarrow> nat \<Rightarrow> string \<Rightarrow> bool" where
  "dir_synced p 0 dir = False"
| "dir_synced p (Suc n) dir =
     (case readLocalDir (plFS p) dir (plRules p) (lcExcludeDir (plCfg p)) of
        Inl e \<Rightarrow> False
      | Inr entries \<Rightarrow>
          (case ixChildren (plIdx p) None dir of
             Some (chs, None) \<Rightarrow>
               distinct (map cName chs) \<and> set (map fst entries) = cName ` set chs \<and>
               list_all (\<lambda>ch.
                 rFid (cRec ch) \<noteq> [] \<and>
                 (case map_of entries (cName ch) of
                    None \<Rightarrow> False
                  | Some e \<Rightarrow>
                      if deIsDir e then rKind (cRec ch) = KindDir \<and> dir_synced p n (path_join dir (cName ch))
                      else file_synced p (path_join dir (cName ch)) (cRec ch) e)) chs
           | _ \<Rightarrow> False))"

lemma decideFile_synced:
  assumes "file_synced p path rec e" "rFid rec \<noteq> []" "deInfo e = Some sz"
  shows "decideFile p path rec \<lparr>lsExists = True, lsIsDir = False, lsSize = sz\<rparr> = []"
  using assms by (auto simp: file_synced_def decideFile_def decideStrm_def decidePlain_def StrmNeedsFix_def Let_def
      split: if_splits)

lemma plan_known_synced:
  assumes "\<And>ch. ch \<in> set chs \<Longrightarrow> \<exists>st. stateOf (map_of entries (cName ch)) = Some st \<and> map_of entries (cName ch) \<noteq> None \<and>
      decide p walk (path_join dir (cName ch)) (cRec ch) st ps = Some ([], ps)"
    and "distinct (map cName chs)"
  shows "\<exists>left. plan_known p walk dir chs entries ps = Some ([], left, ps) \<and>
    set (map fst left) = set (map fst entries) - cName ` set chs"
  using assms
proof (induction chs arbitrary: entries)
  case (Cons ch chs)
  let ?es = "AList.delete (cName ch) entries"
  obtain st where st: "stateOf (map_of entries (cName ch)) = Some st" "map_of entries (cName ch) \<noteq> None"
    "decide p walk (path_join dir (cName ch)) (cRec ch) st ps = Some ([], ps)"
    using Cons.prems(1) [of ch] by auto
  have same: "map_of ?es (cName c) = map_of entries (cName c)" if "c \<in> set chs" for c
  proof -
    have "cName ch \<notin> cName ` set chs" using Cons.prems(2) by simp
    then have "cName c \<noteq> cName ch" using that by (metis imageI)
    then show ?thesis by (simp add: delete_conv')
  qed
  have "\<exists>left. plan_known p walk dir chs ?es ps = Some ([], left, ps) \<and>
    set (map fst left) = set (map fst ?es) - cName ` set chs"
    by (rule Cons.IH) (use Cons.prems same in auto)
  then obtain left where left: "plan_known p walk dir chs ?es ps = Some ([], left, ps)"
    "set (map fst left) = set (map fst ?es) - cName ` set chs" by blast
  have "set (map fst ?es) = set (map fst entries) - {cName ch}" by (simp add: delete_keys)
  then show ?case using left st by (auto simp: Let_def)
qed simp

lemma planDir_synced:
  "dir_synced p n dir \<Longrightarrow> psErr ps = None \<Longrightarrow> psCtx ps = None \<Longrightarrow> planDir p n dir ps = Some ([], ps)"
proof (induction n arbitrary: dir)
  case (Suc n)
  obtain entries where rd: "readLocalDir (plFS p) dir (plRules p) (lcExcludeDir (plCfg p)) = Inr entries"
    using Suc.prems(1) by (auto split: sum.splits)
  obtain chs where ch: "ixChildren (plIdx p) None dir = Some (chs, None)"
    using Suc.prems(1) rd by (auto split: option.splits)
  let ?ok = "\<lambda>ch. rFid (cRec ch) \<noteq> [] \<and>
      (case map_of entries (cName ch) of None \<Rightarrow> False
       | Some e \<Rightarrow> if deIsDir e then rKind (cRec ch) = KindDir \<and> dir_synced p n (path_join dir (cName ch))
                   else file_synced p (path_join dir (cName ch)) (cRec ch) e)"
  have ok: "distinct (map cName chs)" "set (map fst entries) = cName ` set chs" "list_all ?ok chs"
    using Suc.prems(1) rd ch by auto
  have "\<exists>st. stateOf (map_of entries (cName c)) = Some st \<and> map_of entries (cName c) \<noteq> None \<and>
      decide p (planDir p n) (path_join dir (cName c)) (cRec c) st ps = Some ([], ps)" if "c \<in> set chs" for c
  proof -
    have c: "?ok c" using ok(3) that by (simp add: list_all_iff)
    then obtain e where e: "map_of entries (cName c) = Some e" by (cases "map_of entries (cName c)") auto
    show ?thesis
    proof (cases "deIsDir e")
      case True
      then have "planDir p n (path_join dir (cName c)) ps = Some ([], ps)" using c e Suc by simp
      then show ?thesis using True c e by (simp add: stateOf_def decide_def decideDir_def Let_def)
    next
      case False
      then have s: "file_synced p (path_join dir (cName c)) (cRec c) e" using c e by simp
      then obtain sz where "deInfo e = Some sz" by (auto simp: file_synced_def split: if_splits)
      then show ?thesis using decideFile_synced [OF s] c e False by (simp add: stateOf_def decide_def)
    qed
  qed
  then obtain left where "plan_known p (planDir p n) dir chs entries ps = Some ([], left, ps)" "set (map fst left) = {}"
    using plan_known_synced [of chs entries p "planDir p n" dir ps] ok by auto
  moreover have same: "ps\<lparr>psCtx := None\<rparr> = ps" using Suc.prems(3) by (cases ps) simp
  ultimately have "plan_known p (planDir p n) dir chs entries (ps\<lparr>psCtx := None\<rparr>) = Some ([], [], ps)"
    by (simp only: same) simp
  then show ?case using Suc.prems(2,3) rd ch by simp
qed simp

end
