(* ===== verification/Index_Link.thy ===== *)
theory Index_Link
  imports Index_Props Plan_Facts
begin

text \<open>
  The interface between the planner and the index: the locale \<open>index_contract\<close> says what the
  planner relies on, and a \<open>Store\<close> over a bucket that keeps bbolt's promises gives it, under
  any context, also when a scan is cut short by a cancellation.
\<close>

section \<open>What a scan collects, cancelled or not\<close>

context bucket
begin

lemma cursor_in:
  assumes "ok b"
  shows "bk_next bk b k = Some p \<Longrightarrow> p \<in> set (kv b)" "bk_seek bk b k = Some p \<Longrightarrow> p \<in> set (kv b)"
  using next_law [OF assms, of k] seek_law [OF assms, of k] by (auto simp: find_Some_iff)

lemma scan_loop_inv:
  assumes "ok b" "\<And>k v acc. (k, v) \<in> set (kv b) \<Longrightarrow> has_prefix k prefix \<Longrightarrow> I acc \<Longrightarrow> I (fst (fn k v acc))"
    and "scan_loop bk b prefix fn c cur acc = Some y" "\<And>p. cur = Some p \<Longrightarrow> p \<in> set (kv b)" "I acc"
  shows "I (fst y)"
proof -
  let ?P = "\<lambda>bk' b' pr' fn' c' cur' acc' y'. bk' = bk \<longrightarrow> b' = b \<longrightarrow> pr' = prefix \<longrightarrow> fn' = fn \<longrightarrow>
    (\<forall>p. cur' = Some p \<longrightarrow> p \<in> set (kv b)) \<longrightarrow> I acc' \<longrightarrow> I (fst y')"
  have "?P bk b prefix fn c cur acc y"
  proof (rule scan_loop.raw_induct [where P = ?P, OF _ assms(3)], intro impI)
    fix loop bk' b' pr' fn' c' cur' acc' y'
    assume IH: "\<And>bk' b' pr' fn' c' cur' acc' y'. loop bk' b' pr' fn' c' cur' acc' = Some y' \<Longrightarrow> ?P bk' b' pr' fn' c' cur' acc' y'"
      and step: "(case cur' of None \<Rightarrow> Some (acc', None, c')
        | Some (k, v) \<Rightarrow>
          if \<not> has_prefix k pr' then Some (acc', None, c')
          else case ctx_check c' of (stop, c'') \<Rightarrow>
            if stop then Some (acc', Some ECancelled, c'')
            else case fn' k v acc' of (acc'', nxt) \<Rightarrow>
              loop bk' b' pr' fn' c'' (case nxt of Some s \<Rightarrow> bk_seek bk' b' s | None \<Rightarrow> bk_next bk' b' k) acc'') = Some y'"
      and eqs: "bk' = bk" "b' = b" "pr' = prefix" "fn' = fn" and cur': "\<forall>p. cur' = Some p \<longrightarrow> p \<in> set (kv b)" and I: "I acc'"
    show "I (fst y')"
    proof (cases "\<exists>k v. cur' = Some (k, v) \<and> has_prefix k prefix \<and> \<not> fst (ctx_check c')")
      case True
      then obtain k v c'' where kv: "cur' = Some (k, v)" "has_prefix k prefix" "ctx_check c' = (False, c'')"
        by (metis prod.collapse)
      obtain acc'' nxt where st: "fn k v acc' = (acc'', nxt)" by fastforce
      have "loop bk b prefix fn c'' (case nxt of Some s \<Rightarrow> bk_seek bk b s | None \<Rightarrow> bk_next bk b k) acc'' = Some y'"
        using step kv st unfolding eqs by simp
      moreover have "I acc''" using assms(2) [of k v acc'] kv cur' I st by simp
      moreover have "\<forall>p. (case nxt of Some s \<Rightarrow> bk_seek bk b s | None \<Rightarrow> bk_next bk b k) = Some p \<longrightarrow> p \<in> set (kv b)"
        using cursor_in [OF assms(1)] by (auto split: option.splits)
      ultimately show ?thesis using IH by blast
    next
      case False
      then show ?thesis using step I unfolding eqs by (auto split: option.splits prod.splits if_splits)
    qed
  qed
  then show ?thesis using assms(4,5) by blast
qed

lemma children_recorded:
  assumes "st_db s = Some b" "ok b" "bk_begin bk b" "Children bk s c dir = Some (cs, c')" "ch \<in> set cs"
  shows "Get bk s (dirPrefix dir @ cName ch) = Some (cRec ch) \<and> CHR ''/'' \<notin> set (cName ch)"
proof -
  let ?p = "dirPrefix dir"
  let ?I = "\<lambda>acc :: Child list. \<forall>ch \<in> set acc. Get bk s (?p @ cName ch) = Some (cRec ch) \<and> CHR ''/'' \<notin> set (cName ch)"
  obtain c1 where c1: "ctx_check c = (False, c1)"
    using assms(4,5) by (cases "ctx_check c") (auto simp: Children_def split: if_splits)
  obtain err where "scan_loop bk b ?p (children_step ?p) c1 (bk_seek bk b ?p) [] = Some (cs, err, c')"
    using assms(1,3,4) c1 by (auto simp: Children_def view_def scanPrefix_def)
  then have "?I (fst (cs, err, c'))"
  proof (rule scan_loop_inv [OF assms(2), rotated])
    fix k v and acc :: "Child list" assume "(k, v) \<in> set (kv b)" "has_prefix k ?p" "?I acc"
    then show "?I (fst (children_step ?p k v acc))"
      unfolding children_step_child using get_record [OF assms(1-3), of k]
      by (cases "decodeRecord v") (auto simp: child_of_def has_prefix_iff split: if_splits)
  qed (use cursor_in(2) [OF assms(2)] in auto)
  then show ?thesis using assms(5) by simp
qed

end

section \<open>The path of a child\<close>

lemma split_on_append: "split_on c (a @ c # t) = split_on c a @ split_on c t"
  by (induction a) (auto split: list.splits)

lemma clean_comps_empty: "clean_comps r st (as @ [] # cs) = clean_comps r st (as @ cs)"
  by (induction r st as rule: clean_comps.induct) (auto split: list.splits)

text \<open>The path the planner forms for a child is the cleaned path of its record.\<close>

lemma path_join_stored:
  assumes "dir \<noteq> []"
  shows "path_join dir name = path_clean (dirPrefix dir @ name)"
proof (cases "last dir = CHR ''/''")
  case False
  then show ?thesis using assms by (simp add: path_join_def dirPrefix_def)
next
  case True
  then obtain d where d: "dir = d @ ''/''" using assms by (metis append_butlast_last_id)
  have "clean_comps r [] (split_on (CHR ''/'') (d @ CHR ''/'' # CHR ''/'' # name)) = clean_comps r [] (split_on (CHR ''/'') (d @ CHR ''/'' # name))" for r
    by (simp add: split_on_append split_on_append [of _ "[]", simplified] clean_comps_empty)
  moreover have "has_prefix (d @ CHR ''/'' # CHR ''/'' # name) ''/'' = has_prefix (d @ CHR ''/'' # name) ''/''"
    by (cases d) (simp_all add: has_prefix_def)
  ultimately show ?thesis using d by (simp add: path_join_def dirPrefix_def path_clean_def Let_def)
qed

section \<open>The contract\<close>

locale index_contract =
  fixes ix :: Index
  assumes children_are_records: "ixChildren ix c dir = Some (cs, c') \<Longrightarrow> ch \<in> set cs \<Longrightarrow>
    ixGet ix (dirPrefix dir @ cName ch) = Some (cRec ch) \<and> CHR ''/'' \<notin> set (cName ch)"
begin

lemma plan_cleanups:
  assumes "plIdx p = ix" "root \<noteq> []" "PlanLocal p n c root = Some (ops, e)" "op \<in> set ops"
  shows "opKind op \<notin> {OpDownload, OpArchive} \<and> (OpKind_Danger (opKind op) \<longrightarrow> cleans_recorded ix op)"
proof -
  let ?L = "\<lambda>path rec. rec = zero_Record \<or> stored_at (plIdx p) path rec"
  let ?Q = "\<lambda>op. opKind op \<notin> {OpDownload, OpArchive} \<and> (OpKind_Danger (opKind op) \<longrightarrow> cleans_recorded ix op)"
  have "?Q (clearOp path rec reason)" if "?L path rec" "rFid rec \<noteq> []" for path rec reason
    using that clearOp_recorded [of "plIdx p" path rec reason] assms(1) by (auto simp: clearOp_def newOp_def)
  moreover have "?Q (newOp OpMkdir path reason)" for path reason by (simp add: OpKind_Danger_def)
  moreover have "?Q op" if "?L path rec" "op \<in> set (decideFile p path rec st)" for path rec st op
    using decideFile_safe [OF that] assms(1) by blast
  ultimately have b: "branches p ?L ?Q" unfolding branches_def by blast
  have k: "?L (path_join dir (cName ch)) (cRec ch)"
    if "dir \<noteq> []" "ixChildren (plIdx p) c dir = Some (cs, c')" "ch \<in> set cs" for dir c cs c' ch
    using children_are_records [of c dir cs c' ch] that assms(1) path_join_stored [OF that(1), of "cName ch"]
    unfolding stored_at_def by metis
  obtain ps where run: "planDir p n root \<lparr>psCtx = c, psErr = None\<rparr> = Some (ops, ps)"
    using assms(3) by (auto simp: PlanLocal_def)
  have "\<forall>op \<in> set ops. ?Q op"
    by (rule planDir_branches [OF b _ _ k, where D = "\<lambda>d. d \<noteq> []" and dir = root])
       (use assms(2) run in \<open>simp_all add: path_join_def\<close>)
  then show ?thesis using assms(4) by blast
qed

end

text \<open>A \<open>Store\<close> with an open database keeps the contract.\<close>

locale bucket_store = bucket bk ok kv
  for bk :: "'b bolt" and ok :: "'b \<Rightarrow> bool" and kv :: "'b \<Rightarrow> (string \<times> string) list" +
  fixes s :: "'b Store" and b :: 'b
  assumes db_open: "st_db s = Some b" "ok b" "bk_begin bk b"

sublocale bucket_store \<subseteq> stored: index_contract "store_index bk s"
  by unfold_locales (use children_recorded [OF db_open] in \<open>auto simp: store_index_def\<close>)

interpretation sample_db: bucket_store al_bolt sorted_keys "\<lambda>L. L" sample_store sample_index
  by unfold_locales auto

end
