(* ===== verification/Strm_Facts.thy ===== *)
theory Strm_Facts
  imports Mirror_Model
begin

text \<open>
  Facts on the data of the mirror: the link in a \<open>.strm\<close> file gives back its pickcode, the
  path of a \<open>.strm\<close> file is the video's stem, and cloud paths map to local paths one to one.
\<close>

section \<open>Reading back a link\<close>

text \<open>Letters and digits: what pickcodes are made of.\<close>

definition is_alnum :: "char \<Rightarrow> bool" where
  "is_alnum c \<longleftrightarrow> (let n = (of_char c :: nat) in 48 \<le> n \<and> n \<le> 57 \<or> 65 \<le> n \<and> n \<le> 90 \<or> 97 \<le> n \<and> n \<le> 122)"

lemma char_neq_code: "(of_char c :: nat) \<noteq> of_char d \<Longrightarrow> c \<noteq> d"
  by auto

lemma is_alnum_special:
  "is_alnum c \<Longrightarrow> c \<noteq> CHR ''%'' \<and> c \<noteq> CHR ''#'' \<and> c \<noteq> CHR ''?'' \<and> c \<noteq> CHR ''&'' \<and> c \<noteq> CHR '';'' \<and>
     c \<noteq> CHR ''+'' \<and> c \<noteq> CHR ''='' \<and> c \<noteq> CHR ''/'' \<and> c \<noteq> CHR '':'' \<and> \<not> is_ctl c"
  by (auto simp: is_alnum_def is_ctl_def Let_def)

lemma is_letter_alnum: "is_letter c \<Longrightarrow> is_alnum c"
  by (auto simp: is_alnum_def is_letter_def Let_def)

lemma get_scheme_letters:
  "list_all is_letter sch \<Longrightarrow> i + length sch \<noteq> 0 \<Longrightarrow>
   get_scheme i raw (sch @ CHR '':'' # rest) = Some (take (i + length sch) raw, rest)"
  by (induction sch arbitrary: i) (auto simp: is_letter_def Let_def digit_val_def)

text \<open>A link prefix of the form scheme, authority and path, without the characters that have a
  meaning of their own in a link.\<close>

definition link_prefix :: "string \<Rightarrow> string \<Rightarrow> string \<Rightarrow> string \<Rightarrow> bool" where
  "link_prefix url sch auth path \<longleftrightarrow>
     trim_right (CHR ''/'') url = sch @ ''://'' @ auth @ path \<and> sch \<noteq> [] \<and> list_all is_letter sch \<and>
     CHR ''/'' \<notin> set auth \<and> (path = [] \<or> hd path = CHR ''/'') \<and>
     list_all (\<lambda>c. c \<noteq> CHR ''#'' \<and> c \<noteq> CHR ''?'' \<and> c \<noteq> CHR ''%'' \<and> \<not> is_ctl c) (auth @ path)"

lemma link_query:
  assumes "link_prefix url sch auth path" "auth_ok auth" "list_all is_alnum pc"
  shows "url_raw_query auth_ok (StrmContent url pc) = Some (''pickcode='' @ pc)"
proof -
  let ?rest = "''//'' @ auth @ path @ ''/download''"
  let ?u = "sch @ CHR '':'' # ?rest @ CHR ''?'' # ''pickcode='' @ pc"
  have u: "StrmContent url pc = ?u" using assms(1) by (simp add: StrmContent_def link_prefix_def)
  have pcs: "c \<noteq> CHR ''#'' \<and> \<not> is_ctl c" if "c \<in> set pc" for c
    using that assms(3) is_alnum_special by (auto simp: list_all_iff)
  have schs: "c \<noteq> CHR ''#'' \<and> \<not> is_ctl c" if "c \<in> set sch" for c
    using that assms(1) is_alnum_special is_letter_alnum by (auto simp: list_all_iff link_prefix_def)
  have ap: "c \<noteq> CHR ''#'' \<and> c \<noteq> CHR ''?'' \<and> c \<noteq> CHR ''%'' \<and> \<not> is_ctl c" if "c \<in> set auth \<union> set path" for c
    using that assms(1) by (auto simp: list_all_iff link_prefix_def)
  have "CHR ''#'' \<notin> set ?u" using pcs schs ap by auto
  then have 1: "cut_at (CHR ''#'') ?u = (?u, [])" by (rule cut_at_absent)
  have 2: "\<not> list_ex is_ctl ?u" using pcs schs ap by (auto simp: list_ex_iff is_ctl_def)
  have 3: "get_scheme 0 ?u ?u = Some (sch, ?rest @ CHR ''?'' # ''pickcode='' @ pc)"
    using get_scheme_letters [of sch 0] assms(1) by (simp add: link_prefix_def)
  have "CHR ''?'' \<notin> set ?rest" using ap by auto
  then have 4: "cut_at (CHR ''?'') (?rest @ CHR ''?'' # ''pickcode='' @ pc) = (?rest, ''pickcode='' @ pc)"
    by (rule cut_at_first)
  have "takeWhile (\<lambda>c. c \<noteq> CHR ''/'') (auth @ path @ ''/download'') = auth"
    "dropWhile (\<lambda>c. c \<noteq> CHR ''/'') (auth @ path @ ''/download'') = path @ ''/download''"
    using assms(1) by (cases path; auto simp: link_prefix_def takeWhile_append dropWhile_append3)+
  moreover have "unescape False (path @ ''/download'') = Some (path @ ''/download'')"
    by (rule unescape_plain) (use ap in auto)
  moreover have "?u \<noteq> ''*''" using assms(1) by (cases sch) (auto simp: link_prefix_def)
  ultimately show ?thesis
    using 1 2 3 4 assms(1,2) unfolding u
    by (simp add: url_raw_query_def link_prefix_def Let_def has_prefix_def)
qed

lemma query_get_pickcode:
  assumes "list_all is_alnum pc"
  shows "query_get (''pickcode='' @ pc) ''pickcode'' = pc"
proof -
  have sp: "CHR ''&'' \<notin> set pc \<and> CHR '';'' \<notin> set pc \<and> CHR ''%'' \<notin> set pc \<and> CHR ''+'' \<notin> set pc"
    using assms is_alnum_special by (auto simp: list_all_iff)
  have "cut_at (CHR ''='') (''pickcode'' @ CHR ''='' # pc) = (''pickcode'', pc)" by (rule cut_at_first) simp
  moreover have "unescape True ''pickcode'' = Some ''pickcode''" "unescape True pc = Some pc"
    using sp by (auto intro: unescape_plain)
  ultimately have "query_pair (''pickcode='' @ pc) = Some (''pickcode'', pc)"
    using sp by (simp add: query_pair_def)
  moreover have "split_on (CHR ''&'') (''pickcode='' @ pc) = [''pickcode='' @ pc]"
    by (rule split_on_no_sep) (use sp in auto)
  ultimately show ?thesis by (simp add: query_get_def List.map_filter_simps)
qed

lemma parse_strm_content:
  "link_prefix url sch auth path \<Longrightarrow> auth_ok auth \<Longrightarrow> list_all is_alnum pc \<Longrightarrow>
   ParsePickCode auth_ok (StrmContent url pc) = pc"
  by (simp only: ParsePickCode_def link_query option.case query_get_pickcode)

text \<open>Nothing is trimmed off a text that starts and ends with a letter, a digit or an equals sign.\<close>

definition is_solid :: "char \<Rightarrow> bool" where
  "is_solid c \<longleftrightarrow> is_alnum c \<or> c = CHR ''=''"

lemma space_seqs_not_solid: "\<forall>q \<in> set space_seqs. q \<noteq> [] \<and> \<not> is_solid (hd q) \<and> \<not> is_solid (last q)"
  by (simp add: space_seqs_def is_alnum_def is_solid_def Let_def)

lemma space_len_solid: "is_solid c \<Longrightarrow> space_len (c # s) = None \<and> rspace_len (c # s) = None"
proof -
  assume c: "is_solid c"
  have "\<not> has_prefix (c # s) q \<and> \<not> has_prefix (c # s) (rev q)" if "q \<in> set space_seqs" for q
  proof -
    have q: "q \<noteq> []" "\<not> is_solid (hd q)" "\<not> is_solid (last q)" using space_seqs_not_solid that by auto
    then have "rev q \<noteq> []" "hd (rev q) = last q" by (simp_all add: hd_rev)
    moreover have "has_prefix (c # s) x \<Longrightarrow> x \<noteq> [] \<Longrightarrow> hd x = c" for x by (cases x) auto
    ultimately show ?thesis using q c by metis
  qed
  then show ?thesis by (auto simp: space_len_def rspace_len_def find_None_iff)
qed

lemma trim_space_solid:
  assumes "s \<noteq> []" "is_solid (hd s)" "is_solid (last s)"
  shows "trim_space s = s"
proof -
  obtain c cs where s: "s = c # cs" using assms(1) by (cases s) auto
  obtain d ds where r: "rev s = d # ds" using assms(1) by (cases "rev s") auto
  have "d = last s" using r by (metis hd_rev list.sel(1))
  then have "rspace_len (d # ds) = None" using space_len_solid [of d ds] assms(3) by simp
  then have "drop_runs rspace_len (rev s) = rev s" unfolding r by (subst drop_runs.simps) simp
  moreover have "drop_runs space_len s = s"
    using space_len_solid [of c cs] assms(2) s by (subst drop_runs.simps) simp
  ultimately show ?thesis by (simp add: trim_space_def)
qed

lemma trim_bom_content:
  assumes "link_prefix url sch auth path" "list_all is_alnum pc"
  shows "trimBOM (StrmContent url pc) = StrmContent url pc"
proof -
  let ?s = "StrmContent url pc"
  obtain c cs where sch: "sch = c # cs" "is_alnum c"
    using assms(1) is_letter_alnum by (cases sch) (auto simp: link_prefix_def)
  have s: "?s = c # cs @ ''://'' @ auth @ path @ ''/download?pickcode='' @ pc"
    using assms(1) sch by (simp add: StrmContent_def link_prefix_def)
  have "\<not> has_prefix ?s [CHR 0xEF, CHR 0xBB, CHR 0xBF]" using s sch(2) by (auto simp: is_alnum_def Let_def)
  then have "trim_prefix ?s [CHR 0xEF, CHR 0xBB, CHR 0xBF] = ?s" by (simp add: trim_prefix_def)
  moreover have "last ?s = (if pc = [] then CHR ''='' else last pc)" using s by simp
  moreover have "pc \<noteq> [] \<Longrightarrow> is_alnum (last pc)" using assms(2) by (simp add: list_all_iff)
  ultimately show ?thesis using trim_space_solid [of ?s] s sch(2) by (simp add: trimBOM_def is_solid_def)
qed

section \<open>Paths\<close>

lemma rel_to_root_abs:
  assumes "\<forall>c \<in> set cr. good_name c" "\<forall>c \<in> set rel. good_name c"
  shows "RelToRoot (abs_path cr) (abs_path (cr @ rel)) (CHR ''/'') = join_with ''/'' rel"
proof (cases "rel = []")
  case True
  then show ?thesis using assms by (simp add: RelToRoot_def trim_prefix_def has_prefix_def)
next
  case False
  then have j: "CHR ''/'' # join_with ''/'' rel = tail_path rel" by (rule join_with_tail_path)
  obtain r rs where rel: "rel = r # rs" using False by (cases rel) auto
  obtain x xs where r: "r = x # xs" using assms(2) rel by (cases r) (auto simp: good_name_def)
  have "x \<noteq> CHR ''/''" using assms(2) rel r by (auto simp: good_name_def)
  then have nosl: "\<not> has_prefix (join_with ''/'' rel) ''/''" using rel r by (cases rs) auto
  show ?thesis
  proof (cases "cr = []")
    case True
    have "path_clean (abs_path rel) = CHR ''/'' # join_with ''/'' rel"
      using path_clean_abs_path [OF assms(2)] False j by (simp only: abs_path_def if_False)
    moreover have "abs_path [] = ''/''" "path_clean ''/'' = ''/''"
      using path_clean_abs_path [of "[]"] by (simp_all add: abs_path_def)
    ultimately show ?thesis using True nosl by (simp add: RelToRoot_def trim_prefix_def)
  next
    case c: False
    have "path_clean (abs_path (cr @ rel)) = abs_path cr @ CHR ''/'' # join_with ''/'' rel"
      using assms c j by (simp add: ball_Un) (simp add: abs_path_def)
    then show ?thesis using assms by (simp add: RelToRoot_def trim_prefix_def)
  qed
qed

lemma path_clean_double: "\<forall>c \<in> set cs. good_name c \<Longrightarrow> path_clean (CHR ''/'' # tail_path cs) = abs_path cs"
proof -
  assume g: "\<forall>c \<in> set cs. good_name c"
  have "split_on (CHR ''/'') (CHR ''/'' # tail_path cs) = [] # [] # cs" using split_on_abs_path [OF g] by simp
  then have "path_clean (CHR ''/'' # tail_path cs) = CHR ''/'' # join_with ''/'' cs"
    using clean_comps_good [OF g, of True "[]"] by (simp add: path_clean_def)
  also have "\<dots> = abs_path cs" using join_with_tail_path [of cs] by (cases "cs = []") (auto simp: abs_path_def)
  finally show ?thesis .
qed

lemma path_join_multi:
  assumes "\<forall>c \<in> set lr. good_name c" "\<forall>c \<in> set rel. good_name c" "rel \<noteq> []"
  shows "path_join (abs_path lr) (join_with ''/'' rel) = abs_path (lr @ rel)"
proof -
  have j: "''/'' @ join_with ''/'' rel = tail_path rel" using join_with_tail_path [OF assms(3)] by simp
  show ?thesis
  proof (cases "lr = []")
    case True
    then show ?thesis using j path_clean_double [OF assms(2)] by (simp add: path_join_def abs_path_def [of "[]"])
  next
    case False
    have "abs_path lr @ ''/'' @ join_with ''/'' rel = abs_path (lr @ rel)" using False j by (simp add: abs_path_def)
    moreover have "abs_path lr \<noteq> []" using False by (cases lr) (auto simp: abs_path_def)
    ultimately show ?thesis using path_clean_abs_path [of "lr @ rel"] assms by (simp add: path_join_def ball_Un)
  qed
qed

lemma trim_right_replicate: "trim_right c (s @ replicate k c) = trim_right c s"
proof -
  have "dropWhile (\<lambda>x. x = c) (replicate k c @ t) = dropWhile (\<lambda>x. x = c) t" for t by (induction k) auto
  then show ?thesis by (simp add: trim_right_def)
qed

lemma tail_path_last: "cs \<noteq> [] \<Longrightarrow> \<forall>c \<in> set cs. good_name c \<Longrightarrow> last (tail_path cs) \<noteq> CHR ''/'' \<and> tail_path cs \<noteq> []"
proof (induction cs rule: rev_induct)
  case (snoc c cs)
  then have "c \<noteq> []" "CHR ''/'' \<notin> set c" by (simp_all add: good_name_def)
  then have "last c \<noteq> CHR ''/''" using last_in_set by metis
  then show ?case using \<open>c \<noteq> []\<close> by simp
qed simp

lemma clean_cloud_path_abs:
  assumes "\<forall>c \<in> set cs. good_name c"
  shows "CleanCloudPath (abs_path cs @ replicate k (CHR ''/'')) = abs_path cs"
proof (cases "cs = []")
  case True
  have "trim_right (CHR ''/'') ([] @ ''/'') = []" by (simp add: trim_right_def)
  then show ?thesis using True trim_right_replicate [of "CHR ''/''" "''/''" k]
    by (simp add: CleanCloudPath_def abs_path_def Let_def)
next
  case False
  then show ?thesis using tail_path_last [OF False assms] trim_right_no [of "tail_path cs" "CHR ''/''"]
    by (simp add: CleanCloudPath_def abs_path_def Let_def trim_right_replicate)
qed

lemma map_cloud_to_local_abs:
  assumes "\<forall>c \<in> set lr. good_name c" "\<forall>c \<in> set cr. good_name c" "\<forall>c \<in> set rel. good_name c"
  shows "MapCloudToLocal (abs_path lr) (abs_path cr @ replicate k (CHR ''/'')) (abs_path (cr @ rel)) = abs_path (lr @ rel)"
proof -
  have "join_with ''/'' rel = [] \<longleftrightarrow> rel = []"
    using assms(3) by (cases rel rule: remdups_adj.cases) (auto simp: good_name_def)
  then show ?thesis
    using assms clean_cloud_path_abs [OF assms(2), of k] rel_to_root_abs [OF assms(2,3)]
      path_join_multi [OF assms(1,3)]
    by (cases "rel = []") (simp_all add: MapCloudToLocal_def Let_def)
qed

text \<open>A video and its \<open>.strm\<close> file share the stem.\<close>

lemma strm_of_stem:
  assumes "CHR ''/'' \<notin> set e" "CHR ''.'' \<notin> set e"
  shows "VideoToStrmPath (stem @ CHR ''.'' # e) = stem @ ''.strm''"
  using path_ext_dot [OF assms, of stem] trim_suffix_append [of stem "CHR ''.'' # e"]
  by (simp add: VideoToStrmPath_def)

lemma strm_path_is_strm: "IsStrmPath (stem @ ''.strm'')"
proof -
  have "path_ext (stem @ CHR ''.'' # ''strm'') = ''.strm''" by (rule path_ext_dot) auto
  then show ?thesis by (simp add: IsStrmPath_def)
qed

end
