(* ===== verification/Plan_Props.thy ===== *)
theory Plan_Props
  imports Index_Link Strm_Facts
begin

text \<open>
  The properties of the planner: it ends, it plans nothing when the local tree and the index
  agree, it cleans up only what the index records, and what it plans for a cloud snapshot.
\<close>

section \<open>Sample planners\<close>

definition sample_planner :: "FS \<Rightarrow> Index \<Rightarrow> bool \<Rightarrow> planner" where
  "sample_planner fs ix strm =
     \<lparr>plFS = fs, plIdx = ix, plRules = NewRules (\<lambda>s. s) [''.mkv''] [],
      plCfg = \<lparr>lcToStrm = strm, lcToCache = False, lcExcludeDir = []\<rparr>,
      plPaths = \<lparr>paLocalDir = ''/m'', paCloudDir = ''/c'', paCloudFid = ''10'', paTempFid = ''11'',
                 paStrmURL = ''http://h'', paCacheDir = []\<rparr>,
      plAuth = (\<lambda>a. a = ''h'')\<rparr>"

definition list_index :: "(string \<times> Child list) list \<Rightarrow> Index" where
  "list_index cs =
     \<lparr>ixGet = map_of (concat (map (\<lambda>(d, chs). map (\<lambda>ch. (d @ ''/'' @ cName ch, cRec ch)) chs) cs)),
      ixChildren = (\<lambda>c d. case ctx_check c of (stop, c') \<Rightarrow>
        if stop then Some ([], c') else Some (case map_of cs d of Some chs \<Rightarrow> chs | None \<Rightarrow> [], c'))\<rparr>"

definition list_fs :: "(string \<times> DirEntry list) list \<Rightarrow> (string \<times> string) list \<Rightarrow> FS" where
  "list_fs ds files =
     \<lparr>fsReadDir = (\<lambda>d. case map_of ds d of Some es \<Rightarrow> Inr es | None \<Rightarrow> Inl FsNotExist),
      fsReadFile = map_of files, fsStat = (\<lambda>_. Inl FsNotExist)\<rparr>"

definition both_synced :: planner where
  "both_synced = sample_planner
     (list_fs [(''/m'', [\<lparr>deName = ''d'', deIsDir = True, deInfo = Some 0\<rparr>, \<lparr>deName = ''n.txt'', deIsDir = False, deInfo = Some 7\<rparr>]),
               (''/m/d'', [\<lparr>deName = ''a.strm'', deIsDir = False, deInfo = Some 40\<rparr>])]
              [(''/m/d/a.strm'', ''http://h/download?pickcode=abc1'')])
     (list_index [(''/m'', [\<lparr>cName = ''d'', cRec = \<lparr>rFid = ''1'', rPickCode = [], rKind = KindDir, rSize = 0\<rparr>\<rparr>,
                            \<lparr>cName = ''n.txt'', cRec = \<lparr>rFid = ''2'', rPickCode = [], rKind = KindFile, rSize = 7\<rparr>\<rparr>]),
                  (''/m/d'', [\<lparr>cName = ''a.strm'', cRec = \<lparr>rFid = ''3'', rPickCode = ''abc1'', rKind = KindStrm, rSize = 0\<rparr>\<rparr>])])
     True"

text \<open>A planner over the sample library, whose directory \<open>/m/Show\<close> is empty on the disk.\<close>

definition stored_show :: planner where
  "stored_show = sample_planner (list_fs [(''/m/Show'', [])] []) (store_index al_bolt sample_store) True"

text \<open>C16. A plan is always made. When every directory listing leads to directories of a smaller
  rank (a finite tree) and the index answers every scan, planning ends with a result for
  every context, however small the tree's content: fuel above the rank of the root is enough.\<close>

theorem PlanLocal_terminates:
  assumes "ranked (plFS p) rank" "\<And>c dir. ixChildren (plIdx p) c dir \<noteq> None" "rank root < n"
  shows "\<exists>ops err. PlanLocal p n c root = Some (ops, err)"
  using planDir_Some [OF assms, of "\<lparr>psCtx = c, psErr = None\<rparr>"] by (auto simp: PlanLocal_def)

theorem PlanLocal_terminates_witness:
  "\<exists>ops err. PlanLocal both_synced 2 (Some 5) ''/m'' = Some (ops, err)"
proof (rule PlanLocal_terminates [where rank = "\<lambda>d. if d = ''/m'' then 1 else 0"])
  have "path_join ''/m'' ''d'' = ''/m/d''" by code_simp
  then show "ranked (plFS both_synced) (\<lambda>d. if d = ''/m'' then 1 else 0)"
    by (auto simp: ranked_def both_synced_def sample_planner_def list_fs_def split: option.splits if_splits)
  show "ixChildren (plIdx both_synced) c dir \<noteq> None" for c dir
    by (auto simp: both_synced_def sample_planner_def list_index_def split: prod.splits)
qed simp

text \<open>C3. What a local plan cleans up. With the index in an open database that keeps bbolt's
  promises, no plan for a local tree downloads or archives, and every action that moves away or deletes something in the
  cloud is for an item the index records at the action's own path: it carries the id of that record, moves the item to the
  recycle directory when it is recorded as a video, and deletes it otherwise. So no path's item is
  cleaned up under another path, none that was never synchronised is, and a video is never itself the object of a
  deletion. (A recorded directory is deleted as a whole, with the videos in it: \<open>missing_dir_deleted_whole\<close>.)\<close>

theorem PlanLocal_cleanups_recorded:
  assumes "bucket_store bk ok kv s b" "plIdx p = store_index bk s" "root \<noteq> []"
    and "PlanLocal p n c root = Some (ops, e)" "op \<in> set ops"
  shows "opKind op \<notin> {OpDownload, OpArchive} \<and>
    (OpKind_Danger (opKind op) \<longrightarrow>
      (\<exists>path r. Get bk s path = Some r \<and> (opPath op = path \<or> opPath op = path_clean path) \<and> opFid op = rFid r \<and>
         opKind op = (if rKind r = KindStrm then OpRetire else OpDrop)))"
proof -
  have "index_contract (store_index bk s)"
    by unfold_locales (use bucket.children_recorded [of bk ok kv s b] assms(1)
        in \<open>auto simp: store_index_def bucket_store_def bucket_store_axioms_def\<close>)
  from index_contract.plan_cleanups [OF this assms(2-5)] show ?thesis
    unfolding cleans_recorded_def stored_at_def store_index_def by fastforce
qed

theorem PlanLocal_cleanups_recorded_witness:
  "\<exists>ops op path r. PlanLocal stored_show 1 None ''/m/Show'' = Some (ops, None) \<and> op \<in> set ops \<and>
     opKind op = OpRetire \<and> Get al_bolt sample_store path = Some r \<and> opFid op = rFid r \<and> rFid r = ''4'' \<and> rKind r = KindStrm"
proof -
  have "map_option (\<lambda>(ops, e). (map (\<lambda>op. (opKind op, opFid op)) ops, e)) (PlanLocal stored_show 1 None ''/m/Show'') =
     Some ([(OpRetire, ''4''), (OpDrop, ''5'')], None)"
    by code_simp
  then obtain op ops where P: "PlanLocal stored_show 1 None ''/m/Show'' = Some (op # ops, None)"
    and op: "opKind op = OpRetire" "opFid op = ''4''" by auto
  from PlanLocal_cleanups_recorded [OF sample_db.bucket_store_axioms _ _ P, of op] op
  obtain path r where "Get al_bolt sample_store path = Some r" "opFid op = rFid r"
    "opKind op = (if rKind r = KindStrm then OpRetire else OpDrop)"
    by (auto simp: stored_show_def sample_planner_def OpKind_Danger_def)
  then show ?thesis using P op by (intro exI [of _ "op # ops"] exI [of _ op] exI [of _ path] exI [of _ r]) (simp split: if_splits)
qed

text \<open>C15. A tree in agreement with the index needs no action. When every listed entry has its
  record and every record its entry, directories recorded as directories, plain files with
  the recorded size, \<open>.strm\<close> files holding the current link to the recorded pickcode, the
  plan for the whole tree is empty and without an error.\<close>

theorem PlanLocal_in_sync:
  assumes "dir_synced p n root"
  shows "PlanLocal p n None root = Some ([], None)"
  using planDir_synced [OF assms, of "\<lparr>psCtx = None, psErr = None\<rparr>"] by (simp add: PlanLocal_def)

theorem PlanLocal_in_sync_witness:
  "PlanLocal both_synced 2 None ''/m'' = Some ([], None)"
proof (rule PlanLocal_in_sync)
  show "dir_synced both_synced 2 ''/m''"
    by code_simp
qed

text \<open>When a local \<open>.strm\<close> file is left alone: exactly when it has no record and no readable
  pickcode, or when its record is a video with the same pickcode and the file holds the
  current link, character for character. In every other case the plan has an action.\<close>

theorem decideStrm_idle_iff:
  "decideStrm p path rec = [] \<longleftrightarrow>
    (let content = ReadStrmFile (fsReadFile (plFS p) path); pc = ParsePickCode (plAuth p) content
     in if rFid rec = [] then pc = []
        else rKind rec = KindStrm \<and> pc \<noteq> [] \<and> pc = rPickCode rec \<and>
             content = StrmContent (paStrmURL (plPaths p)) pc)"
  by (auto simp: decideStrm_def adoptOps_def StrmNeedsFix_def Let_def)

text \<open>A link the program writes is stable: for a link prefix made of scheme, authority and path and a
  pickcode of letters and digits, reading the file back gives the pickcode, and with the record
  the program stores beside it the planner has no action.\<close>

lemma link_settled:
  assumes "link_prefix (paStrmURL (plPaths p)) sch auth lpath" "plAuth p auth" "list_all is_alnum pc" "pc \<noteq> []"
    and "fsReadFile (plFS p) path = Some (StrmContent (paStrmURL (plPaths p)) pc)" "fid \<noteq> []"
  shows "ParseStrmFile (plAuth p) (fsReadFile (plFS p) path) = pc \<and>
    decideStrm p path \<lparr>rFid = fid, rPickCode = pc, rKind = KindStrm, rSize = sz\<rparr> = []"
  using assms trim_bom_content [OF assms(1,3)] parse_strm_content [where auth_ok = "plAuth p", OF assms(1,2,3)]
  by (simp add: ParseStrmFile_def ReadStrmFile_def decideStrm_def StrmNeedsFix_def Let_def)

text \<open>A video that replaces an older one does not lose it before the upload: for a local video
  of at least 10 MB whose \<open>.strm\<close> record is a video, the plan is the single upload, which
  carries the old file id to retire afterwards; nothing is cleaned up first. A smaller
  one is left alone.\<close>

theorem decideVideo_overwrite:
  assumes "ixGet (plIdx p) (VideoToStrmPath path) = Some old" "rKind old = KindStrm" "rFid old \<noteq> []"
  shows "decideVideo p path rec st =
    (if IsVideo (plRules p) path (lsSize st)
     then [(newOp OpUpload path reason_video_again)\<lparr>opSize := lsSize st, opIsVideo := True, opReplaceFid := rFid old\<rparr>]
     else [])"
  using assms by (simp add: decideVideo_def newOp_def Let_def)

theorem decideVideo_overwrite_witness:
  "map (\<lambda>op. (opKind op, opReplaceFid op))
     (decideVideo both_synced ''/m/d/a.mkv'' zero_Record \<lparr>lsExists = True, lsIsDir = False, lsSize = 20000000\<rparr>)
   = [(OpUpload, ''3'')]"
proof -
  have "ixGet (plIdx both_synced) (VideoToStrmPath ''/m/d/a.mkv'') =
      Some \<lparr>rFid = ''3'', rPickCode = ''abc1'', rKind = KindStrm, rSize = 0\<rparr>"
    and v: "IsVideo (plRules both_synced) ''/m/d/a.mkv'' 20000000" by code_simp+
  from decideVideo_overwrite [OF this(1), of zero_Record "\<lparr>lsExists = True, lsIsDir = False, lsSize = 20000000\<rparr>"] v
  show ?thesis by simp
qed

end
