(* ===== verification/Plan_Cloud.thy ===== *)
theory Plan_Cloud
  imports Plan_Props
begin

text \<open>
  What a plan contains: every deletion and every new file of a listed directory, and exactly
  which actions a cloud snapshot leads to.
\<close>

section \<open>Nothing is overlooked\<close>

lemma plan_known_missing:
  "plan_known p walk dir chs entries ps = Some (ops, left, ps') \<Longrightarrow> ch \<in> set chs \<Longrightarrow>
   map_of entries (cName ch) = None \<Longrightarrow> rFid (cRec ch) \<noteq> [] \<Longrightarrow> \<not> (lcToStrm (plCfg p) \<and> IsStrmPath (cName ch)) \<Longrightarrow>
   clearOp (path_join dir (cName ch)) (cRec ch) reason_gone \<in> set ops"
proof (induction chs arbitrary: entries ps ops)
  case (Cons c chs)
  have del: "map_of (AList.delete k entries) (cName ch) = None" for k
    using Cons.prems(3) by (simp add: delete_conv)
  show ?case
  proof (cases "c = ch")
    case True
    then have "\<not> coveredByLocal p (cName c) entries" "stateOf (map_of entries (cName c)) = Some missing_state"
      using Cons.prems by (auto simp: coveredByLocal_def stateOf_def)
    then show ?thesis using Cons.prems True
      by (auto simp: Let_def decide_def decideMissing_def missing_state_def)
  next
    case False
    consider (skip) es where "plan_known p walk dir chs es ps = Some (ops, left, ps')" "map_of es (cName ch) = None"
      | (item) o1 ps1 o2 where "plan_known p walk dir chs (AList.delete (cName c) entries) ps1 = Some (o2, left, ps')"
        "ops = o1 @ o2"
      using Cons.prems(1,3) del by (auto simp: Let_def split: if_splits option.splits)
    then show ?thesis
    proof cases
      case skip
      then show ?thesis using Cons False by auto
    next
      case item
      then show ?thesis using Cons.IH [OF item(1)] Cons.prems False del by auto
    qed
  qed
qed simp

lemma plan_known_keeps:
  "plan_known p walk dir chs entries ps = Some (ops, left, ps') \<Longrightarrow> name \<notin> cName ` set chs \<Longrightarrow>
   map_of left name = map_of entries name"
proof (induction chs arbitrary: entries ps ops)
  case (Cons c chs)
  have del: "map_of (AList.delete (cName c) entries) name = map_of entries name"
    using Cons.prems(2) by (simp add: delete_conv)
  obtain es ps1 o2 where "plan_known p walk dir chs es ps1 = Some (o2, left, ps')"
    "es = entries \<or> es = AList.delete (cName c) entries"
    using Cons.prems(1) by (auto simp: Let_def split: if_splits option.splits)
  then show ?case using Cons.IH Cons.prems(2) del by fastforce
qed simp

lemma plan_new_has:
  "plan_new p walk dir names entries ps = Some (ops, ps') \<Longrightarrow> name \<in> set names \<Longrightarrow>
   map_of entries name = Some e \<Longrightarrow> \<not> deIsDir e \<Longrightarrow> deInfo e = Some sz \<Longrightarrow>
   set (decideFile p (path_join dir name) zero_Record \<lparr>lsExists = True, lsIsDir = False, lsSize = sz\<rparr>) \<subseteq> set ops"
proof (induction names arbitrary: ps ops)
  case (Cons n names)
  show ?case
  proof (cases "n = name")
    case True
    then show ?thesis using Cons.prems by (auto simp: stateOf_def decide_def)
  next
    case False
    then obtain ps1 o1 o2 where "plan_new p walk dir names entries ps1 = Some (o2, ps')" "ops = o1 @ o2"
      using Cons.prems(1) by (auto split: option.splits)
    then show ?thesis using Cons.IH Cons.prems False by fastforce
  qed
qed simp

text \<open>A local plan overlooks nothing at its root. When the root can be listed and its records
  scanned, then every record whose name is not listed leads to its clean-up (unless a
  local video may stand for it), and every listed file without a record leads to the actions
  of a new file.\<close>

theorem PlanLocal_complete:
  assumes "PlanLocal p (Suc n) None root = Some (ops, err)"
    and "readLocalDir (plFS p) root (plRules p) (lcExcludeDir (plCfg p)) = Inr entries"
    and "ixChildren (plIdx p) None root = Some (chs, c)"
  shows "(\<forall>ch. ch \<in> set chs \<and> map_of entries (cName ch) = None \<and> rFid (cRec ch) \<noteq> [] \<and>
              \<not> (lcToStrm (plCfg p) \<and> IsStrmPath (cName ch)) \<longrightarrow>
            clearOp (path_join root (cName ch)) (cRec ch) reason_gone \<in> set ops) \<and>
    (\<forall>name e sz. map_of entries name = Some e \<and> \<not> deIsDir e \<and> deInfo e = Some sz \<and> name \<notin> cName ` set chs \<longrightarrow>
       set (decideFile p (path_join root name) zero_Record \<lparr>lsExists = True, lsIsDir = False, lsSize = sz\<rparr>)
         \<subseteq> set ops)"
proof -
  obtain o1 left ps1 o2 ps' where
    k: "plan_known p (planDir p n) root chs entries \<lparr>psCtx = c, psErr = None\<rparr> = Some (o1, left, ps1)" and
    w: "plan_new p (planDir p n) root (sort (map fst left)) left ps1 = Some (o2, ps')" and ops: "ops = o1 @ o2"
    using assms by (auto simp: PlanLocal_def split: option.splits)
  have "name \<in> set (sort (map fst left)) \<and> map_of left name = Some e"
    if "map_of entries name = Some e" "name \<notin> cName ` set chs" for name e
  proof -
    have "map_of left name = Some e" using plan_known_keeps [OF k that(2)] that(1) by simp
    moreover from map_of_SomeD [OF this] have "name \<in> fst ` set left" by (rule rev_image_eqI) simp
    ultimately show ?thesis by simp
  qed
  then have 2: "set (decideFile p (path_join root name) zero_Record \<lparr>lsExists = True, lsIsDir = False, lsSize = sz\<rparr>)
      \<subseteq> set ops"
    if "map_of entries name = Some e" "\<not> deIsDir e" "deInfo e = Some sz" "name \<notin> cName ` set chs" for name e sz
    using plan_new_has [OF w, of name e sz] that ops by auto
  have 1: "clearOp (path_join root (cName ch)) (cRec ch) reason_gone \<in> set ops"
    if "ch \<in> set chs" "map_of entries (cName ch) = None" "rFid (cRec ch) \<noteq> []"
      "\<not> (lcToStrm (plCfg p) \<and> IsStrmPath (cName ch))" for ch
    using plan_known_missing [OF k that] ops by simp
  show ?thesis using 1 2 by blast
qed

definition gone_and_new :: planner where
  "gone_and_new = sample_planner
     (list_fs [(''/m'', [\<lparr>deName = ''new.txt'', deIsDir = False, deInfo = Some 5\<rparr>])] [])
     (list_index [(''/m'', [\<lparr>cName = ''gone.txt'', cRec = \<lparr>rFid = ''9'', rPickCode = [], rKind = KindFile, rSize = 3\<rparr>\<rparr>])])
     True"

theorem PlanLocal_complete_witness:
  "\<exists>ops err. PlanLocal gone_and_new (Suc 1) None ''/m'' = Some (ops, err) \<and>
     clearOp ''/m/gone.txt'' \<lparr>rFid = ''9'', rPickCode = [], rKind = KindFile, rSize = 3\<rparr> reason_gone \<in> set ops"
proof -
  have "ranked (plFS gone_and_new) (\<lambda>_. 0)"
    by (auto simp: ranked_def gone_and_new_def sample_planner_def list_fs_def split: option.splits if_splits)
  moreover have "ixChildren (plIdx gone_and_new) c dir \<noteq> None" for c dir
    by (auto simp: gone_and_new_def sample_planner_def list_index_def split: prod.splits)
  ultimately have "planDir gone_and_new (Suc 1) ''/m'' \<lparr>psCtx = None, psErr = None\<rparr> \<noteq> None"
    by (rule planDir_Some) simp
  then obtain ops err where P: "PlanLocal gone_and_new (Suc 1) None ''/m'' = Some (ops, err)"
    unfolding PlanLocal_def by auto
  let ?ch = "\<lparr>cName = ''gone.txt'', cRec = \<lparr>rFid = ''9'', rPickCode = [], rKind = KindFile, rSize = 3\<rparr>\<rparr>"
  have rd: "readLocalDir (plFS gone_and_new) ''/m'' (plRules gone_and_new) (lcExcludeDir (plCfg gone_and_new)) =
      Inr [(''new.txt'', \<lparr>deName = ''new.txt'', deIsDir = False, deInfo = Some 5\<rparr>)]" by code_simp
  have ch: "ixChildren (plIdx gone_and_new) None ''/m'' = Some ([?ch], None)" by code_simp
  have j: "path_join ''/m'' ''gone.txt'' = ''/m/gone.txt''" by code_simp
  have st: "\<not> IsStrmPath ''gone.txt''" by code_simp
  from PlanLocal_complete [OF P rd ch] have "clearOp (path_join ''/m'' (cName ?ch)) (cRec ?ch) reason_gone \<in> set ops"
    using st by simp
  then have "clearOp ''/m/gone.txt'' (cRec ?ch) reason_gone \<in> set ops" using j by simp
  then show ?thesis using P by auto
qed

section \<open>The plan for a cloud snapshot\<close>

text \<open>Where a cloud file belongs locally.\<close>

definition save_as_strm :: "Rules \<Rightarrow> CloudCfg \<Rightarrow> CloudItem \<Rightarrow> bool" where
  "save_as_strm rules cfg it \<longleftrightarrow> (ciIsVideo it \<or> IsVideoExt rules (ciPath it)) \<and> ccToStrm cfg"

definition save_path :: "Rules \<Rightarrow> Paths \<Rightarrow> CloudCfg \<Rightarrow> CloudItem \<Rightarrow> string" where
  "save_path rules paths cfg it =
     (let localp = MapCloudToLocal (paLocalDir paths) (paCloudDir paths) (ciPath it)
      in if save_as_strm rules cfg it then VideoToStrmPath localp else localp)"

lemma plan_cloud_item_save:
  "plan_cloud_item fs ix rules paths cfg it =
     (case fsStat fs (save_path rules paths cfg it) of
        Inr _ \<Rightarrow>
          (case ixGet ix (save_path rules paths cfg it) of
             Some rec \<Rightarrow> if ccDropStale cfg \<and> rFid rec \<noteq> ciFid it
                         then [(newOp OpDrop (save_path rules paths cfg it) reason_stale_copy)\<lparr>opFid := ciFid it\<rparr>] else []
           | None \<Rightarrow> [])
      | Inl _ \<Rightarrow>
          if ixGet ix (save_path rules paths cfg it) \<noteq> None then []
          else [(newOp OpDownload (save_path rules paths cfg it) reason_cloud_new)
                  \<lparr>opFid := ciFid it, opPickCode := ciPickCode it, opSize := ciSize it,
                   opIsVideo := save_as_strm rules cfg it\<rparr>])"
  unfolding plan_cloud_item_def save_path_def save_as_strm_def Let_def by (rule refl)

lemma plan_cloud_item_ops:
  "op \<in> set (plan_cloud_item fs ix rules paths cfg it) \<longleftrightarrow>
     isl (fsStat fs (save_path rules paths cfg it)) \<and> ixGet ix (save_path rules paths cfg it) = None \<and>
       op = (newOp OpDownload (save_path rules paths cfg it) reason_cloud_new)
              \<lparr>opFid := ciFid it, opPickCode := ciPickCode it, opSize := ciSize it, opIsVideo := save_as_strm rules cfg it\<rparr> \<or>
     \<not> isl (fsStat fs (save_path rules paths cfg it)) \<and> ccDropStale cfg \<and>
       (\<exists>rec. ixGet ix (save_path rules paths cfg it) = Some rec \<and> rFid rec \<noteq> ciFid it) \<and>
       op = (newOp OpDrop (save_path rules paths cfg it) reason_stale_copy)\<lparr>opFid := ciFid it\<rparr>"
  unfolding plan_cloud_item_save
  by (cases "fsStat fs (save_path rules paths cfg it)"; cases "ixGet ix (save_path rules paths cfg it)") auto

lemma plan_cloud_items_None:
  "plan_cloud_items fs ix rules paths cfg None its = Inr (concat (map (plan_cloud_item fs ix rules paths cfg) its))"
  by (induction its) auto

lemma plan_cloud_items_Some:
  "plan_cloud_items fs ix rules paths cfg (Some k) its =
     (if length its \<le> k then plan_cloud_items fs ix rules paths cfg None its else Inl ECancelled)"
proof (induction its arbitrary: k)
  case (Cons it its)
  then show ?case by (cases k) (auto simp: plan_cloud_items_None)
qed simp

text \<open>C4. The plan for a cloud snapshot, action by action. A file of the snapshot is downloaded
  exactly when nothing is at its local place and the index has no record for it, so a local
  deletion is never undone; a cloud file is dropped exactly when stale copies are to go, its
  local place is taken and the record there names another file; the directories right below the root are archived when the
  task says so, after everything else; there are no other actions.\<close>

theorem PlanCloud_exact:
  "\<exists>ops. PlanCloud fs ix rules paths cfg None tree = Inr (ops @
       (if ccArchive cfg then map (\<lambda>d. (newOp OpArchive (ciPath d) reason_archive)\<lparr>opFid := ciFid d\<rparr>) (TopDirs tree) else [])) \<and>
     set ops =
       {(newOp OpDownload (save_path rules paths cfg it) reason_cloud_new)
          \<lparr>opFid := ciFid it, opPickCode := ciPickCode it, opSize := ciSize it, opIsVideo := save_as_strm rules cfg it\<rparr> |it.
          it \<in> set (FileItems tree) \<and> isl (fsStat fs (save_path rules paths cfg it)) \<and>
          ixGet ix (save_path rules paths cfg it) = None} \<union>
       {(newOp OpDrop (save_path rules paths cfg it) reason_stale_copy)\<lparr>opFid := ciFid it\<rparr> |it rec.
          it \<in> set (FileItems tree) \<and> \<not> isl (fsStat fs (save_path rules paths cfg it)) \<and> ccDropStale cfg \<and>
          ixGet ix (save_path rules paths cfg it) = Some rec \<and> rFid rec \<noteq> ciFid it}"
    (is "\<exists>ops. ?eq ops \<and> set ops = ?down \<union> ?drop")
proof (intro exI conjI)
  let ?ops = "concat (map (plan_cloud_item fs ix rules paths cfg) (FileItems tree))"
  show "?eq ?ops" by (simp add: PlanCloud_def plan_cloud_items_None)
  have ops: "op \<in> set ?ops \<longleftrightarrow> (\<exists>it \<in> set (FileItems tree). op \<in> set (plan_cloud_item fs ix rules paths cfg it))" for op
    by auto
  show "set ?ops = ?down \<union> ?drop"
    unfolding set_eq_iff ops plan_cloud_item_ops Un_iff mem_Collect_eq by blast
qed

text \<open>A cloud plan is all or nothing: under a cancelled context the result is the error, and
  otherwise it is the plan made without any cancellation; a partial plan is never returned.\<close>

theorem PlanCloud_all_or_nothing:
  "PlanCloud fs ix rules paths cfg c tree \<in> {Inl ECancelled, PlanCloud fs ix rules paths cfg None tree}"
  by (cases c) (auto simp: PlanCloud_def plan_cloud_items_Some)

text \<open>Cloud and local paths correspond. For a cloud root written with any number of trailing
  slashes, the item at a path below the root is placed at the same relative path below the local
  root; different cloud paths get different places.\<close>

theorem MapCloudToLocal_exact:
  assumes "\<forall>c \<in> set lr. good_name c" "\<forall>c \<in> set cr. good_name c"
    and "\<forall>c \<in> set rel. good_name c" "\<forall>c \<in> set rel'. good_name c"
  shows "MapCloudToLocal (abs_path lr) (abs_path cr @ replicate k (CHR ''/'')) (abs_path (cr @ rel)) = abs_path (lr @ rel) \<and>
    (MapCloudToLocal (abs_path lr) (abs_path cr @ replicate k (CHR ''/'')) (abs_path (cr @ rel)) =
     MapCloudToLocal (abs_path lr) (abs_path cr @ replicate k (CHR ''/'')) (abs_path (cr @ rel')) \<longleftrightarrow> rel = rel')"
proof -
  note m = map_cloud_to_local_abs [OF assms(1-3), of k] map_cloud_to_local_abs [OF assms(1,2,4), of k]
  show ?thesis unfolding m using abs_path_inj [of "lr @ rel" "lr @ rel'"] assms by auto
qed

theorem MapCloudToLocal_exact_witness:
  "MapCloudToLocal ''/data/media'' ''/cloud/'' ''/cloud/tv/a.mkv'' = ''/data/media/tv/a.mkv''"
  using MapCloudToLocal_exact [of "[''data'', ''media'']" "[''cloud'']" "[''tv'', ''a.mkv'']" "[]" 1]
  by (simp add: good_name_def abs_path_def)

end
