(* ===== verification/Mirror_Apply.thy ===== *)
theory Mirror_Apply
  imports Mirror_Plan Pickcode Activity_Types
begin

text \<open>
  The executor of \<open>internal/mirror/apply.go\<close> with the cloud helpers of \<open>cloud.go\<close>: the only
  code that changes the cloud, the local files and the index. Everything outside the process
  is the record \<open>env\<close> of calls on a world \<open>'w\<close>: the operating system, the methods of
  \<open>drive.Client\<close>, the cache and the index. A step of the executor has three outcomes: it can
  fail (an error value), succeed, or never return (only a scan of the index can).
\<close>

section \<open>The world and the steps\<close>

record DirInfo =
  diFid :: string
  diName :: string
  diFileCount :: i64
  diFolderCount :: i64

text \<open>
  The calls. A result \<open>None\<close> or \<open>False\<close> is an error, whose text is only logged. The cache is an
  optional call: \<open>None\<close> is a nil cache.
\<close>

record 'w env =
  evStat :: "'w \<Rightarrow> string \<Rightarrow> fs_error + bool \<times> i64"
  evReadFile :: "'w \<Rightarrow> string \<Rightarrow> string option"
  evWriteFile :: "'w \<Rightarrow> string \<Rightarrow> string \<Rightarrow> bool \<times> 'w"
  evMkdirAll :: "'w \<Rightarrow> string \<Rightarrow> bool \<times> 'w"
  evRemove :: "'w \<Rightarrow> string \<Rightarrow> 'w"
  evCreate :: "'w \<Rightarrow> string \<Rightarrow> bool \<times> 'w"
  evCopy :: "'w \<Rightarrow> string \<Rightarrow> bool \<times> 'w"
  evCacheMove :: "('w \<Rightarrow> string \<Rightarrow> string \<Rightarrow> bool \<times> 'w) option"
  evCreateFolder :: "'w \<Rightarrow> string \<Rightarrow> string \<Rightarrow> string \<Rightarrow> DirInfo option \<times> 'w"
  evGetDirInfo :: "'w \<Rightarrow> string \<Rightarrow> DirInfo option \<times> 'w"
  evMoveFile :: "'w \<Rightarrow> string \<Rightarrow> string \<Rightarrow> bool \<times> 'w"
  evRenameFile :: "'w \<Rightarrow> string \<Rightarrow> string \<Rightarrow> string option \<times> 'w"
  evDeleteFile :: "'w \<Rightarrow> string \<Rightarrow> bool \<times> 'w"
  evUpload :: "'w \<Rightarrow> string \<Rightarrow> string \<Rightarrow> (string \<times> string) option \<times> 'w"
  evDownloadURL :: "'w \<Rightarrow> string \<Rightarrow> string option \<times> 'w"
  evHttpGet :: "'w \<Rightarrow> string \<Rightarrow> nat option \<times> 'w"
  evIdxGet :: "'w \<Rightarrow> string \<Rightarrow> Record option"
  evIdxPut :: "'w \<Rightarrow> string \<Rightarrow> Record \<Rightarrow> 'w"
  evIdxStrmFids :: "'w \<Rightarrow> ctx \<Rightarrow> string \<Rightarrow> (string list \<times> ctx) option"
  evIdxClear :: "'w \<Rightarrow> string \<Rightarrow> 'w option"

text \<open>The state of a run: the world, the counters, the context and the progress (total, done).\<close>

record 'w run =
  rnWorld :: 'w
  rnStats :: Stats
  rnCtx :: ctx
  rnTotal :: i64
  rnDone :: i64

text \<open>
  A step: \<open>None\<close> never returns, an inner \<open>None\<close> is an error. \<open>step_bind\<close> is the code's
  \<open>if err != nil { return err }\<close>.
\<close>

type_synonym ('w, 'a) step = "'w run \<Rightarrow> ('a option \<times> 'w run) option"

definition step_ret :: "'a \<Rightarrow> ('w, 'a) step" where
  "step_ret a s = Some (Some a, s)"

definition step_fail :: "('w, 'a) step" where
  "step_fail s = Some (None, s)"

definition step_bind :: "('w, 'a) step \<Rightarrow> ('a \<Rightarrow> ('w, 'b) step) \<Rightarrow> ('w, 'b) step" where
  "step_bind m f s =
     (case m s of
        None \<Rightarrow> None
      | Some (None, s') \<Rightarrow> Some (None, s')
      | Some (Some a, s') \<Rightarrow> f a s')"

definition step_call :: "('w \<Rightarrow> 'a option \<times> 'w) \<Rightarrow> ('w, 'a) step" where
  "step_call f s = (case f (rnWorld s) of (r, w) \<Rightarrow> Some (r, s\<lparr>rnWorld := w\<rparr>))"

definition step_do :: "('w \<Rightarrow> bool \<times> 'w) \<Rightarrow> ('w, unit) step" where
  "step_do f = step_call (\<lambda>w. case f w of (ok, w') \<Rightarrow> (if ok then Some () else None, w'))"

definition step_read :: "('w \<Rightarrow> 'a) \<Rightarrow> ('w, 'a) step" where
  "step_read f s = Some (Some (f (rnWorld s)), s)"

definition step_change :: "('w \<Rightarrow> 'w) \<Rightarrow> ('w, unit) step" where
  "step_change f s = Some (Some (), s\<lparr>rnWorld := f (rnWorld s)\<rparr>)"

definition step_count :: "(Stats \<Rightarrow> Stats) \<Rightarrow> ('w, unit) step" where
  "step_count f s = Some (Some (), s\<lparr>rnStats := f (rnStats s)\<rparr>)"

lemmas step_defs = step_ret_def step_fail_def step_bind_def step_call_def step_do_def step_read_def
  step_change_def step_count_def

section \<open>The cloud helpers (cloud.go)\<close>

fun ensure_cloud :: "'w env \<Rightarrow> string list \<Rightarrow> string \<Rightarrow> string \<Rightarrow> DirInfo option \<Rightarrow> ('w, DirInfo option) step" where
  "ensure_cloud ev [] parentFid cur lastInfo = step_ret lastInfo"
| "ensure_cloud ev (seg # segs) parentFid cur lastInfo =
     (if seg = [] then ensure_cloud ev segs parentFid cur lastInfo
      else
        let cur' = cur @ ''/'' @ seg in
        (\<lambda>s. case evGetDirInfo ev (rnWorld s) cur' of
           (Some info, w) \<Rightarrow> ensure_cloud ev segs (diFid info) cur' (Some info) (s\<lparr>rnWorld := w\<rparr>)
         | (None, w) \<Rightarrow>
             step_bind (step_call (\<lambda>w. evCreateFolder ev w parentFid seg cur'))
               (\<lambda>info. ensure_cloud ev segs (diFid info) cur' (Some info)) (s\<lparr>rnWorld := w\<rparr>)))"

definition root_DirInfo :: DirInfo where
  "root_DirInfo = \<lparr>diFid = ''0'', diName = [], diFileCount = 0, diFolderCount = 0\<rparr>"

definition EnsureCloudDir :: "'w env \<Rightarrow> string \<Rightarrow> ('w, DirInfo) step" where
  "EnsureCloudDir ev path =
     step_bind (ensure_cloud ev (split_on (CHR ''/'') (trim_byte (CHR ''/'') path)) ''0'' [] None)
       (\<lambda>last. step_ret (case last of None \<Rightarrow> root_DirInfo | Some info \<Rightarrow> info))"

definition idx_fid :: "'w env \<Rightarrow> 'w \<Rightarrow> string \<Rightarrow> string" where
  "idx_fid ev w path = (case evIdxGet ev w path of None \<Rightarrow> [] | Some r \<Rightarrow> rFid r)"

fun ensure_local :: "'w env \<Rightarrow> string list \<Rightarrow> string \<Rightarrow> string \<Rightarrow> string \<Rightarrow> ('w, string) step" where
  "ensure_local ev [] parentFid curLocal curCloud = step_ret parentFid"
| "ensure_local ev (seg # segs) parentFid curLocal curCloud =
     (if seg = [] then ensure_local ev segs parentFid curLocal curCloud
      else
        let curLocal' = path_join curLocal seg; curCloud' = curCloud @ ''/'' @ seg in
        step_bind (step_read (\<lambda>w. idx_fid ev w curLocal')) (\<lambda>fid.
          if fid \<noteq> [] then ensure_local ev segs fid curLocal' curCloud'
          else
            step_bind (step_call (\<lambda>w. evCreateFolder ev w parentFid seg curCloud')) (\<lambda>info.
            step_bind (step_change (\<lambda>w. evIdxPut ev w curLocal'
                \<lparr>rFid = diFid info, rPickCode = [], rKind = KindDir, rSize = 0\<rparr>)) (\<lambda>_.
            ensure_local ev segs (diFid info) curLocal' curCloud'))))"

definition EnsureLocalDir :: "'w env \<Rightarrow> Paths \<Rightarrow> string \<Rightarrow> ('w, string) step" where
  "EnsureLocalDir ev paths localPath =
     (let rel = RelToRoot (paLocalDir paths) localPath (CHR ''/'') in
      if rel = [] then step_ret (paCloudFid paths)
      else ensure_local ev (split_on (CHR ''/'') rel) (paCloudFid paths) (paLocalDir paths) (paCloudDir paths))"

definition Retire :: "'w env \<Rightarrow> Paths \<Rightarrow> string list \<Rightarrow> ('w, unit) step" where
  "Retire ev paths fids =
     (if fids = [] then step_ret ()
      else step_do (\<lambda>w. evMoveFile ev w (join_with '','' fids) (paTempFid paths)))"

definition Drop :: "'w env \<Rightarrow> string list \<Rightarrow> ('w, unit) step" where
  "Drop ev fids =
     (if fids = [] then step_ret () else step_do (\<lambda>w. evDeleteFile ev w (join_with '','' fids)))"

definition CollectStrmFids :: "'w env \<Rightarrow> string \<Rightarrow> ('w, string list \<times> string list) step" where
  "CollectStrmFids ev path s =
     (case evIdxGet ev (rnWorld s) path of
        None \<Rightarrow> Some (Some ([], []), s)
      | Some rec \<Rightarrow>
          if rKind rec = KindStrm then Some (Some ([rFid rec], []), s)
          else if rKind rec = KindDir then
            map_option (\<lambda>(fids, c). (Some (fids, [rFid rec]), s\<lparr>rnCtx := c\<rparr>))
              (evIdxStrmFids ev (rnWorld s) (rnCtx s) path)
          else Some (Some ([], [rFid rec]), s))"

definition clear_index :: "'w env \<Rightarrow> string \<Rightarrow> ('w, unit) step" where
  "clear_index ev path s = map_option (\<lambda>w. (Some (), s\<lparr>rnWorld := w\<rparr>)) (evIdxClear ev (rnWorld s) path)"

section \<open>The handlers of single actions\<close>

record applier =
  apPaths :: Paths
  apRules :: Rules
  apAuth :: "string \<Rightarrow> bool"

definition count_deleted :: "nat \<Rightarrow> Stats \<Rightarrow> Stats" where
  "count_deleted n st = st\<lparr>sDeleted := sDeleted st + of_nat n\<rparr>"

definition count_strm :: "Stats \<Rightarrow> Stats" where
  "count_strm st = st\<lparr>sStrmGenerated := sStrmGenerated st + 1\<rparr>"

definition apply_mkdir :: "'w env \<Rightarrow> applier \<Rightarrow> string \<Rightarrow> ('w, unit) step" where
  "apply_mkdir ev a localPath = step_bind (EnsureLocalDir ev (apPaths a) localPath) (\<lambda>_. step_ret ())"

definition WriteStrmFile :: "'w env \<Rightarrow> string \<Rightarrow> string \<Rightarrow> string \<Rightarrow> ('w, unit) step" where
  "WriteStrmFile ev strmURL pickCode path =
     step_do (\<lambda>w. evWriteFile ev w path (StrmContent strmURL pickCode))"

definition removeOriginal :: "'w env \<Rightarrow> string \<Rightarrow> string \<Rightarrow> LocalCfg \<Rightarrow> ('w, unit) step" where
  "removeOriginal ev path pickCode cfg =
     step_change (\<lambda>w.
       case evCacheMove ev of
         Some move \<Rightarrow>
           if lcToCache cfg then (case move w path pickCode of (ok, w') \<Rightarrow> if ok then w' else evRemove ev w' path)
           else evRemove ev w path
       | None \<Rightarrow> evRemove ev w path)"

definition replaceWithStrm :: "'w env \<Rightarrow> applier \<Rightarrow> Op \<Rightarrow> string \<Rightarrow> string \<Rightarrow> LocalCfg \<Rightarrow> ('w, unit) step" where
  "replaceWithStrm ev a op fid pickCode cfg =
     (let strmPath = VideoToStrmPath (opPath op) in
      step_bind
        (if opReplaceFid op \<noteq> [] \<and> opReplaceFid op \<noteq> fid then
           step_bind (Retire ev (apPaths a) [opReplaceFid op]) (\<lambda>_. step_count (count_deleted 1))
         else step_ret ()) (\<lambda>_.
      step_bind (WriteStrmFile ev (paStrmURL (apPaths a)) pickCode strmPath) (\<lambda>_.
      step_bind (step_count count_strm) (\<lambda>_.
      step_bind (removeOriginal ev (opPath op) pickCode cfg) (\<lambda>_.
      step_change (\<lambda>w. evIdxPut ev w strmPath
        \<lparr>rFid = fid, rPickCode = pickCode, rKind = KindStrm, rSize = 0\<rparr>))))))"

definition apply_upload :: "'w env \<Rightarrow> applier \<Rightarrow> Op \<Rightarrow> LocalCfg \<Rightarrow> ('w, unit) step" where
  "apply_upload ev a op cfg =
     step_bind (step_read (\<lambda>w. evStat ev w (opPath op))) (\<lambda>st.
       case st of
         Inl e \<Rightarrow> if e = FsNotExist then step_ret () else step_fail
       | Inr info \<Rightarrow>
           step_bind (EnsureLocalDir ev (apPaths a) (path_dir (opPath op))) (\<lambda>parentFid.
           step_bind (step_call (\<lambda>w. evUpload ev w (opPath op) parentFid)) (\<lambda>up.
           step_bind (step_count (\<lambda>s. s\<lparr>sUploaded := sUploaded s + 1\<rparr>)) (\<lambda>_.
           if \<not> opIsVideo op then
             step_change (\<lambda>w. evIdxPut ev w (opPath op)
               \<lparr>rFid = fst up, rPickCode = [], rKind = KindFile, rSize = snd info\<rparr>)
           else replaceWithStrm ev a op (fst up) (snd up) cfg))))"

definition apply_adopt :: "'w env \<Rightarrow> applier \<Rightarrow> Op \<Rightarrow> ('w, unit) step" where
  "apply_adopt ev a op =
     step_bind
       (if opFid op \<noteq> [] then step_ret (opFid op)
        else case PickcodeToID (opPickCode op) of Inl e \<Rightarrow> step_fail | Inr fid \<Rightarrow> step_ret fid) (\<lambda>fid.
     step_bind (EnsureLocalDir ev (apPaths a) (path_dir (opPath op))) (\<lambda>parentFid.
     step_bind (step_do (\<lambda>w. evMoveFile ev w fid parentFid)) (\<lambda>_.
     let origName = trim_suffix (path_base (opPath op)) ''.strm'' in
     step_bind (step_call (\<lambda>w. evRenameFile ev w fid origName)) (\<lambda>newName.
     let ext = path_ext newName in
     step_bind
       (if ext \<noteq> [] \<and> newName \<noteq> origName @ ext then
          step_bind (step_call (\<lambda>w. evRenameFile ev w fid (origName @ ext))) (\<lambda>_. step_ret ())
        else step_ret ()) (\<lambda>_.
     step_bind (WriteStrmFile ev (paStrmURL (apPaths a)) (opPickCode op) (opPath op)) (\<lambda>_.
     step_bind (step_change (\<lambda>w. evIdxPut ev w (opPath op)
         \<lparr>rFid = fid, rPickCode = opPickCode op, rKind = KindStrm, rSize = 0\<rparr>)) (\<lambda>_.
     step_count count_strm)))))))"

definition apply_normalize :: "'w env \<Rightarrow> applier \<Rightarrow> Op \<Rightarrow> ('w, unit) step" where
  "apply_normalize ev a op =
     step_bind (step_read (\<lambda>w. ParseStrmFile (apAuth a) (evReadFile ev w (opPath op)))) (\<lambda>pc.
       if pc = [] then step_ret () else WriteStrmFile ev (paStrmURL (apPaths a)) pc (opPath op))"

definition DownloadCloudFile :: "'w env \<Rightarrow> string \<Rightarrow> string \<Rightarrow> ('w, unit) step" where
  "DownloadCloudFile ev pickCode localPath =
     (\<lambda>s. case ctx_check (rnCtx s) of (stop, c) \<Rightarrow>
        if stop then Some (None, s\<lparr>rnCtx := c\<rparr>)
        else
          step_bind (step_call (\<lambda>w. evDownloadURL ev w pickCode)) (\<lambda>url.
          step_bind (step_call (\<lambda>w. evHttpGet ev w url)) (\<lambda>status.
          if status \<noteq> 200 then step_fail
          else
            step_bind (step_do (\<lambda>w. evMkdirAll ev w (path_dir localPath))) (\<lambda>_.
            step_bind (step_do (\<lambda>w. evCreate ev w localPath)) (\<lambda>_.
            step_do (\<lambda>w. case evCopy ev w localPath of (ok, w') \<Rightarrow>
                       if ok then (True, w') else (False, evRemove ev w' localPath))))))
          (s\<lparr>rnCtx := c\<rparr>))"

definition apply_download :: "'w env \<Rightarrow> applier \<Rightarrow> Op \<Rightarrow> ('w, unit) step" where
  "apply_download ev a op =
     step_bind (step_do (\<lambda>w. evMkdirAll ev w (path_dir (opPath op)))) (\<lambda>_.
     step_bind
       (if opIsVideo op then
          step_bind (WriteStrmFile ev (paStrmURL (apPaths a)) (opPickCode op) (opPath op)) (\<lambda>_. step_count count_strm)
        else
          step_bind (DownloadCloudFile ev (opPickCode op) (opPath op)) (\<lambda>_.
          step_count (\<lambda>s. s\<lparr>sDownloaded := sDownloaded s + 1\<rparr>))) (\<lambda>_.
     step_bind (step_read (\<lambda>w. case evStat ev w (opPath op) of Inr info \<Rightarrow> snd info | Inl _ \<Rightarrow> 0)) (\<lambda>sz.
     step_change (\<lambda>w. evIdxPut ev w (opPath op)
       (if opIsVideo op then \<lparr>rFid = opFid op, rPickCode = opPickCode op, rKind = KindStrm, rSize = 0\<rparr>
        else \<lparr>rFid = opFid op, rPickCode = [], rKind = KindFile, rSize = sz\<rparr>)))))"

definition apply_retire :: "'w env \<Rightarrow> applier \<Rightarrow> Op \<Rightarrow> ('w, unit) step" where
  "apply_retire ev a op =
     step_bind
       (if opFid op = [] then step_bind (CollectStrmFids ev (opPath op)) (\<lambda>p. step_ret (fst p))
        else step_ret [opFid op]) (\<lambda>fids.
     if fids = [] then step_ret ()
     else
       step_bind (Retire ev (apPaths a) fids) (\<lambda>_.
       step_bind (step_count (count_deleted (length fids))) (\<lambda>_.
       clear_index ev (opPath op))))"

definition apply_drop :: "'w env \<Rightarrow> applier \<Rightarrow> Op \<Rightarrow> ('w, unit) step" where
  "apply_drop ev a op =
     (if opFid op = [] then
        step_bind (CollectStrmFids ev (opPath op)) (\<lambda>(move, del).
        if move = [] \<and> del = [] then step_ret ()
        else
          step_bind (Retire ev (apPaths a) move) (\<lambda>_.
          step_bind (Drop ev del) (\<lambda>_.
          step_bind (step_count (count_deleted (length move + length del))) (\<lambda>_.
          clear_index ev (opPath op)))))
      else
        step_bind (Drop ev [opFid op]) (\<lambda>_.
        step_bind (step_count (count_deleted 1)) (\<lambda>_.
        clear_index ev (opPath op))))"

section \<open>Running a plan\<close>

definition apply_handler :: "'w env \<Rightarrow> applier \<Rightarrow> LocalCfg \<Rightarrow> Op \<Rightarrow> ('w, unit) step" where
  "apply_handler ev a cfg op =
     (case opKind op of
        OpMkdir \<Rightarrow> apply_mkdir ev a (opPath op)
      | OpUpload \<Rightarrow> apply_upload ev a op cfg
      | OpAdopt \<Rightarrow> apply_adopt ev a op
      | OpDownload \<Rightarrow> apply_download ev a op
      | OpRetire \<Rightarrow> apply_retire ev a op
      | OpDrop \<Rightarrow> apply_drop ev a op
      | OpNormalize \<Rightarrow> apply_normalize ev a op
      | OpArchive \<Rightarrow> step_ret ())"

definition is_transfer :: "OpKind \<Rightarrow> bool" where
  "is_transfer k \<longleftrightarrow> k = OpUpload \<or> k = OpAdopt \<or> k = OpDownload"

definition applyOne :: "'w env \<Rightarrow> applier \<Rightarrow> LocalCfg \<Rightarrow> Op \<Rightarrow> 'w run \<Rightarrow> 'w run option" where
  "applyOne ev a cfg op s =
     (case apply_handler ev a cfg op s of
        None \<Rightarrow> None
      | Some (None, s') \<Rightarrow> Some (s'\<lparr>rnStats := (rnStats s')\<lparr>sFailed := sFailed (rnStats s') + 1\<rparr>\<rparr>)
      | Some (Some _, s') \<Rightarrow> Some (if is_transfer (opKind op) then s'\<lparr>rnDone := rnDone s' + 1\<rparr> else s'))"

text \<open>The loop over the sorted actions: the archive ids collected, or \<open>None\<close> when cancelled.\<close>

fun apply_loop :: "'w env \<Rightarrow> applier \<Rightarrow> LocalCfg \<Rightarrow> Op list \<Rightarrow> string list \<Rightarrow> ('w, string list) step" where
  "apply_loop ev a cfg [] archive s = Some (Some archive, s)"
| "apply_loop ev a cfg (op # ops) archive s =
     (case ctx_check (rnCtx s) of (stop, c) \<Rightarrow>
        let s1 = s\<lparr>rnCtx := c\<rparr> in
        if stop then Some (None, s1)
        else if opKind op = OpArchive then
          apply_loop ev a cfg ops (if opFid op \<noteq> [] then archive @ [opFid op] else archive) s1
        else
          (case applyOne ev a cfg op s1 of
             None \<Rightarrow> None
           | Some s2 \<Rightarrow> apply_loop ev a cfg ops archive s2))"

definition archiveAll :: "'w env \<Rightarrow> applier \<Rightarrow> string list \<Rightarrow> ('w, unit) step" where
  "archiveAll ev a fids =
     (if fids = [] then step_ret ()
      else step_bind (Retire ev (apPaths a) fids) (\<lambda>_. step_count (count_deleted (length fids))))"

definition countWork :: "Op list \<Rightarrow> i64" where
  "countWork ops = of_nat (length (filter (\<lambda>op. is_transfer (opKind op)) ops))"

text \<open>\<open>slices.SortStableFunc\<close> by the phase of the action.\<close>

definition order_ops :: "Op list \<Rightarrow> Op list" where
  "order_ops ops = sort_key (\<lambda>op. OpKind_phase (opKind op)) ops"

definition Apply :: "'w env \<Rightarrow> applier \<Rightarrow> LocalCfg \<Rightarrow> Op list \<Rightarrow> ('w, unit) step" where
  "Apply ev a cfg ops s =
     (let ordered = order_ops ops; s1 = s\<lparr>rnTotal := countWork ordered, rnDone := 0\<rparr>
      in step_bind (apply_loop ev a cfg ordered []) (archiveAll ev a) s1)"

end
