(* ===== verification/Apply_Facts.thy ===== *)
theory Apply_Facts
  imports Mirror_Apply Plan_Cloud
begin

text \<open>
  Facts on the executor: when a step returns, what the loop over a plan does with failures, the
  composition with the store, and a small simulated world to run it in.
\<close>

section \<open>Steps that return\<close>

text \<open>The index answers every scan, and a scan leaves a context that is never cancelled alone.\<close>

definition total_index :: "'w env \<Rightarrow> bool" where
  "total_index ev \<longleftrightarrow>
     (\<forall>w c p. \<exists>fids c'. evIdxStrmFids ev w c p = Some (fids, c') \<and> (c = None \<longrightarrow> c' = None)) \<and>
     (\<forall>w p. evIdxClear ev w p \<noteq> None)"

definition returns :: "('w, 'a) step \<Rightarrow> bool" where
  "returns m \<longleftrightarrow> (\<forall>s. \<exists>r s'. m s = Some (r, s') \<and> (rnCtx s = None \<longrightarrow> rnCtx s' = None))"

named_theorems step_returns \<open>steps that always return\<close>

lemma returns_basic [step_returns]:
  "returns (step_ret a)" "returns step_fail" "returns (step_call f)" "returns (step_do g)"
  "returns (step_read h)" "returns (step_change k)" "returns (step_count c)"
  by (auto simp: returns_def step_defs split: prod.splits)

lemma returns_bind [step_returns]:
  assumes "returns m" "\<And>a. returns (f a)"
  shows "returns (step_bind m f)"
  unfolding returns_def
proof
  fix s
  obtain r s' where m: "m s = Some (r, s')" "rnCtx s = None \<longrightarrow> rnCtx s' = None"
    using assms(1) unfolding returns_def by blast
  show "\<exists>r s'. step_bind m f s = Some (r, s') \<and> (rnCtx s = None \<longrightarrow> rnCtx s' = None)"
  proof (cases r)
    case None
    then show ?thesis using m by (simp add: step_bind_def)
  next
    case (Some x)
    obtain q s2 where "f x s' = Some (q, s2)" "rnCtx s' = None \<longrightarrow> rnCtx s2 = None"
      using assms(2) [of x] unfolding returns_def by blast
    then show ?thesis using m Some by (simp add: step_bind_def)
  qed
qed

lemma returns_if [step_returns]: "returns m \<Longrightarrow> returns m' \<Longrightarrow> returns (if c then m else m')"
  by simp

lemma returns_ensure_cloud [step_returns]:
  fixes ev :: "'w env"
  shows "returns (ensure_cloud ev segs fid cur linfo)"
proof (induction segs arbitrary: fid cur linfo)
  case (Cons seg segs)
  have "returns (step_bind (step_call (\<lambda>w. evCreateFolder ev w fid seg c)) (\<lambda>info. ensure_cloud ev segs (diFid info) c (Some info)))" for c
    by (intro step_returns Cons.IH)
  note R = this
  show ?case
  proof (cases "seg = []")
    case False
    show ?thesis unfolding returns_def
    proof
      fix s :: "'w run"
      let ?c = "cur @ ''/'' @ seg"
      obtain r w where g: "evGetDirInfo ev (rnWorld s) ?c = (r, w)" by fastforce
      have "\<exists>q s'. step_bind (step_call (\<lambda>w. evCreateFolder ev w fid seg ?c)) (\<lambda>info. ensure_cloud ev segs (diFid info) ?c (Some info))
          (s\<lparr>rnWorld := w\<rparr>) = Some (q, s') \<and> (rnCtx (s\<lparr>rnWorld := w\<rparr>) = None \<longrightarrow> rnCtx s' = None)"
        using R [of ?c] unfolding returns_def by blast
      moreover have "\<exists>q s'. ensure_cloud ev segs (diFid info) ?c (Some info) (s\<lparr>rnWorld := w\<rparr>) = Some (q, s') \<and>
          (rnCtx (s\<lparr>rnWorld := w\<rparr>) = None \<longrightarrow> rnCtx s' = None)" for info
        using Cons.IH [of "diFid info" ?c "Some info"] unfolding returns_def by blast
      ultimately show "\<exists>q s'. ensure_cloud ev (seg # segs) fid cur linfo s = Some (q, s') \<and> (rnCtx s = None \<longrightarrow> rnCtx s' = None)"
        using False g by (cases r) (auto simp: Let_def)
    qed
  qed (use Cons.IH in simp)
qed (auto intro: step_returns)

lemma returns_ensure_local [step_returns]: "returns (ensure_local ev segs fid cl cc)"
  by (induction segs arbitrary: fid cl cc) (auto simp: Let_def intro!: step_returns)

lemma returns_EnsureLocalDir [step_returns]: "returns (EnsureLocalDir ev paths p)"
  by (auto simp: EnsureLocalDir_def Let_def intro!: step_returns)

lemma returns_Retire [step_returns]: "returns (Retire ev paths fids)" "returns (Drop ev fids)"
  by (auto simp: Retire_def Drop_def intro!: step_returns)

lemma returns_obtain:
  assumes "returns m"
  obtains r s' where "m s = Some (r, s')" "rnCtx s = None \<longrightarrow> rnCtx s' = None"
proof -
  have "\<exists>r s'. m s = Some (r, s') \<and> (rnCtx s = None \<longrightarrow> rnCtx s' = None)"
    using assms unfolding returns_def by (rule spec)
  then show ?thesis using that by (elim exE conjE)
qed

lemma total_index_scan:
  assumes "total_index ev"
  obtains fids c' where "evIdxStrmFids ev w c p = Some (fids, c')" "c = None \<longrightarrow> c' = None"
proof -
  have "\<exists>fids c'. evIdxStrmFids ev w c p = Some (fids, c') \<and> (c = None \<longrightarrow> c' = None)"
    using assms by (simp add: total_index_def)
  then show ?thesis using that by (elim exE conjE)
qed

lemma returns_CollectStrmFids:
  fixes ev :: "'w env"
  assumes "total_index ev"
  shows "returns (CollectStrmFids ev p)"
  unfolding returns_def
proof
  fix s :: "'w run"
  obtain fids c where "evIdxStrmFids ev (rnWorld s) (rnCtx s) p = Some (fids, c)" "rnCtx s = None \<longrightarrow> c = None"
    using assms by (rule total_index_scan)
  then show "\<exists>r s'. CollectStrmFids ev p s = Some (r, s') \<and> (rnCtx s = None \<longrightarrow> rnCtx s' = None)"
    by (cases "evIdxGet ev (rnWorld s) p") (simp_all add: CollectStrmFids_def)
qed

lemma returns_clear_index:
  fixes ev :: "'w env"
  assumes "total_index ev"
  shows "returns (clear_index ev p)"
  unfolding returns_def
proof
  fix s :: "'w run"
  have "evIdxClear ev (rnWorld s) p \<noteq> None" using assms unfolding total_index_def by blast
  then obtain w where "evIdxClear ev (rnWorld s) p = Some w" by blast
  then show "\<exists>r s'. clear_index ev p s = Some (r, s') \<and> (rnCtx s = None \<longrightarrow> rnCtx s' = None)"
    by (simp add: clear_index_def)
qed

lemma returns_DownloadCloudFile [step_returns]:
  fixes ev :: "'w env"
  shows "returns (DownloadCloudFile ev pc p)"
proof -
  have "returns (step_bind (step_call (\<lambda>w. evDownloadURL ev w pc)) (\<lambda>url.
          step_bind (step_call (\<lambda>w. evHttpGet ev w url)) (\<lambda>status.
          if status \<noteq> 200 then step_fail
          else
            step_bind (step_do (\<lambda>w. evMkdirAll ev w (path_dir p))) (\<lambda>_.
            step_bind (step_do (\<lambda>w. evCreate ev w p)) (\<lambda>_.
            step_do (\<lambda>w. case evCopy ev w p of (ok, w') \<Rightarrow>
                       if ok then (True, w') else (False, evRemove ev w' p)))))))"
    by (intro step_returns)
  note R = this
  show ?thesis unfolding returns_def
  proof
    fix s :: "'w run"
    obtain stop c where c: "ctx_check (rnCtx s) = (stop, c)" by fastforce
    obtain r s' where "step_bind (step_call (\<lambda>w. evDownloadURL ev w pc)) (\<lambda>url.
          step_bind (step_call (\<lambda>w. evHttpGet ev w url)) (\<lambda>status.
          if status \<noteq> 200 then step_fail
          else
            step_bind (step_do (\<lambda>w. evMkdirAll ev w (path_dir p))) (\<lambda>_.
            step_bind (step_do (\<lambda>w. evCreate ev w p)) (\<lambda>_.
            step_do (\<lambda>w. case evCopy ev w p of (ok, w') \<Rightarrow>
                       if ok then (True, w') else (False, evRemove ev w' p)))))) (s\<lparr>rnCtx := c\<rparr>) = Some (r, s')"
      "rnCtx (s\<lparr>rnCtx := c\<rparr>) = None \<longrightarrow> rnCtx s' = None" using R by (rule returns_obtain)
    then show "\<exists>r s'. DownloadCloudFile ev pc p s = Some (r, s') \<and> (rnCtx s = None \<longrightarrow> rnCtx s' = None)"
      using c by (cases stop) (auto simp: DownloadCloudFile_def)
  qed
qed

lemma returns_apply_handler:
  assumes "total_index ev"
  shows "returns (apply_handler ev a cfg op)"
proof -
  note R = step_returns returns_CollectStrmFids [OF assms] returns_clear_index [OF assms]
  have "returns (apply_mkdir ev a (opPath op))" by (auto simp: apply_mkdir_def intro!: R)
  moreover have "returns (replaceWithStrm ev a op f pc cfg)" for f pc
    by (auto simp: replaceWithStrm_def WriteStrmFile_def removeOriginal_def Let_def intro!: R)
  then have "returns (apply_upload ev a op cfg)"
    by (auto simp: apply_upload_def intro!: R split: sum.splits)
  moreover have "returns (apply_adopt ev a op)"
    by (auto simp: apply_adopt_def WriteStrmFile_def Let_def intro!: R split: sum.splits)
  moreover have "returns (apply_download ev a op)"
    by (auto simp: apply_download_def WriteStrmFile_def intro!: R)
  moreover have "returns (apply_retire ev a op)" by (auto simp: apply_retire_def intro!: R)
  moreover have "returns (apply_drop ev a op)" by (auto simp: apply_drop_def intro!: R split: prod.splits)
  moreover have "returns (apply_normalize ev a op)" by (auto simp: apply_normalize_def WriteStrmFile_def intro!: R)
  ultimately show ?thesis by (cases "opKind op") (simp_all add: apply_handler_def step_returns)
qed

lemma applyOne_Some:
  assumes "total_index ev"
  shows "\<exists>s'. applyOne ev a cfg op s = Some s' \<and> (rnCtx s = None \<longrightarrow> rnCtx s' = None)"
proof -
  obtain r s' where "apply_handler ev a cfg op s = Some (r, s')" "rnCtx s = None \<longrightarrow> rnCtx s' = None"
    using returns_apply_handler [OF assms, of a cfg op] unfolding returns_def by blast
  then show ?thesis by (cases r) (simp_all add: applyOne_def)
qed

section \<open>The loop\<close>

definition archive_fids :: "Op list \<Rightarrow> string list" where
  "archive_fids ops = map opFid (filter (\<lambda>op. opKind op = OpArchive \<and> opFid op \<noteq> []) ops)"

end
