(* ===== verification/Apply_World.thy ===== *)
theory Apply_World
  imports Apply_Facts
begin

text \<open>
  The world the executor runs in: an outside world (files and cloud) beside the program's own
  \<open>Store\<close>, whose operations answer the index calls. The locale \<open>index_world\<close> states what the
  executor relies on, and a simulated cloud shows that the composition with the store gives it.
\<close>

section \<open>The store beside the outside world\<close>

definition lift_call :: "('o \<Rightarrow> 'a \<times> 'o) \<Rightarrow> 'b Store \<times> 'o \<Rightarrow> 'a \<times> ('b Store \<times> 'o)" where
  "lift_call f w = (case f (snd w) of (r, o') \<Rightarrow> (r, (fst w, o')))"

definition with_store :: "'b bolt \<Rightarrow> 'o env \<Rightarrow> ('b Store \<times> 'o) env" where
  "with_store bk out =
     \<lparr>evStat = (\<lambda>w p. evStat out (snd w) p),
      evReadFile = (\<lambda>w p. evReadFile out (snd w) p),
      evWriteFile = (\<lambda>w p d. lift_call (\<lambda>o'. evWriteFile out o' p d) w),
      evMkdirAll = (\<lambda>w p. lift_call (\<lambda>o'. evMkdirAll out o' p) w),
      evRemove = (\<lambda>w p. (fst w, evRemove out (snd w) p)),
      evCreate = (\<lambda>w p. lift_call (\<lambda>o'. evCreate out o' p) w),
      evCopy = (\<lambda>w p. lift_call (\<lambda>o'. evCopy out o' p) w),
      evCacheMove = (case evCacheMove out of None \<Rightarrow> None
                     | Some f \<Rightarrow> Some (\<lambda>w p pc. lift_call (\<lambda>o'. f o' p pc) w)),
      evCreateFolder = (\<lambda>w a b c. lift_call (\<lambda>o'. evCreateFolder out o' a b c) w),
      evGetDirInfo = (\<lambda>w p. lift_call (\<lambda>o'. evGetDirInfo out o' p) w),
      evMoveFile = (\<lambda>w a b. lift_call (\<lambda>o'. evMoveFile out o' a b) w),
      evRenameFile = (\<lambda>w a b. lift_call (\<lambda>o'. evRenameFile out o' a b) w),
      evDeleteFile = (\<lambda>w a. lift_call (\<lambda>o'. evDeleteFile out o' a) w),
      evUpload = (\<lambda>w a b. lift_call (\<lambda>o'. evUpload out o' a b) w),
      evDownloadURL = (\<lambda>w a. lift_call (\<lambda>o'. evDownloadURL out o' a) w),
      evHttpGet = (\<lambda>w a. lift_call (\<lambda>o'. evHttpGet out o' a) w),
      evIdxGet = (\<lambda>w p. Get bk (fst w) p),
      evIdxPut = (\<lambda>w p r. (Put bk (fst w) p r, snd w)),
      evIdxStrmFids = (\<lambda>w c p. ListStrmFids bk (fst w) c p),
      evIdxClear = (\<lambda>w p. map_option (\<lambda>s. (s, snd w)) (ClearTree bk (fst w) [p]))\<rparr>"

lemma with_store_simps [simp]:
  "evStat (with_store bk out) w p = evStat out (snd w) p"
  "evReadFile (with_store bk out) w p = evReadFile out (snd w) p"
  "evWriteFile (with_store bk out) w p d = lift_call (\<lambda>o'. evWriteFile out o' p d) w"
  "evMkdirAll (with_store bk out) w p = lift_call (\<lambda>o'. evMkdirAll out o' p) w"
  "evRemove (with_store bk out) w p = (fst w, evRemove out (snd w) p)"
  "evCreateFolder (with_store bk out) w a b c = lift_call (\<lambda>o'. evCreateFolder out o' a b c) w"
  "evGetDirInfo (with_store bk out) w p = lift_call (\<lambda>o'. evGetDirInfo out o' p) w"
  "evMoveFile (with_store bk out) w a b = lift_call (\<lambda>o'. evMoveFile out o' a b) w"
  "evDeleteFile (with_store bk out) w a = lift_call (\<lambda>o'. evDeleteFile out o' a) w"
  "evCreate (with_store bk out) w p = lift_call (\<lambda>o'. evCreate out o' p) w"
  "evCopy (with_store bk out) w p = lift_call (\<lambda>o'. evCopy out o' p) w"
  "evCacheMove (with_store bk out) = (case evCacheMove out of None \<Rightarrow> None
     | Some f \<Rightarrow> Some (\<lambda>w p pc. lift_call (\<lambda>o'. f o' p pc) w))"
  "evRenameFile (with_store bk out) w a b = lift_call (\<lambda>o'. evRenameFile out o' a b) w"
  "evDownloadURL (with_store bk out) w a = lift_call (\<lambda>o'. evDownloadURL out o' a) w"
  "evHttpGet (with_store bk out) w a = lift_call (\<lambda>o'. evHttpGet out o' a) w"
  "evUpload (with_store bk out) w a b = lift_call (\<lambda>o'. evUpload out o' a b) w"
  "evIdxGet (with_store bk out) w p = Get bk (fst w) p"
  "evIdxPut (with_store bk out) w p r = (Put bk (fst w) p r, snd w)"
  "evIdxStrmFids (with_store bk out) w cx p = ListStrmFids bk (fst w) cx p"
  "evIdxClear (with_store bk out) w p = map_option (\<lambda>s. (s, snd w)) (ClearTree bk (fst w) [p])"
  by (simp_all add: with_store_def)

section \<open>What the executor relies on\<close>

text \<open>
  \<open>good\<close> worlds stay good; a put makes one record readable; deleting a tree forgets the
  record at its root; the other calls leave the index alone; a created folder has an id.
\<close>

locale index_world =
  fixes ev :: "'w env" and good :: "'w \<Rightarrow> bool"
  assumes put_get_world: "good w \<Longrightarrow> p \<noteq> [] \<Longrightarrow> length (rFid r) < 65536 \<Longrightarrow>
      good (evIdxPut ev w p r) \<and> evIdxGet ev (evIdxPut ev w p r) = (evIdxGet ev w)(p \<mapsto> r)"
    and clear_root: "good w \<Longrightarrow> \<exists>w'. evIdxClear ev w p = Some w' \<and> good w' \<and>
      (last p \<noteq> CHR ''/'' \<longrightarrow> evIdxGet ev w' p = None)"
    and create_index: "good w \<Longrightarrow> evCreateFolder ev w a b c = (di, w') \<Longrightarrow>
      good w' \<and> evIdxGet ev w' = evIdxGet ev w \<and> (\<forall>i. di = Some i \<longrightarrow> diFid i \<noteq> [] \<and> length (diFid i) < 65536)"
    and write_index: "good w \<Longrightarrow> evWriteFile ev w p d = (ok, w') \<Longrightarrow> good w' \<and> evIdxGet ev w' = evIdxGet ev w"
    and remove_index: "good w \<Longrightarrow> good (evRemove ev w p) \<and> evIdxGet ev (evRemove ev w p) = evIdxGet ev w"
    and cache_index: "good w \<Longrightarrow> evCacheMove ev = Some mv \<Longrightarrow> mv w p pc = (ok, w') \<Longrightarrow>
      good w' \<and> evIdxGet ev w' = evIdxGet ev w"
    and delete_index: "good w \<Longrightarrow> evDeleteFile ev w f = (ok, w') \<Longrightarrow> good w' \<and> evIdxGet ev w' = evIdxGet ev w"
begin

text \<open>Walking down a chain of directories leaves each of them in the index, and a second walk finds
  them all without a call.\<close>

lemma ensure_local_again:
  assumes "good (rnWorld s)" "\<forall>seg \<in> set segs. good_name seg" "\<forall>c \<in> set ls. good_name c"
    and "ensure_local ev segs fid (abs_path ls) cc s = Some (Some f, s')"
  shows "good (rnWorld s') \<and> rnCtx s' = rnCtx s \<and>
    (\<forall>k r. evIdxGet ev (rnWorld s) k = Some r \<and> rFid r \<noteq> [] \<longrightarrow> evIdxGet ev (rnWorld s') k = Some r) \<and>
    (\<forall>t. rnWorld t = rnWorld s' \<longrightarrow> ensure_local ev segs fid (abs_path ls) cc t = Some (Some f, t))"
  using assms
proof (induction segs arbitrary: fid ls cc s)
  case (Cons seg segs)
  let ?cl = "abs_path (ls @ [seg])" and ?cc = "cc @ ''/'' @ seg"
  have seg: "seg \<noteq> []" "path_join (abs_path ls) seg = ?cl" "\<forall>c \<in> set (ls @ [seg]). good_name c"
    using Cons.prems(2,3) by (auto simp: good_name_def)
  have ne: "?cl \<noteq> []" by (simp add: abs_path_def)
  show ?case
  proof (cases "idx_fid ev (rnWorld s) ?cl = []")
    case False
    then obtain r where r: "evIdxGet ev (rnWorld s) ?cl = Some r" "rFid r \<noteq> []" "idx_fid ev (rnWorld s) ?cl = rFid r"
      by (auto simp: idx_fid_def split: option.splits)
    have e: "ensure_local ev segs (rFid r) ?cl ?cc s = Some (Some f, s')"
      using Cons.prems(4) seg False r by (simp add: Let_def step_defs)
    note IH = Cons.IH [OF Cons.prems(1) _ seg(3) e]
    have "evIdxGet ev (rnWorld s') ?cl = Some r" using IH Cons.prems(2) r by auto
    then have "idx_fid ev (rnWorld s') ?cl = rFid r" by (simp add: idx_fid_def)
    then show ?thesis using IH Cons.prems(2) seg r(2) by (simp add: Let_def step_defs)
  next
    case True
    obtain ri w where cf: "evCreateFolder ev (rnWorld s) fid seg ?cc = (ri, w)" by fastforce
    then obtain i where i: "ri = Some i" using Cons.prems(4) seg True by (cases ri) (auto simp: Let_def step_defs)
    note ci = create_index [OF Cons.prems(1) cf]
    let ?r = "\<lparr>rFid = diFid i, rPickCode = [], rKind = KindDir, rSize = 0\<rparr>"
    let ?w = "evIdxPut ev w ?cl ?r"
    have pg: "good ?w \<and> evIdxGet ev ?w = (evIdxGet ev w)(?cl \<mapsto> ?r)"
      using put_get_world [of w ?cl ?r] ci i ne by simp
    have e: "ensure_local ev segs (diFid i) ?cl ?cc (s\<lparr>rnWorld := ?w\<rparr>) = Some (Some f, s')"
      using Cons.prems(4) seg True cf i by (simp add: Let_def step_defs)
    note IH = Cons.IH [OF _ _ seg(3) e]
    have keep: "evIdxGet ev ?w k = Some r" if "evIdxGet ev (rnWorld s) k = Some r" "rFid r \<noteq> []" for k r
      using that pg ci True by (auto simp: idx_fid_def split: if_splits option.splits)
    have "evIdxGet ev (rnWorld s') ?cl = Some ?r" using IH Cons.prems(2) pg ci i by auto
    then have "idx_fid ev (rnWorld s') ?cl = diFid i" by (simp add: idx_fid_def)
    then show ?thesis using IH Cons.prems(2) seg pg keep ci i by (simp add: Let_def step_defs)
  qed
qed (simp add: step_defs)

end

section \<open>A simulated cloud\<close>

datatype cloud_call = CMove string string | CDelete string | CCreate string string
  | CUpload string string | CRename string string | CLink string

record sim =
  smFiles :: "(string \<times> string) list"
  smCalls :: "cloud_call list"
  smInstant :: "(string \<times> string \<times> string) list"
  smBroken :: bool

definition sim_call :: "cloud_call \<Rightarrow> sim \<Rightarrow> sim" where
  "sim_call c w = w\<lparr>smCalls := smCalls w @ [c]\<rparr>"

definition sim_env :: "sim env" where
  "sim_env =
     \<lparr>evStat = (\<lambda>w p. case map_of (smFiles w) p of Some d \<Rightarrow> Inr (False, of_nat (length d)) | None \<Rightarrow> Inl FsNotExist),
      evReadFile = (\<lambda>w p. map_of (smFiles w) p),
      evWriteFile = (\<lambda>w p d. (True, w\<lparr>smFiles := AList.update p d (smFiles w)\<rparr>)),
      evMkdirAll = (\<lambda>w p. (True, w)),
      evRemove = (\<lambda>w p. w\<lparr>smFiles := AList.delete p (smFiles w)\<rparr>),
      evCreate = (\<lambda>w p. (True, w\<lparr>smFiles := AList.update p [] (smFiles w)\<rparr>)),
      evCopy = (\<lambda>w p. (\<not> smBroken w, w)),
      evCacheMove = None,
      evCreateFolder = (\<lambda>w pid n p. (Some \<lparr>diFid = CHR ''d'' # replicate (length (smCalls w) mod 100) (CHR ''1''),
          diName = n, diFileCount = 0, diFolderCount = 0\<rparr>, sim_call (CCreate pid n) w)),
      evGetDirInfo = (\<lambda>w p. (None, w)),
      evMoveFile = (\<lambda>w f t. (True, sim_call (CMove f t) w)),
      evRenameFile = (\<lambda>w f n. (Some n, sim_call (CRename f n) w)),
      evDeleteFile = (\<lambda>w f. (True, sim_call (CDelete f) w)),
      evUpload = (\<lambda>w p d. (Some (case map_of (smInstant w) p of Some r \<Rightarrow> r | None \<Rightarrow> (''u1'', ''abc1'')),
          sim_call (CUpload p d) w)),
      evDownloadURL = (\<lambda>w pc. (if smBroken w then None else Some ''u'', sim_call (CLink pc) w)),
      evHttpGet = (\<lambda>w u. (Some 200, w)),
      evIdxGet = (\<lambda>w p. None), evIdxPut = (\<lambda>w p r. w), evIdxStrmFids = (\<lambda>w c p. Some ([], c)),
      evIdxClear = (\<lambda>w p. Some w)\<rparr>"

lemma sim_env_simps [simp]:
  "evStat sim_env w p = (case map_of (smFiles w) p of Some d \<Rightarrow> Inr (False, of_nat (length d)) | None \<Rightarrow> Inl FsNotExist)"
  "evReadFile sim_env w p = map_of (smFiles w) p"
  "evWriteFile sim_env w p d = (True, w\<lparr>smFiles := AList.update p d (smFiles w)\<rparr>)"
  "evMkdirAll sim_env w p = (True, w)"
  "evRemove sim_env w p = w\<lparr>smFiles := AList.delete p (smFiles w)\<rparr>"
  "evCreate sim_env w p = (True, w\<lparr>smFiles := AList.update p [] (smFiles w)\<rparr>)"
  "evCopy sim_env w p = (\<not> smBroken w, w)"
  "evCacheMove sim_env = None"
  "evGetDirInfo sim_env w p = (None, w)"
  "evMoveFile sim_env w f t = (True, sim_call (CMove f t) w)"
  "evRenameFile sim_env w f n = (Some n, sim_call (CRename f n) w)"
  "evDeleteFile sim_env w f = (True, sim_call (CDelete f) w)"
  "evUpload sim_env w p d = (Some (case map_of (smInstant w) p of Some r \<Rightarrow> r | None \<Rightarrow> (''u1'', ''abc1'')),
     sim_call (CUpload p d) w)"
  "evDownloadURL sim_env w pc = (if smBroken w then None else Some ''u'', sim_call (CLink pc) w)"
  "evHttpGet sim_env w u = (Some 200, w)"
  by (simp_all add: sim_env_def)

lemma sim_call_simps [simp]:
  "smCalls (sim_call c w) = smCalls w @ [c]" "smFiles (sim_call c w) = smFiles w"
  "smInstant (sim_call c w) = smInstant w" "smBroken (sim_call c w) = smBroken w"
  by (simp_all add: sim_call_def)

type_synonym sim_world = "(string \<times> string) list Store \<times> sim"

definition sim_good :: "sim_world \<Rightarrow> bool" where
  "sim_good w \<longleftrightarrow> (\<exists>L. st_db (fst w) = Some L \<and> sorted_keys L)"

definition sim_run :: "(string \<times> string) list \<Rightarrow> sim \<Rightarrow> sim_world run" where
  "sim_run L o' = \<lparr>rnWorld = (\<lparr>st_db = Some L\<rparr>, o'), rnStats = zero_Stats, rnCtx = None, rnTotal = 0, rnDone = 0\<rparr>"

lemma al_put_get:
  assumes "st_db s = Some L" "sorted_keys L" "p \<noteq> []" "length (rFid r) < 65536"
  shows "(\<exists>L'. st_db (Put al_bolt s p r) = Some L' \<and> sorted_keys L') \<and>
    Get al_bolt (Put al_bolt s p r) = (Get al_bolt s)(p \<mapsto> r)"
  using assms sorted_al_put [of L p "encodeRecord r"] map_of_al_put [of L p "encodeRecord r"]
  by (auto simp: fun_eq_iff Get_def Put_def view_def update_def decode_encode)

lemma al_clear_root:
  assumes "st_db s = Some L" "sorted_keys L"
  shows "\<exists>s'. ClearTree al_bolt s [p] = Some s' \<and> (\<exists>L'. st_db s' = Some L' \<and> sorted_keys L') \<and>
    (last p \<noteq> CHR ''/'' \<longrightarrow> Get al_bolt s' p = None)"
proof -
  obtain s' L' where s': "ClearTree al_bolt s [p] = Some s'" "st_db s' = Some L'" "sorted_keys L'" "L' = cleared p L"
    using al.clear_tree_one [OF assms al_bolt_simps(2,3), of p] by auto
  have "Get al_bolt s' p = None" if "last p \<noteq> CHR ''/''"
  proof -
    have self: "trim_suffix (dirPrefix p) ''/'' = p" using that by (cases "p = []") (simp_all add: dirPrefix_def trim_suffix_def has_suffix_def)
    have "(p, v) \<notin> set (cleared p L)" for v
    proof
      assume v: "(p, v) \<in> set (cleared p L)"
      let ?rest = "dropWhile (\<lambda>q. fst q < p) L"
      have srt: "sorted_keys ?rest" using assms(2) by (rule sorted_keys_dropWhile)
      have "(p, v) \<notin> set (takeWhile (\<lambda>q. fst q < p) L)" by (auto dest: set_takeWhileD)
      then have d: "(p, v) \<in> set (dropWhile (\<lambda>q. in_subtree p (fst q)) ?rest)"
        using v by (auto simp: cleared_def Let_def self)
      then have m: "(p, v) \<in> set ?rest" by (auto dest: set_dropWhileD)
      then obtain q rs where rest: "?rest = q # rs" by (cases ?rest) auto
      have "p \<le> fst q" using hd_dropWhile [of "\<lambda>q. fst q < p" L] rest by (simp add: not_less)
      then have notin: "(p, v) \<notin> set rs" using srt rest by auto
      then have "q = (p, v)" using m rest by auto
      then have "dropWhile (\<lambda>q. in_subtree p (fst q)) ?rest = dropWhile (\<lambda>q. in_subtree p (fst q)) rs"
        using rest self by (simp add: in_subtree_def)
      then show False using d notin by (auto dest: set_dropWhileD)
    qed
    then show ?thesis using s' by (auto simp: Get_def view_def map_of_eq_None_iff split: option.splits dest: map_of_SomeD)
  qed
  then show ?thesis using s' by blast
qed

interpretation sim: index_world "with_store al_bolt sim_env" sim_good
proof (unfold_locales, goal_cases)
  case (1 w p r)
  then obtain L where "st_db (fst w) = Some L" "sorted_keys L" by (auto simp: sim_good_def)
  from al_put_get [OF this 1(2,3)] show ?case by (simp add: sim_good_def fun_eq_iff)
next
  case (2 w p)
  then obtain L where "st_db (fst w) = Some L" "sorted_keys L" by (auto simp: sim_good_def)
  from al_clear_root [OF this, of p] show ?case by (auto simp: sim_good_def)
next
  case (3 w a b c r w')
  have "100 \<noteq> (0 :: nat)" by simp
  then have "length (smCalls (snd w)) mod 100 < 100" by (simp only: mod_less_divisor)
  with 3 show ?case by (auto simp: sim_good_def lift_call_def sim_env_def)
qed (auto simp: sim_good_def lift_call_def)

end
