(* ===== verification/Apply_Props.thy ===== *)
theory Apply_Props
  imports Apply_World
begin

text \<open>
  The properties of the executor: the order of a plan, what failures do to the rest, how
  directories, replaced videos and deletions are carried out.
\<close>

section \<open>The order of a plan\<close>

lemma archive_fids_order: "archive_fids (order_ops ops) = archive_fids ops"
proof -
  have "OpKind_phase k = 4 \<longleftrightarrow> k = OpArchive" for k by (cases k) auto
  then have "filter (\<lambda>op. opKind op = OpArchive) (order_ops ops) = filter (\<lambda>op. opKind op = OpArchive) ops"
    using sort_key_stable [of "\<lambda>op. OpKind_phase (opKind op)" 4 ops] by (simp add: order_ops_def)
  then have "filter (\<lambda>op. opFid op \<noteq> []) (filter (\<lambda>op. opKind op = OpArchive) (order_ops ops)) =
      filter (\<lambda>op. opFid op \<noteq> []) (filter (\<lambda>op. opKind op = OpArchive) ops)" by simp
  then show ?thesis by (simp add: archive_fids_def conj_commute)
qed

text \<open>
  The phases of a plan, written out: clean-ups, new directories, uploads and adoptions, downloads and link
  corrections; within a phase the actions keep the order of the plan.
\<close>

definition of_kinds :: "OpKind list \<Rightarrow> Op list \<Rightarrow> Op list" where
  "of_kinds ks ops = filter (\<lambda>op. opKind op \<in> set ks) ops"

definition phased :: "Op list \<Rightarrow> Op list" where
  "phased ops =
     of_kinds [OpRetire, OpDrop] ops @ of_kinds [OpMkdir] ops @ of_kinds [OpUpload, OpAdopt] ops @
     of_kinds [OpDownload, OpNormalize] ops"

lemma sorted_phases:
  "sorted (map f xs) \<Longrightarrow> \<forall>x \<in> set xs. f x \<in> set ks \<Longrightarrow> sorted_wrt (<) ks \<Longrightarrow> xs = concat (map (\<lambda>k. filter (\<lambda>x. f x = k) xs) ks)"
  for f :: "'a \<Rightarrow> 'k :: linorder"
proof (induction ks arbitrary: xs)
  case (Cons k ks)
  let ?ys = "filter (\<lambda>x. f x \<noteq> k) xs"
  have xs: "xs = filter (\<lambda>x. f x = k) xs @ ?ys"
    using Cons.prems
  proof (induction xs)
    case (Cons x xs)
    show ?case
    proof (cases "f x = k")
      case False
      then have "k < f x" using Cons.prems by auto
      then have "\<forall>y \<in> set xs. f y \<noteq> k" using Cons.prems(1) by auto
      then have "filter (\<lambda>x. f x = k) xs = []" "filter (\<lambda>x. f x \<noteq> k) xs = xs" by (auto simp: filter_empty_conv filter_id_conv)
      with False show ?thesis by simp
    qed (use Cons in simp)
  qed simp
  have ys: "?ys = concat (map (\<lambda>m. filter (\<lambda>x. f x = m) ?ys) ks)"
    by (rule Cons.IH) (use Cons.prems in \<open>auto simp: sorted_filter\<close>)
  have "map (\<lambda>m. filter (\<lambda>x. f x = m) ?ys) ks = map (\<lambda>m. filter (\<lambda>x. f x = m) xs) ks"
    using Cons.prems(3) by (auto intro!: map_cong filter_cong)
  with ys have "?ys = concat (map (\<lambda>m. filter (\<lambda>x. f x = m) xs) ks)" by (simp only:)
  with xs show ?case by (simp only: list.map concat.simps)
qed simp

lemma order_ops_phases: "order_ops ops = phased ops @ of_kinds [OpArchive] ops"
proof -
  let ?f = "\<lambda>op. OpKind_phase (opKind op)"
  have k: "?f op \<in> set [0, 1, 2, 3, 4]" for op by (cases "opKind op") simp_all
  have "order_ops ops = concat (map (\<lambda>k. filter (\<lambda>op. ?f op = k) (order_ops ops)) [0, 1, 2, 3, 4])"
    by (rule sorted_phases) (use k in \<open>auto simp: order_ops_def\<close>)
  also have "\<dots> = concat (map (\<lambda>k. filter (\<lambda>op. ?f op = k) ops) [0, 1, 2, 3, 4])"
    by (simp add: order_ops_def sort_key_stable)
  finally have o: "order_ops ops = filter (\<lambda>op. ?f op = 0) ops @ filter (\<lambda>op. ?f op = 1) ops @ filter (\<lambda>op. ?f op = 2) ops @
      filter (\<lambda>op. ?f op = 3) ops @ filter (\<lambda>op. ?f op = 4) ops" by simp
  have ph: "?f op = 0 \<longleftrightarrow> opKind op \<in> set [OpRetire, OpDrop]" "?f op = 1 \<longleftrightarrow> opKind op \<in> set [OpMkdir]"
    "?f op = 2 \<longleftrightarrow> opKind op \<in> set [OpUpload, OpAdopt]" "?f op = 3 \<longleftrightarrow> opKind op \<in> set [OpDownload, OpNormalize]"
    "?f op = 4 \<longleftrightarrow> opKind op \<in> set [OpArchive]" for op by (cases "opKind op"; simp)+
  show ?thesis unfolding o phased_def of_kinds_def append_assoc ph ..
qed

text \<open>
  One action carried out: its handler ran, and what it returned decides only what is counted, one
  more failure, or one more transfer done. A run of actions is such a step for each of them, in order.
\<close>

definition carried_out :: "'w env \<Rightarrow> applier \<Rightarrow> LocalCfg \<Rightarrow> Op \<Rightarrow> 'w run \<Rightarrow> 'w run \<Rightarrow> bool" where
  "carried_out ev a cfg op s t \<longleftrightarrow>
     (\<exists>r u. apply_handler ev a cfg op s = Some (r, u) \<and>
       t = (if r = None then u\<lparr>rnStats := (rnStats u)\<lparr>sFailed := sFailed (rnStats u) + 1\<rparr>\<rparr>
            else if opKind op \<in> {OpUpload, OpAdopt, OpDownload} then u\<lparr>rnDone := rnDone u + 1\<rparr> else u))"

fun all_carried_out :: "'w env \<Rightarrow> applier \<Rightarrow> LocalCfg \<Rightarrow> Op list \<Rightarrow> 'w run \<Rightarrow> 'w run \<Rightarrow> bool" where
  "all_carried_out ev a cfg [] s t \<longleftrightarrow> t = s"
| "all_carried_out ev a cfg (op # ops) s t \<longleftrightarrow> (\<exists>u. carried_out ev a cfg op s u \<and> all_carried_out ev a cfg ops u t)"

lemma applyOne_carried: "applyOne ev a cfg op s = Some t \<Longrightarrow> carried_out ev a cfg op s t"
  unfolding carried_out_def
  by (cases "apply_handler ev a cfg op s"; cases "fst (the (apply_handler ev a cfg op s))")
     (auto simp: applyOne_def is_transfer_def intro!: exI)

lemma apply_loop_carried:
  assumes "total_index ev"
  shows "rnCtx s = None \<Longrightarrow> \<exists>t. apply_loop ev a cfg ops arch s = Some (Some (arch @ archive_fids ops), t) \<and>
    all_carried_out ev a cfg (filter (\<lambda>op. opKind op \<noteq> OpArchive) ops) s t"
proof (induction ops arbitrary: arch s)
  case (Cons op ops)
  have s: "s\<lparr>rnCtx := None\<rparr> = s" using Cons.prems by simp
  show ?case
  proof (cases "opKind op = OpArchive")
    case True
    then show ?thesis
      using Cons.IH [of s "if opFid op \<noteq> [] then arch @ [opFid op] else arch"] Cons.prems
      by (auto simp: archive_fids_def Let_def s)
  next
    case False
    obtain s2 where s2: "applyOne ev a cfg op s = Some s2" "rnCtx s2 = None"
      using applyOne_Some [OF assms, of a cfg op s] Cons.prems by auto
    obtain t where "apply_loop ev a cfg ops arch s2 = Some (Some (arch @ archive_fids ops), t)"
      "all_carried_out ev a cfg (filter (\<lambda>op. opKind op \<noteq> OpArchive) ops) s2 t" using Cons.IH [OF s2(2)] by blast
    then show ?thesis using False Cons.prems s2(1) applyOne_carried [OF s2(1)]
      by (auto simp: archive_fids_def Let_def s)
  qed
qed (simp add: archive_fids_def)

text \<open>Sample runs on the simulated cloud.\<close>

definition sample_applier :: applier where
  "sample_applier =
     \<lparr>apPaths = \<lparr>paLocalDir = ''/m'', paCloudDir = ''/c'', paCloudFid = ''10'', paTempFid = ''11'',
                 paStrmURL = ''http://h'', paCacheDir = []\<rparr>,
      apRules = NewRules (\<lambda>s. s) [''.mkv''] [], apAuth = (\<lambda>a. a = ''h'')\<rparr>"

definition sample_local_cfg :: LocalCfg where
  "sample_local_cfg = \<lparr>lcToStrm = True, lcToCache = False, lcExcludeDir = []\<rparr>"

definition broken_run :: "sim_world run" where
  "broken_run = sim_run [] \<lparr>smFiles = [], smCalls = [], smInstant = [], smBroken = True\<rparr>"

definition download_and_archive :: "Op list" where
  "download_and_archive =
     [(newOp OpDownload ''/m/d/f.txt'' [])\<lparr>opFid := ''7'', opPickCode := ''abc1''\<rparr>,
      (newOp OpArchive ''/c/d'' [])\<lparr>opFid := ''8''\<rparr>]"

definition calls_of :: "('a option \<times> sim_world run) option \<Rightarrow> (cloud_call list \<times> i64) option" where
  "calls_of r = map_option (\<lambda>(_, s). (smCalls (snd (rnWorld s)), sFailed (rnStats s))) r"

text \<open>C12. No action stops the others. When the index answers and the context is never cancelled, the
  handler of every action of the plan that is not an archiving runs, each from the state the one before left, whether that
  one failed or not: first the clean-ups, then new directories, uploads and adoptions, downloads and link
  corrections, in the order of the plan within each. A failure only adds one to the failures. The run ends by
  moving all archived items, of every archive action with an id and in plan order, in one call.\<close>

theorem Apply_runs_all:
  assumes "total_index ev" "rnCtx s = None"
  shows "\<exists>t. all_carried_out ev a cfg (phased ops) (s\<lparr>rnTotal := countWork ops, rnDone := 0\<rparr>) t \<and>
    Apply ev a cfg ops s = archiveAll ev a (archive_fids ops) t"
proof -
  let ?s = "s\<lparr>rnTotal := countWork ops, rnDone := 0\<rparr>"
  have "countWork (order_ops ops) = countWork ops"
    by (simp add: countWork_def order_ops_def filter_sort)
  moreover obtain t where t: "apply_loop ev a cfg (order_ops ops) [] ?s = Some (Some (archive_fids ops), t)"
    "all_carried_out ev a cfg (filter (\<lambda>op. opKind op \<noteq> OpArchive) (order_ops ops)) ?s t"
    using apply_loop_carried [OF assms(1), of ?s a cfg "order_ops ops" "[]"] assms(2) archive_fids_order by auto
  moreover have "filter (\<lambda>op. opKind op \<noteq> OpArchive) (order_ops ops) = phased ops"
    by (simp add: order_ops_phases phased_def of_kinds_def filter_empty_conv) (auto intro!: arg_cong2 [where f = append] filter_cong)
  ultimately show ?thesis by (auto simp: Apply_def Let_def step_bind_def)
qed

theorem Apply_runs_all_witness:
  "\<exists>t. carried_out sim_env sample_applier sample_local_cfg ((newOp OpDownload ''/m/d/f.txt'' [])\<lparr>opFid := ''7'', opPickCode := ''abc1''\<rparr>)
      \<lparr>rnWorld = \<lparr>smFiles = [], smCalls = [], smInstant = [], smBroken = True\<rparr>, rnStats = zero_Stats, rnCtx = None, rnTotal = 1, rnDone = 0\<rparr> t \<and>
    Apply sim_env sample_applier sample_local_cfg download_and_archive
      \<lparr>rnWorld = \<lparr>smFiles = [], smCalls = [], smInstant = [], smBroken = True\<rparr>, rnStats = zero_Stats, rnCtx = None, rnTotal = 0, rnDone = 0\<rparr> =
    archiveAll sim_env sample_applier [''8''] t"
proof -
  have "total_index sim_env" by (simp add: total_index_def sim_env_def)
  moreover have "archive_fids download_and_archive = [''8'']" "countWork download_and_archive = 1"
    "phased download_and_archive = [(newOp OpDownload ''/m/d/f.txt'' [])\<lparr>opFid := ''7'', opPickCode := ''abc1''\<rparr>]"
    by (simp_all add: archive_fids_def countWork_def is_transfer_def phased_def of_kinds_def download_and_archive_def newOp_def)
  ultimately show ?thesis
    using Apply_runs_all [of sim_env "\<lparr>rnWorld = \<lparr>smFiles = [], smCalls = [], smInstant = [], smBroken = True\<rparr>, rnStats = zero_Stats, rnCtx = None, rnTotal = 0, rnDone = 0\<rparr>"
        sample_applier sample_local_cfg download_and_archive] by auto
qed

text \<open>Archiving does not wait for success: when the only download of a plan fails, the run
  counts one failure, and still moves the directory it should have downloaded from to the
  recycle directory.\<close>

theorem archive_despite_failure:
  "calls_of (Apply (with_store al_bolt sim_env) sample_applier sample_local_cfg download_and_archive broken_run) =
   Some ([CLink ''abc1'', CMove ''8'' ''11''], 1)"
  by (simp add: calls_of_def Apply_def order_ops_def download_and_archive_def Let_def applyOne_def apply_handler_def
      apply_download_def DownloadCloudFile_def archiveAll_def Retire_def step_defs lift_call_def broken_run_def
      sim_run_def is_transfer_def sample_applier_def zero_Stats_def count_deleted_def)

end
