(* ===== verification/Store_Activity.thy ===== *)
theory Store_Activity
  imports Store_Bucket Activity_Types
begin

text \<open>
  The activity stream of \<open>internal/store/activity.go\<close>: events in a second bucket of the same
  database, under their sequence number as eight big-endian bytes. Beside the operations of
  \<open>bolt\<close> it uses the ends of a cursor, the number of keys and the bucket's sequence (record
  \<open>log_bolt\<close>); the JSON encoding of an event is the record \<open>codec\<close>.
\<close>

section \<open>Operations\<close>

record 'b log_bolt =
  lb_bolt :: "'b bolt"
  lb_first :: "'b \<Rightarrow> (string \<times> string) option"
  lb_last :: "'b \<Rightarrow> (string \<times> string) option"
  lb_prev :: "'b \<Rightarrow> string \<Rightarrow> (string \<times> string) option"
  lb_count :: "'b \<Rightarrow> nat"
  lb_next_seq :: "'b \<Rightarrow> (u64 \<times> 'b) option"

record codec =
  cd_marshal :: "Event \<Rightarrow> string option"
  cd_unmarshal :: "string \<Rightarrow> Event option"

text \<open>
  A write transaction with a result: without a connection the function does not run and the error is the
  context's, if any. \<open>None\<close> is an error, after which the database is as before.
\<close>

definition update_with ::
  "'b bolt \<Rightarrow> ctx \<Rightarrow> 'b Store \<Rightarrow> 'a \<Rightarrow> ('b \<Rightarrow> ('a \<times> 'b) option) \<Rightarrow> ('a option \<times> ctx) \<times> 'b Store" where
  "update_with bk c s a0 fn =
     (case st_db s of
        None \<Rightarrow> (case ctx_check c of (stop, c') \<Rightarrow> ((if stop then None else Some a0, c'), s))
      | Some b \<Rightarrow>
          if \<not> bk_begin bk b then ((None, c), s)
          else (case fn b of
                  None \<Rightarrow> ((None, c), s)
                | Some (a, b') \<Rightarrow>
                    if bk_commit bk b' then ((Some a, c), s\<lparr>st_db := Some b'\<rparr>) else ((None, c), s)))"

definition encodeSeqKey :: "u64 \<Rightarrow> string" where
  "encodeSeqKey seq = be_bytes 8 (unat seq)"

fun prune_loop :: "'b log_bolt \<Rightarrow> nat \<Rightarrow> 'b \<Rightarrow> 'b option" where
  "prune_loop lb 0 b = Some b"
| "prune_loop lb (Suc n) b =
     (case lb_first lb b of
        None \<Rightarrow> Some b
      | Some (k, _) \<Rightarrow>
          (case bk_delete (lb_bolt lb) b k of None \<Rightarrow> None | Some b' \<Rightarrow> prune_loop lb n b'))"

definition prune :: "'b log_bolt \<Rightarrow> 'b Store \<Rightarrow> 'b Store" where
  "prune lb s = update (lb_bolt lb) s (\<lambda>b.
     let total = lb_count lb b in
     if total \<le> maxEvents then Some b else prune_loop lb (total - maxEvents) b)"

text \<open>The event gets the current time, cut to milliseconds; the result is its number or an error.\<close>

definition Append ::
  "'b log_bolt \<Rightarrow> codec \<Rightarrow> int \<Rightarrow> ctx \<Rightarrow> 'b Store \<Rightarrow> Event \<Rightarrow> (u64 option \<times> ctx) \<times> 'b Store" where
  "Append lb cd now c s e0 =
     (let e = e0\<lparr>eTime := now\<rparr> in
      case update_with (lb_bolt lb) c s 0 (\<lambda>b.
             case lb_next_seq lb b of
               None \<Rightarrow> None
             | Some (seq, b1) \<Rightarrow>
                 (case cd_marshal cd e of
                    None \<Rightarrow> None
                  | Some raw \<Rightarrow> map_option (\<lambda>b2. (seq, b2)) (bk_put (lb_bolt lb) b1 (encodeSeqKey seq) raw))) of
        ((None, c'), s') \<Rightarrow> ((None, c'), s')
      | ((Some seq, c'), s') \<Rightarrow> ((Some seq, c'), prune lb s'))"

definition seq_of_key :: "string \<Rightarrow> u64" where
  "seq_of_key k = of_nat (be_value (take 8 k))"

text \<open>
  The loop of \<open>List\<close>, from the newest pair backwards: what is still to skip, and the page so far.
\<close>

definition wanted :: "string \<Rightarrow> Event \<Rightarrow> bool" where
  "wanted taskID e \<longleftrightarrow> taskID = [] \<or> eTaskID e = taskID"

partial_function (option) list_loop ::
  "'b log_bolt \<Rightarrow> codec \<Rightarrow> string \<Rightarrow> int \<Rightarrow> 'b \<Rightarrow> (string \<times> string) option \<Rightarrow> int \<Rightarrow> Event list \<Rightarrow>
   Event list option" where
  "list_loop lb cd taskID limit b cur skip out =
     (case cur of
        None \<Rightarrow> Some out
      | Some (k, v) \<Rightarrow>
          (case cd_unmarshal cd v of
             None \<Rightarrow> list_loop lb cd taskID limit b (lb_prev lb b k) skip out
           | Some e \<Rightarrow>
               if \<not> wanted taskID e then list_loop lb cd taskID limit b (lb_prev lb b k) skip out
               else if 0 < skip then list_loop lb cd taskID limit b (lb_prev lb b k) (skip - 1) out
               else if limit \<le> int (length out) then Some out
               else list_loop lb cd taskID limit b (lb_prev lb b k) skip (out @ [e\<lparr>eSeq := seq_of_key k\<rparr>])))"

declare list_loop.simps [code]

definition page_limit :: "int \<Rightarrow> int" where
  "page_limit limit = (if limit \<le> 0 then 1000 else limit)"

definition List_events :: "'b log_bolt \<Rightarrow> codec \<Rightarrow> 'b Store \<Rightarrow> string \<Rightarrow> int \<Rightarrow> int \<Rightarrow> Event list option" where
  "List_events lb cd s taskID offset limit =
     view (lb_bolt lb) s (Some [])
       (\<lambda>b. list_loop lb cd taskID (page_limit limit) b (lb_last lb b) offset [])"

text \<open>The loop of \<open>DeleteTask\<close>: an inner \<open>None\<close> is a failed delete.\<close>

partial_function (option) delete_loop ::
  "'b log_bolt \<Rightarrow> codec \<Rightarrow> string \<Rightarrow> 'b \<Rightarrow> (string \<times> string) option \<Rightarrow> 'b option option" where
  "delete_loop lb cd taskID b cur =
     (case cur of
        None \<Rightarrow> Some (Some b)
      | Some (k, v) \<Rightarrow>
          (case cd_unmarshal cd v of
             None \<Rightarrow> delete_loop lb cd taskID b (bk_next (lb_bolt lb) b k)
           | Some e \<Rightarrow>
               if eTaskID e = taskID then
                 (case bk_delete (lb_bolt lb) b k of
                    None \<Rightarrow> Some None
                  | Some b' \<Rightarrow> delete_loop lb cd taskID b' (bk_next (lb_bolt lb) b' k))
               else delete_loop lb cd taskID b (bk_next (lb_bolt lb) b k)))"

declare delete_loop.simps [code]

definition DeleteTask ::
  "'b log_bolt \<Rightarrow> codec \<Rightarrow> ctx \<Rightarrow> 'b Store \<Rightarrow> string \<Rightarrow> ((unit option \<times> ctx) \<times> 'b Store) option" where
  "DeleteTask lb cd c s taskID =
     (case st_db s of
        None \<Rightarrow> Some (update_with (lb_bolt lb) c s () (\<lambda>_. None))
      | Some b \<Rightarrow>
          if \<not> bk_begin (lb_bolt lb) b then Some ((None, c), s)
          else map_option (\<lambda>r. update_with (lb_bolt lb) c s () (\<lambda>_. map_option (Pair ()) r))
                 (delete_loop lb cd taskID b (lb_first lb b)))"

end
