(* ===== verification/Activity_Facts.thy ===== *)
theory Activity_Facts
  imports Store_Activity
begin

text \<open>
  The activity stream over a bucket that keeps bbolt's promises: the locale \<open>log_bucket\<close> extends
  \<open>bucket\<close> with what the stream uses, the three loops are followed on the sorted list of
  pairs, and a reference bucket with a sequence number interprets the locale.
\<close>

section \<open>Order of the keys\<close>

lemma append_less_append_eq:
  "length s = length t \<Longrightarrow> s @ u < t @ v \<longleftrightarrow> s < t \<or> s = t \<and> u < (v :: string)"
  by (induction s t rule: list_induct2) auto

lemma be_value_less: "length s = length t \<Longrightarrow> s < t \<longleftrightarrow> be_value s < be_value t"
proof (induction s arbitrary: t rule: rev_induct)
  case (snoc c s)
  then obtain t' d where t: "t = t' @ [d]" "length s = length t'" by (cases t rule: rev_cases) auto
  have "be_value s = be_value t' \<longleftrightarrow> s = t'"
    using be_bytes_be_value [of s] be_bytes_be_value [of t'] t(2) by metis
  moreover have "x * 256 + of_char c < y * 256 + of_char d \<longleftrightarrow> x < y \<or> x = y \<and> c < d" for x y :: nat
  proof -
    have "(of_char c :: nat) < 256" "(of_char d :: nat) < 256" by simp_all
    then show ?thesis unfolding less_char_def by (cases x y rule: linorder_cases) linarith+
  qed
  ultimately show ?case
    using snoc.IH [OF t(2)] t by (simp add: append_less_append_eq)
qed simp

lemma encodeSeqKey_less [simp]: "encodeSeqKey m < encodeSeqKey n \<longleftrightarrow> m < n"
proof -
  have "unat m < 256 ^ 8" "unat n < 256 ^ 8" using unsigned_less [of m] unsigned_less [of n] by simp_all
  then show ?thesis
    using be_value_less [of "encodeSeqKey m" "encodeSeqKey n"]
    by (simp add: encodeSeqKey_def be_value_be_bytes word_less_nat_alt)
qed

lemma encodeSeqKey_not_Nil [simp]: "encodeSeqKey n \<noteq> []"
  using length_be_bytes [of 8 "unat n"] unfolding encodeSeqKey_def by (metis list.size(3) zero_neq_numeral)

lemma seq_of_encodeSeqKey [simp]: "seq_of_key (encodeSeqKey n) = n"
proof -
  have "unat n < 256 ^ 8" using unsigned_less [of n] by simp
  then show ?thesis by (simp add: seq_of_key_def encodeSeqKey_def be_value_be_bytes)
qed

lemma less_succ: "n < - 1 \<Longrightarrow> n < n + (1 :: u64)"
proof -
  assume "n < - 1"
  then have "unat n < unat (- 1 :: u64)" by (simp only: word_less_nat_alt)
  then have "unat n + 1 < 2 ^ 64" by (simp add: unsigned_minus_1_eq_mask mask_eq_exp_minus_1)
  then show ?thesis by (simp add: word_less_nat_alt unat_word_ariths)
qed

lemma sorted_keys_fst: "sorted_keys L \<Longrightarrow> sorted (map fst L) \<and> distinct (map fst L)"
  by (induction L) auto

lemma sorted_keys_unique:
  assumes "sorted_keys L" "sorted_keys M" "map_of L = map_of M"
  shows "L = M"
proof -
  have keys: "map fst L = map fst M"
  proof (rule sorted_distinct_set_unique)
    show "set (map fst L) = set (map fst M)" using assms(3) by (simp flip: dom_map_of_conv_image_fst)
  qed (use sorted_keys_fst assms in auto)
  have "L = map (\<lambda>k. (k, the (map_of L k))) (map fst L)" if "sorted_keys L" for L :: "(string \<times> string) list"
  proof -
    have "map (\<lambda>p. (fst p, the (map_of L (fst p)))) L = L"
      by (rule map_idI) (use sorted_keys_fst [OF that] in \<open>auto dest: map_of_is_SomeI\<close>)
    then show ?thesis by (simp add: comp_def)
  qed
  from this [OF assms(1)] this [OF assms(2)] show ?thesis unfolding keys assms(3) by (rule trans [OF _ sym])
qed

section \<open>Events of a bucket\<close>

definition decode_pair :: "codec \<Rightarrow> string \<times> string \<Rightarrow> Event option" where
  "decode_pair cd p = map_option (\<lambda>e. e\<lparr>eSeq := seq_of_key (fst p)\<rparr>) (cd_unmarshal cd (snd p))"

definition events_of :: "codec \<Rightarrow> (string \<times> string) list \<Rightarrow> Event list" where
  "events_of cd L = List.map_filter (decode_pair cd) L"

lemma events_of_simps [simp]:
  "events_of cd [] = []"
  "events_of cd (p # L) = (case decode_pair cd p of None \<Rightarrow> events_of cd L | Some e \<Rightarrow> e # events_of cd L)"
  "events_of cd (L @ M) = events_of cd L @ events_of cd M"
  by (simp_all add: events_of_def map_filter_def split: option.splits)

lemma events_of_rev: "events_of cd (rev L) = rev (events_of cd L)"
  by (simp add: events_of_def map_filter_def rev_map rev_filter)

text \<open>The pairs \<open>DeleteTask\<close> removes.\<close>

definition of_task :: "codec \<Rightarrow> string \<Rightarrow> string \<times> string \<Rightarrow> bool" where
  "of_task cd taskID p \<longleftrightarrow> (\<exists>e. cd_unmarshal cd (snd p) = Some e \<and> eTaskID e = taskID)"

lemma wanted_seq [simp]: "wanted t (e\<lparr>eSeq := n\<rparr>) = wanted t e"
  by (simp add: wanted_def)

lemma wanted_after_delete:
  "t \<noteq> [] \<Longrightarrow> filter (wanted t) (events_of cd (filter (\<lambda>p. \<not> of_task cd taskID p) L)) =
    (if t = taskID then [] else filter (wanted t) (events_of cd L))"
  by (induction L) (auto simp: of_task_def decode_pair_def wanted_def split: option.splits)

section \<open>What the stream relies on\<close>

text \<open>A database on which every transaction goes through.\<close>

definition healthy :: "'b log_bolt \<Rightarrow> ('b \<Rightarrow> bool) \<Rightarrow> bool" where
  "healthy lb ok \<longleftrightarrow> (\<forall>b. ok b \<longrightarrow> bk_begin (lb_bolt lb) b \<and> bk_commit (lb_bolt lb) b \<and> lb_next_seq lb b \<noteq> None \<and>
     (\<forall>k v. k \<noteq> [] \<longrightarrow> bk_put (lb_bolt lb) b k v \<noteq> None))"

text \<open>Every key is a sequence number that was given out.\<close>

definition log_ok :: "('b \<Rightarrow> bool) \<Rightarrow> ('b \<Rightarrow> (string \<times> string) list) \<Rightarrow> ('b \<Rightarrow> u64) \<Rightarrow> 'b \<Rightarrow> bool" where
  "log_ok ok kv sq b \<longleftrightarrow> ok b \<and> (\<forall>p \<in> set (kv b). \<exists>n. fst p = encodeSeqKey n \<and> n \<le> sq b)"

locale log_bucket = bucket "lb_bolt lb" ok kv
  for lb :: "'b log_bolt" and ok :: "'b \<Rightarrow> bool" and kv :: "'b \<Rightarrow> (string \<times> string) list" +
  fixes sq :: "'b \<Rightarrow> u64"
  assumes first_law: "ok b \<Longrightarrow> lb_first lb b = head_of (kv b)"
    and last_law: "ok b \<Longrightarrow> lb_last lb b = head_of (rev (kv b))"
    and prev_law: "ok b \<Longrightarrow> lb_prev lb b k = find (\<lambda>p. fst p < k) (rev (kv b))"
    and count_law: "ok b \<Longrightarrow> lb_count lb b = length (kv b)"
    and seq_law: "ok b \<Longrightarrow> lb_next_seq lb b = Some (n, b') \<Longrightarrow> ok b' \<and> kv b' = kv b \<and> n = sq b + 1 \<and> sq b' = n"
    and put_seq: "ok b \<Longrightarrow> bk_put (lb_bolt lb) b k v = Some b' \<Longrightarrow> sq b' = sq b"
    and delete_seq: "ok b \<Longrightarrow> bk_delete (lb_bolt lb) b k = Some b' \<Longrightarrow> sq b' = sq b"
begin

lemma prev_at:
  assumes "ok b" "kv b = pre @ (k, v) # post"
  shows "lb_prev lb b k = head_of (rev pre)"
proof -
  have srt: "sorted_keys (pre @ (k, v) # post)" using assms kv_sorted by metis
  then have "\<forall>p \<in> set ((k, v) # post). \<not> fst p < k" by (fastforce simp: sorted_wrt_append)
  then have "find (\<lambda>p. fst p < k) (rev post @ (k, v) # rev pre) = find (\<lambda>p. fst p < k) (rev pre)"
    by (induction post rule: rev_induct) auto
  moreover have "find (\<lambda>p. fst p < k) (rev pre) = head_of (rev pre)"
  proof -
    have below: "\<forall>p \<in> set (rev pre). fst p < k" using srt by (simp add: sorted_wrt_append)
    show ?thesis by (cases "rev pre") (use below in auto)
  qed
  ultimately show ?thesis using assms prev_law by simp
qed

lemma list_loop_page:
  assumes "ok b" "kv b = pre @ post" "int (length out) \<le> limit"
  shows "list_loop lb cd taskID limit b (head_of (rev pre)) skip out =
    Some (out @ take (nat limit - length out) (drop (nat skip) (filter (wanted taskID) (rev (events_of cd pre)))))"
  using assms
proof (induction pre arbitrary: post skip out rule: rev_induct)
  case Nil
  then show ?case by (subst list_loop.simps) simp
next
  case (snoc p pre)
  obtain k v where p: "p = (k, v)" by fastforce
  have kv: "kv b = pre @ (k, v) # post" using snoc.prems(2) p by simp
  note IH = snoc.IH [OF snoc.prems(1) kv]
  have prev: "lb_prev lb b k = head_of (rev pre)" by (rule prev_at [OF snoc.prems(1) kv])
  show ?case
  proof (cases "cd_unmarshal cd v")
    case None
    then show ?thesis using IH [OF snoc.prems(3)] p prev
      by (subst list_loop.simps) (simp add: decode_pair_def)
  next
    case (Some e)
    let ?e = "e\<lparr>eSeq := seq_of_key k\<rparr>"
    have w: "wanted taskID ?e = wanted taskID e" by (simp add: wanted_def)
    have ev: "rev (events_of cd (pre @ [p])) = ?e # rev (events_of cd pre)"
      using Some p by (simp add: decode_pair_def)
    consider "\<not> wanted taskID e" | "wanted taskID e" "0 < skip"
      | "wanted taskID e" "skip \<le> 0" "limit \<le> int (length out)"
      | "wanted taskID e" "skip \<le> 0" "int (length out) < limit" by linarith
    then show ?thesis
    proof cases
      case 1
      then show ?thesis using IH [OF snoc.prems(3)] p prev Some w ev by (subst list_loop.simps) simp
    next
      case 2
      then have "nat skip = Suc (nat (skip - 1))" by simp
      then show ?thesis using 2 IH [OF snoc.prems(3)] p prev Some w ev by (subst list_loop.simps) simp
    next
      case 3
      then show ?thesis using p Some by (subst list_loop.simps) simp
    next
      case 4
      then have n: "nat limit - length out = Suc (nat limit - length (out @ [?e]))" "nat skip = 0" by auto
      have "int (length (out @ [?e])) \<le> limit" using 4 by simp
      from IH [OF this, of "skip"] show ?thesis
        using 4 p prev Some w ev n by (subst list_loop.simps) simp
    qed
  qed
qed

lemma list_page:
  assumes "st_db s = Some b" "ok b" "bk_begin (lb_bolt lb) b"
  shows "List_events lb cd s taskID offset limit =
    Some (take (nat (page_limit limit)) (drop (nat offset) (filter (wanted taskID) (rev (events_of cd (kv b))))))"
proof -
  have "int (length ([] :: Event list)) \<le> page_limit limit" by (simp add: page_limit_def)
  from list_loop_page [OF assms(2) _ this, of "kv b" "[]"] assms show ?thesis
    by (simp add: List_events_def view_def last_law)
qed

lemma delete_loop_list:
  assumes "ok b" "kv b = pre @ rest"
  shows "\<exists>b'. delete_loop lb cd taskID b (head_of rest) = Some (Some b') \<and> ok b' \<and> sq b' = sq b \<and>
    kv b' = pre @ filter (\<lambda>p. \<not> of_task cd taskID p) rest"
  using assms
proof (induction rest arbitrary: b pre)
  case Nil
  then show ?case by (subst delete_loop.simps) simp
next
  case (Cons p rest)
  obtain k v where p: "p = (k, v)" by fastforce
  have srt: "sorted_keys (pre @ (k, v) # rest)" using Cons.prems kv_sorted p by metis
  show ?case
  proof (cases "of_task cd taskID p")
    case False
    have "bk_next (lb_bolt lb) b k = head_of rest"
      using next_law [OF Cons.prems(1)] Cons.prems(2) p find_next [OF srt] by simp
    moreover have "kv b = (pre @ [p]) @ rest" using Cons.prems(2) by simp
    ultimately show ?thesis using False p Cons.IH [OF Cons.prems(1), of "pre @ [p]"]
      by (subst delete_loop.simps) (auto simp: of_task_def split: option.splits)
  next
    case True
    obtain b' where b': "bk_delete (lb_bolt lb) b k = Some b'" "ok b'" "kv b' = filter (\<lambda>p. fst p \<noteq> k) (kv b)"
      using delete_law [OF Cons.prems(1), of k] Cons.prems(2) p by force
    have kvb': "kv b' = pre @ rest" using b'(3) Cons.prems(2) p filter_other_keys [OF srt] by simp
    have nx: "bk_next (lb_bolt lb) b' k = head_of rest"
      using next_law [OF b'(2)] kvb' find_next_gone [OF srt] by simp
    have "sq b' = sq b" by (rule delete_seq [OF Cons.prems(1) b'(1)])
    then show ?thesis using True p b'(1) nx Cons.IH [OF b'(2) kvb']
      by (subst delete_loop.simps) (auto simp: of_task_def)
  qed
qed

lemma prune_loop_list:
  assumes "ok b" "n \<le> length (kv b)"
  shows "\<exists>b'. prune_loop lb n b = Some b' \<and> ok b' \<and> sq b' = sq b \<and> kv b' = drop n (kv b)"
  using assms
proof (induction n arbitrary: b)
  case (Suc n)
  then obtain k v rest where kv: "kv b = (k, v) # rest" by (cases "kv b") auto
  have srt: "sorted_keys ([] @ (k, v) # rest)" using Suc.prems(1) kv kv_sorted by fastforce
  obtain b' where b': "bk_delete (lb_bolt lb) b k = Some b'" "ok b'" "kv b' = filter (\<lambda>p. fst p \<noteq> k) (kv b)"
    using delete_law [OF Suc.prems(1), of k] kv by force
  have kvb': "kv b' = rest" using b'(3) kv filter_other_keys [OF srt] by simp
  have "n \<le> length (kv b')" using Suc.prems(2) kv kvb' by simp
  from Suc.IH [OF b'(2) this] show ?case
    using b'(1) kv kvb' delete_seq [OF Suc.prems(1) b'(1)] first_law [OF Suc.prems(1)] by auto
qed simp

lemma append_exact:
  assumes "healthy lb ok" "st_db s = Some b" "log_ok ok kv sq b" "sq b < - 1" "cd_marshal cd (e\<lparr>eTime := now\<rparr>) = Some raw"
  shows "\<exists>b'. Append lb cd now c s e = ((Some (sq b + 1), c), s\<lparr>st_db := Some b'\<rparr>) \<and> log_ok ok kv sq b' \<and> sq b' = sq b + 1 \<and>
    kv b' = (let L = kv b @ [(encodeSeqKey (sq b + 1), raw)] in drop (length L - maxEvents) L)"
proof -
  let ?n = "sq b + 1"
  have ok: "ok b" using assms(3) by (simp add: log_ok_def)
  have up: "sq b < ?n" using assms(4) by (rule less_succ)
  obtain b1 where b1: "lb_next_seq lb b = Some (?n, b1)" "ok b1" "kv b1 = kv b" "sq b1 = ?n"
  proof -
    have "lb_next_seq lb b \<noteq> None" using assms(1) ok unfolding healthy_def by blast
    then obtain n b1 where n: "lb_next_seq lb b = Some (n, b1)" by auto
    from seq_law [OF ok n] n that show ?thesis by simp
  qed
  obtain b2 where b2: "bk_put (lb_bolt lb) b1 (encodeSeqKey ?n) raw = Some b2"
  proof -
    have "bk_put (lb_bolt lb) b1 (encodeSeqKey ?n) raw \<noteq> None"
      using assms(1) b1(2) encodeSeqKey_not_Nil [of ?n] unfolding healthy_def by blast
    then show ?thesis using that by blast
  qed
  have ok2: "ok b2" and map2: "map_of (kv b2) = (map_of (kv b))(encodeSeqKey ?n \<mapsto> raw)" and sq2: "sq b2 = ?n"
    using put_law [OF b1(2) b2] put_seq [OF b1(2) b2] b1(3,4) by simp_all
  have above: "fst p < encodeSeqKey ?n" if "p \<in> set (kv b)" for p
    using assms(3) that up by (force simp: log_ok_def)
  have kv2: "kv b2 = kv b @ [(encodeSeqKey ?n, raw)]"
  proof (rule sorted_keys_unique)
    show "sorted_keys (kv b @ [(encodeSeqKey ?n, raw)])"
      using kv_sorted [OF ok] above by (simp add: sorted_wrt_append)
    have "encodeSeqKey ?n \<notin> fst ` set (kv b)" using above by (metis imageE less_irrefl)
    then have "map_of (kv b) (encodeSeqKey ?n) = None" by (simp only: map_of_eq_None_iff not_False_eq_True)
    then show "map_of (kv b2) = map_of (kv b @ [(encodeSeqKey ?n, raw)])"
      unfolding map2 by (intro ext) (simp add: map_add_def split: option.split)
  qed (rule kv_sorted [OF ok2])
  have "n \<le> ?n" if "n \<le> sq b" for n using that up by (rule order.trans [OF _ less_imp_le])
  then have ok_log2: "log_ok ok kv sq b2" using assms(3) ok2 unfolding log_ok_def kv2 sq2 by fastforce
  let ?L = "kv b @ [(encodeSeqKey ?n, raw)]"
  obtain b3 where b3: "prune lb (s\<lparr>st_db := Some b2\<rparr>) = s\<lparr>st_db := Some b3\<rparr>" "ok b3" "sq b3 = ?n"
    "kv b3 = drop (length ?L - maxEvents) ?L"
  proof (cases "length ?L \<le> maxEvents")
    case True
    then show ?thesis using that [of b2] ok2 sq2 kv2 count_law [OF ok2] by (auto simp: prune_def update_def)
  next
    case False
    then obtain b3 where "prune_loop lb (length ?L - maxEvents) b2 = Some b3" "ok b3" "sq b3 = sq b2"
      "kv b3 = drop (length ?L - maxEvents) ?L"
      using prune_loop_list [OF ok2, of "length ?L - maxEvents"] kv2 by auto
    moreover have "bk_begin (lb_bolt lb) b2" "bk_commit (lb_bolt lb) b3"
      using assms(1) ok2 calculation(2) by (auto simp: healthy_def)
    ultimately show ?thesis using that [of b3] False kv2 sq2 count_law [OF ok2] by (simp add: prune_def update_def)
  qed
  have "bk_begin (lb_bolt lb) b" "bk_commit (lb_bolt lb) b2" using assms(1) ok ok2 by (auto simp: healthy_def)
  then have "Append lb cd now c s e = ((Some ?n, c), s\<lparr>st_db := Some b3\<rparr>)"
    using assms(2,5) b1(1) b2 b3(1) by (simp add: Append_def update_with_def Let_def)
  moreover have "log_ok ok kv sq b3"
    using ok_log2 b3 kv2 sq2 in_set_dropD by (fastforce simp: log_ok_def)
  ultimately show ?thesis using b3 by (auto simp: Let_def)
qed

lemma delete_task_exact:
  assumes "st_db s = Some b" "ok b" "bk_begin (lb_bolt lb) b" "\<And>b. ok b \<Longrightarrow> bk_commit (lb_bolt lb) b"
  shows "\<exists>b'. DeleteTask lb cd c s taskID = Some ((Some (), c), s\<lparr>st_db := Some b'\<rparr>) \<and> ok b' \<and> sq b' = sq b \<and>
    kv b' = filter (\<lambda>p. \<not> of_task cd taskID p) (kv b)"
proof -
  obtain b' where "delete_loop lb cd taskID b (head_of (kv b)) = Some (Some b')" "ok b'" "sq b' = sq b"
    "kv b' = filter (\<lambda>p. \<not> of_task cd taskID p) (kv b)"
    using delete_loop_list [OF assms(2), of "[]" "kv b"] by auto
  then show ?thesis using assms by (auto simp: DeleteTask_def update_with_def first_law)
qed

end

section \<open>A reference bucket with a sequence\<close>

definition al_log :: "((string \<times> string) list \<times> u64) log_bolt" where
  "al_log =
     \<lparr>lb_bolt =
        \<lparr>bk_get = (\<lambda>b. bk_get al_bolt (fst b)),
         bk_put = (\<lambda>b k v. map_option (\<lambda>L. (L, snd b)) (bk_put al_bolt (fst b) k v)),
         bk_delete = (\<lambda>b k. map_option (\<lambda>L. (L, snd b)) (bk_delete al_bolt (fst b) k)),
         bk_seek = (\<lambda>b. bk_seek al_bolt (fst b)), bk_next = (\<lambda>b. bk_next al_bolt (fst b)),
         bk_begin = (\<lambda>_. True), bk_commit = (\<lambda>_. True)\<rparr>,
      lb_first = (\<lambda>b. head_of (fst b)), lb_last = (\<lambda>b. head_of (rev (fst b))),
      lb_prev = (\<lambda>b k. find (\<lambda>p. fst p < k) (rev (fst b))), lb_count = (\<lambda>b. length (fst b)),
      lb_next_seq = (\<lambda>b. Some (snd b + 1, (fst b, snd b + 1)))\<rparr>"

interpretation alog: log_bucket al_log "\<lambda>b. sorted_keys (fst b)" fst snd
proof (unfold_locales, goal_cases)
  case (5 b k v b')
  then show ?case using al.put_law [of "fst b" k v] by (auto simp: al_log_def split: if_splits)
qed (auto simp: al_log_def sorted_wrt_filter)

end
