(* ===== verification/Activity_Props.thy ===== *)
theory Activity_Props
  imports Activity_Facts
begin

text \<open>
  The properties of the activity stream: appending keeps the latest events, a page is a slice of
  the newest-first list, and deleting a task forgets its events only.
\<close>

section \<open>A sample stream\<close>

text \<open>A codec that keeps the task and a file name of an event is enough to follow the stream.\<close>

definition sample_event :: "string \<Rightarrow> Event" where
  "sample_event task =
     \<lparr>eSeq = 0, eTime = 0, eTaskID = task, eTaskName = [], eScope = ScopeUpload, eTrigger = TriggerCron,
      eState = StateSuccess, eStats = zero_Stats, eDurationMs = 0, eError = [], ePlanOnly = False,
      eOpCounts = [], eSamplePaths = []\<rparr>"

definition sample_codec :: codec where
  "sample_codec = \<lparr>cd_marshal = (\<lambda>e. Some (eTaskID e)), cd_unmarshal = (\<lambda>v. Some (sample_event v))\<rparr>"

definition sample_log :: "((string \<times> string) list \<times> u64) Store" where
  "sample_log = \<lparr>st_db = Some ([(encodeSeqKey 1, ''a''), (encodeSeqKey 2, ''b''), (encodeSeqKey 3, ''a'')], 3)\<rparr>"

lemma al_log_healthy: "healthy al_log (\<lambda>b. sorted_keys (fst b))"
  by (simp add: healthy_def al_log_def)

lemma sample_log_ok:
  "log_ok (\<lambda>b. sorted_keys (fst b)) fst snd
     ([(encodeSeqKey 1, ''a''), (encodeSeqKey 2, ''b''), (encodeSeqKey 3, ''a'')], 3)"
proof -
  have "(1 :: u64) < 2" "(1 :: u64) < 3" "(2 :: u64) < 3" "(1 :: u64) \<le> 3" "(2 :: u64) \<le> 3" by simp_all
  then show ?thesis by (auto simp: log_ok_def)
qed

text \<open>C23. Recording an event. On a healthy database, an event whose encoding can be read back gets the
  next sequence number; the stream afterwards is the stream before with the event at its end,
  cut at the front to its 5000 latest entries; and the event is what the newest-first list
  starts with.\<close>

theorem Append_keeps_latest:
  assumes "log_bucket lb ok kv sq" "healthy lb ok" "st_db s = Some b" "log_ok ok kv sq b" "sq b < - 1"
    and "cd_marshal cd (e\<lparr>eTime := now\<rparr>) = Some raw" "cd_unmarshal cd raw = Some (e\<lparr>eTime := now\<rparr>)"
  shows "\<exists>b'. Append lb cd now c s e = ((Some (sq b + 1), c), s\<lparr>st_db := Some b'\<rparr>) \<and> log_ok ok kv sq b' \<and>
    kv b' = (let L = kv b @ [(encodeSeqKey (sq b + 1), raw)] in drop (length L - maxEvents) L) \<and>
    length (kv b') \<le> maxEvents \<and>
    List_events lb cd (s\<lparr>st_db := Some b'\<rparr>) [] 0 1 = Some [e\<lparr>eTime := now, eSeq := sq b + 1\<rparr>]"
proof -
  let ?L = "kv b @ [(encodeSeqKey (sq b + 1), raw)]" and ?e = "e\<lparr>eTime := now, eSeq := sq b + 1\<rparr>"
  obtain b' where ap: "Append lb cd now c s e = ((Some (sq b + 1), c), s\<lparr>st_db := Some b'\<rparr>)"
    and ok: "log_ok ok kv sq b'" and kv: "kv b' = drop (length ?L - maxEvents) ?L"
    using log_bucket.append_exact [OF assms(1-6), where c = c] by (auto simp: Let_def)
  have "kv b' = drop (length ?L - maxEvents) (kv b) @ [(encodeSeqKey (sq b + 1), raw)]"
    using kv by (simp add: maxEvents_def)
  then have "rev (events_of cd (kv b')) = ?e # rev (events_of cd (drop (length ?L - maxEvents) (kv b)))"
    using assms(7) by (simp add: decode_pair_def)
  moreover have "ok b'" "bk_begin (lb_bolt lb) b'" using ok assms(2) by (auto simp: log_ok_def healthy_def)
  ultimately have "List_events lb cd (s\<lparr>st_db := Some b'\<rparr>) [] 0 1 = Some [?e]"
    using log_bucket.list_page [OF assms(1), of "s\<lparr>st_db := Some b'\<rparr>" b' cd "[]" 0 1]
    by (simp add: wanted_def page_limit_def)
  moreover have "length (kv b') \<le> maxEvents" using kv by (simp add: kv)
  ultimately show ?thesis using ap ok kv by (auto simp: Let_def)
qed

theorem Append_keeps_latest_witness:
  "\<exists>b'. Append al_log sample_codec 0 None sample_log (sample_event ''c'') = ((Some 4, None), \<lparr>st_db = Some b'\<rparr>) \<and>
     map snd (fst b') = [''a'', ''b'', ''a'', ''c'']"
  using Append_keeps_latest [OF alog.log_bucket_axioms al_log_healthy _ sample_log_ok, where s = sample_log and cd = sample_codec and e = "sample_event ''c''" and now = 0 and raw = "''c''" and c = None]
  by (auto simp: sample_log_def sample_codec_def sample_event_def maxEvents_def Let_def)

text \<open>A page of the activity stream is a slice: of the events of the wanted task (of all tasks for an empty id),
  newest first, it skips \<open>offset\<close> and keeps at most \<open>limit\<close>, 1000 when no positive limit is
  given; entries that cannot be decoded do not count.\<close>

theorem List_events_page:
  assumes "log_bucket lb ok kv sq" "st_db s = Some b" "ok b" "bk_begin (lb_bolt lb) b"
  shows "List_events lb cd s taskID offset limit =
    Some (take (nat (page_limit limit)) (drop (nat offset) (filter (wanted taskID) (rev (events_of cd (kv b))))))"
  by (rule log_bucket.list_page [OF assms])

theorem List_events_page_witness:
  "map_option (map eSeq) (List_events al_log sample_codec sample_log ''a'' 1 5) = Some [1]"
proof -
  let ?b = "([(encodeSeqKey 1, ''a''), (encodeSeqKey 2, ''b''), (encodeSeqKey 3, ''a'')], 3 :: u64)"
  have "st_db sample_log = Some ?b" "sorted_keys (fst ?b)" "bk_begin (lb_bolt al_log) ?b"
    using sample_log_ok by (simp_all add: sample_log_def log_ok_def al_log_def)
  from List_events_page [OF alog.log_bucket_axioms this, of sample_codec "''a''" 1 5] show ?thesis
    by (simp add: decode_pair_def sample_codec_def sample_event_def wanted_def page_limit_def)
qed

text \<open>Deleting a task's history. On a healthy database it succeeds, afterwards no page of the task
  shows an event, every page of another task is what it was, and the sequence goes on from
  where it was.\<close>

theorem DeleteTask_exact:
  assumes "log_bucket lb ok kv sq" "healthy lb ok" "st_db s = Some b" "ok b" "taskID \<noteq> []"
  shows "\<exists>b'. DeleteTask lb cd c s taskID = Some ((Some (), c), s\<lparr>st_db := Some b'\<rparr>) \<and> ok b' \<and> sq b' = sq b \<and>
    (\<forall>t offset limit. t \<noteq> [] \<longrightarrow> List_events lb cd (s\<lparr>st_db := Some b'\<rparr>) t offset limit =
       (if t = taskID then Some [] else List_events lb cd s t offset limit))"
proof -
  have h: "ok b \<Longrightarrow> bk_begin (lb_bolt lb) b \<and> bk_commit (lb_bolt lb) b" for b
    using assms(2) by (simp add: healthy_def)
  obtain b' where b': "DeleteTask lb cd c s taskID = Some ((Some (), c), s\<lparr>st_db := Some b'\<rparr>)" "ok b'" "sq b' = sq b"
    "kv b' = filter (\<lambda>p. \<not> of_task cd taskID p) (kv b)"
    using log_bucket.delete_task_exact [OF assms(1,3,4), where c = c and cd = cd and taskID = taskID] h assms(4) by auto
  have "List_events lb cd (s\<lparr>st_db := Some b'\<rparr>) t offset limit =
       (if t = taskID then Some [] else List_events lb cd s t offset limit)" if "t \<noteq> []" for t offset limit
    using that wanted_after_delete [OF that, of cd taskID "kv b"] h [OF b'(2)] h [OF assms(4)]
      log_bucket.list_page [OF assms(1), of "s\<lparr>st_db := Some b'\<rparr>" b' cd t offset limit]
      log_bucket.list_page [OF assms(1,3,4), of cd t offset limit] b'(2,4)
    by (simp flip: rev_filter)
  then show ?thesis using b' by blast
qed

theorem DeleteTask_exact_witness:
  "\<exists>s'. DeleteTask al_log sample_codec None sample_log ''a'' = Some ((Some (), None), s') \<and>
     List_events al_log sample_codec s' ''a'' 0 0 = Some [] \<and>
     List_events al_log sample_codec s' ''b'' 0 0 = List_events al_log sample_codec sample_log ''b'' 0 0"
proof -
  obtain b where b: "st_db sample_log = Some b" "sorted_keys (fst b)"
    using sample_log_ok by (simp add: sample_log_def log_ok_def)
  from DeleteTask_exact [OF alog.log_bucket_axioms al_log_healthy b, where taskID = "''a''" and cd = sample_codec and c = None]
  show ?thesis by auto
qed

end
