(* ===== verification/Task_Conf.thy ===== *)
theory Task_Conf
  imports Go_Path
begin

text \<open>
  Package \<open>internal/conf\<close>: the tasks and their switches (\<open>task.go\<close>), the configuration with its
  guarded changes (\<open>config.go\<close>) and the settings a user edits (\<open>settings.go\<close>). Every change
  ends by writing the file; whether the write succeeds is the argument \<open>save\<close>. The
  password hash (bcrypt) and fresh task ids are arguments too. The lock makes each operation
  one step. Go's \<open>int\<close> is \<open>int\<close> here: the fields are only compared with 0.
\<close>

section \<open>Tasks (task.go)\<close>

record CronOpts =
  coEnabled :: bool
  coIntervalHours :: int

record Task =
  tkID :: string
  tkName :: string
  tkEnabled :: bool
  tkLocalDir :: string
  tkCloudDir :: string
  tkUpload :: bool
  tkWatch :: bool
  tkQuietMinutes :: int
  tkInstantNow :: bool
  tkToStrm :: bool
  tkToCache :: bool
  tkDownload :: bool
  tkArchive :: bool
  tkToStrmDl :: bool
  tkCron :: CronOpts

definition UploadEnabled :: "Task \<Rightarrow> bool" where "UploadEnabled t \<longleftrightarrow> tkUpload t"
definition DownloadEnabled :: "Task \<Rightarrow> bool" where "DownloadEnabled t \<longleftrightarrow> tkDownload t \<or> tkArchive t"
definition WatchEnabled :: "Task \<Rightarrow> bool" where "WatchEnabled t \<longleftrightarrow> tkUpload t \<and> tkWatch t"

definition defaultQuietMinutes :: int where "defaultQuietMinutes = 10"
definition defaultCronHours :: int where "defaultCronHours = 12"

definition QuietWindow :: "Task \<Rightarrow> int" where
  "QuietWindow t = (if tkQuietMinutes t \<le> 0 then defaultQuietMinutes else tkQuietMinutes t)"

definition CronInterval :: "Task \<Rightarrow> int" where
  "CronInterval t = (if coIntervalHours (tkCron t) \<le> 0 then defaultCronHours else coIntervalHours (tkCron t))"

definition normalize :: "Task \<Rightarrow> Task" where
  "normalize t =
     (let t1 = (if tkUpload t then t\<lparr>tkArchive := False\<rparr> else t\<lparr>tkWatch := False, tkInstantNow := False\<rparr>);
          t2 = (if tkQuietMinutes t1 < 0 then t1\<lparr>tkQuietMinutes := 0\<rparr> else t1)
      in if coIntervalHours (tkCron t2) < 0 then t2\<lparr>tkCron := (tkCron t2)\<lparr>coIntervalHours := 0\<rparr>\<rparr> else t2)"

datatype conf_error =
  NameEmpty | LocalNotAbs | CloudNotAbs | NoDirection | InTask string conf_error | DupName string
  | LocalConflict string string | CloudConflict string string
  | NoSuchTask string | SaveFailed | PasswordNeeded | HashFailed

text \<open>A check: \<open>None\<close> is success.\<close>

definition Validate :: "Task \<Rightarrow> conf_error option" where
  "Validate t =
     (if trim_space (tkName t) = [] then Some NameEmpty
      else if \<not> is_abs (tkLocalDir t) then Some LocalNotAbs
      else if \<not> has_prefix (tkCloudDir t) ''/'' then Some CloudNotAbs
      else if \<not> tkEnabled t then None
      else if \<not> UploadEnabled t \<and> \<not> DownloadEnabled t then Some NoDirection
      else None)"

definition overlapClean :: "string \<Rightarrow> string \<Rightarrow> char \<Rightarrow> bool" where
  "overlapClean a b sep \<longleftrightarrow> a = b \<or> has_prefix a (b @ [sep]) \<or> has_prefix b (a @ [sep])"

definition CleanCloudDir :: "string \<Rightarrow> string" where
  "CleanCloudDir p = (let q = trim_right (CHR ''/'') p in if q = [] then ''/'' else q)"

text \<open>The first overlapping pair, in the order of the two nested loops.\<close>

fun overlap_with :: "string \<Rightarrow> string list \<Rightarrow> string option" where
  "overlap_with a [] = None"
| "overlap_with a (b # bs) = (if overlapClean a b (CHR ''/'') then Some b else overlap_with a bs)"

fun first_overlap :: "string list \<Rightarrow> (string \<times> string) option" where
  "first_overlap [] = None"
| "first_overlap (a # as) =
     (case overlap_with a as of Some b \<Rightarrow> Some (a, b) | None \<Rightarrow> first_overlap as)"

definition validateOverlaps :: "Task list \<Rightarrow> conf_error option" where
  "validateOverlaps tasks =
     (case first_overlap (map (\<lambda>t. path_clean (tkLocalDir t)) tasks) of
        Some (a, b) \<Rightarrow> Some (LocalConflict a b)
      | None \<Rightarrow>
          (case first_overlap (map (\<lambda>t. CleanCloudDir (tkCloudDir t)) tasks) of
             Some (a, b) \<Rightarrow> Some (CloudConflict a b)
           | None \<Rightarrow> None))"

fun check_each :: "string list \<Rightarrow> Task list \<Rightarrow> conf_error option" where
  "check_each seen [] = None"
| "check_each seen (t # ts) =
     (case Validate t of
        Some e \<Rightarrow> Some (InTask (tkName t) e)
      | None \<Rightarrow>
          if tkName t \<in> set seen then Some (DupName (tkName t)) else check_each (tkName t # seen) ts)"

definition validateTasks :: "Task list \<Rightarrow> conf_error option" where
  "validateTasks tasks =
     (case check_each [] tasks of Some e \<Rightarrow> Some e | None \<Rightarrow> validateOverlaps tasks)"

text \<open>\<open>NewID\<close>: eight random bytes in hexadecimal, or the time when there are none (\<open>None\<close>).\<close>

definition hex_lower :: "string \<Rightarrow> string" where
  "hex_lower s = concat (map (\<lambda>c. [digit_char ((of_char c :: nat) div 16), digit_char ((of_char c :: nat) mod 16)]) s)"

definition NewID :: "string option \<Rightarrow> nat \<Rightarrow> string" where
  "NewID random now = ''t_'' @ (case random of None \<Rightarrow> format_uint 16 now | Some b \<Rightarrow> hex_lower b)"

section \<open>The configuration (config.go)\<close>

record Auth =
  auUsername :: string
  auPasswordHash :: string

record Settings =
  seStrmURL :: string
  seTempDir :: string
  seCacheDir :: string
  seOfflineDir :: string
  seCacheRetentionDays :: int
  seVideoExts :: "string list"
  seUploadExclude :: "string list"
  seAuth :: Auth

record TokenData =
  tdAccessToken :: string
  tdRefreshToken :: string
  tdExpireAt :: int

record Config =
  cfSettings :: Settings
  cfTasks :: "Task list"
  cfToken :: TokenData

definition DefaultCacheRetentionDays :: int where "DefaultCacheRetentionDays = 1"

definition DefaultVideoExts :: "string list" where "DefaultVideoExts = [''.mp4'', ''.mkv'']"

definition normalizeLocked :: "Config \<Rightarrow> Config" where
  "normalizeLocked c =
     (let s = cfSettings c;
          s1 = (if seVideoExts s = [] then s\<lparr>seVideoExts := DefaultVideoExts\<rparr> else s);
          s2 = (if seCacheRetentionDays s1 \<le> 0 then s1\<lparr>seCacheRetentionDays := DefaultCacheRetentionDays\<rparr> else s1)
      in c\<lparr>cfSettings := s2, cfTasks := map normalize (cfTasks c)\<rparr>)"

text \<open>\<open>New\<close> on a file that was read and parsed.\<close>

definition load_config :: "Settings \<Rightarrow> Task list \<Rightarrow> TokenData \<Rightarrow> Config" where
  "load_config s ts td = normalizeLocked \<lparr>cfSettings = s, cfTasks = ts, cfToken = td\<rparr>"

text \<open>
  A change returns the new configuration and the error, if any. A failed write leaves the
  change in memory, as in the code.
\<close>

type_synonym change = "conf_error option \<times> Config"

definition persistLocked :: "(Config \<Rightarrow> bool) \<Rightarrow> Config \<Rightarrow> change" where
  "persistLocked save c = (if save c then None else Some SaveFailed, c)"

definition commitLocked :: "(Config \<Rightarrow> bool) \<Rightarrow> Task list \<Rightarrow> Config \<Rightarrow> change" where
  "commitLocked save nxt c =
     (case validateTasks nxt of
        Some e \<Rightarrow> (Some e, c)
      | None \<Rightarrow> persistLocked save (normalizeLocked (c\<lparr>cfTasks := nxt\<rparr>)))"

text \<open>The first index with the id; the code's -1 is \<open>None\<close>.\<close>

fun index_of_task :: "string \<Rightarrow> Task list \<Rightarrow> nat option" where
  "index_of_task i [] = None"
| "index_of_task i (t # ts) = (if tkID t = i then Some 0 else map_option Suc (index_of_task i ts))"

definition AddTask :: "(Config \<Rightarrow> bool) \<Rightarrow> string \<Rightarrow> Task \<Rightarrow> Config \<Rightarrow> change" where
  "AddTask save fresh t c =
     (let t1 = (if tkID t = [] then t\<lparr>tkID := fresh\<rparr> else t)
      in commitLocked save (cfTasks c @ [normalize t1]) c)"

definition UpdateTask :: "(Config \<Rightarrow> bool) \<Rightarrow> Task \<Rightarrow> Config \<Rightarrow> change" where
  "UpdateTask save t c =
     (case index_of_task (tkID t) (cfTasks c) of
        None \<Rightarrow> (Some (NoSuchTask (tkID t)), c)
      | Some i \<Rightarrow> commitLocked save ((cfTasks c)[i := normalize t]) c)"

definition RemoveTask :: "(Config \<Rightarrow> bool) \<Rightarrow> string \<Rightarrow> Config \<Rightarrow> change" where
  "RemoveTask save i c =
     (case index_of_task i (cfTasks c) of
        None \<Rightarrow> (Some (NoSuchTask i), c)
      | Some k \<Rightarrow> persistLocked save (c\<lparr>cfTasks := take k (cfTasks c) @ drop (Suc k) (cfTasks c)\<rparr>))"

definition GetTask :: "string \<Rightarrow> Config \<Rightarrow> Task option" where
  "GetTask i c = map_option (\<lambda>k. cfTasks c ! k) (index_of_task i (cfTasks c))"

definition ListTasks :: "Config \<Rightarrow> Task list" where
  "ListTasks c = cfTasks c"

definition SaveToken :: "(Config \<Rightarrow> bool) \<Rightarrow> int \<Rightarrow> string \<Rightarrow> string \<Rightarrow> int \<Rightarrow> Config \<Rightarrow> change" where
  "SaveToken save now access refresh expiresIn c =
     (let td = (cfToken c)\<lparr>tdAccessToken := access\<rparr>;
          td1 = (if refresh \<noteq> [] then td\<lparr>tdRefreshToken := refresh\<rparr> else td)
      in persistLocked save (c\<lparr>cfToken := td1\<lparr>tdExpireAt := now + expiresIn\<rparr>\<rparr>))"

definition Status_missing :: "Config \<Rightarrow> string list" where
  "Status_missing c =
     (if tdRefreshToken (cfToken c) = [] then [''refresh_token''] else []) @
     (if seStrmURL (cfSettings c) = [] then [''strm_url''] else []) @
     (if seTempDir (cfSettings c) = [] then [''temp_dir''] else []) @
     (if seCacheDir (cfSettings c) = [] then [''cache_dir''] else [])"

section \<open>Editing the settings (settings.go)\<close>

record Editable =
  edStrmURL :: string
  edTempDir :: string
  edCacheDir :: string
  edOfflineDir :: string
  edCacheRetentionDays :: int
  edVideoExts :: "string list"
  edUploadExclude :: "string list"
  edAuthUsername :: string
  edAuthPassword :: string
  edRefreshToken :: string
  edHasRefreshToken :: bool

definition Snapshot :: "Config \<Rightarrow> Editable" where
  "Snapshot c =
     (let s = cfSettings c in
      \<lparr>edStrmURL = seStrmURL s, edTempDir = seTempDir s, edCacheDir = seCacheDir s,
       edOfflineDir = seOfflineDir s, edCacheRetentionDays = seCacheRetentionDays s,
       edVideoExts = seVideoExts s, edUploadExclude = seUploadExclude s,
       edAuthUsername = auUsername (seAuth s), edAuthPassword = [], edRefreshToken = [],
       edHasRefreshToken = (tdRefreshToken (cfToken c) \<noteq> [])\<rparr>)"

definition GetAuth :: "Config \<Rightarrow> string \<times> string" where
  "GetAuth c = (auUsername (seAuth (cfSettings c)), auPasswordHash (seAuth (cfSettings c)))"

definition AuthRequired :: "Config \<Rightarrow> bool" where
  "AuthRequired c \<longleftrightarrow> fst (GetAuth c) \<noteq> []"

text \<open>\<open>bcrypt\<close> is a function that may fail; the outer option is the error.\<close>

definition hashPasswordIfChanged :: "(string \<Rightarrow> string option) \<Rightarrow> string \<Rightarrow> string \<Rightarrow> string option" where
  "hashPasswordIfChanged bcrypt username password =
     (if username = [] \<or> password = [] then Some [] else bcrypt password)"

definition normalizeExts :: "(string \<Rightarrow> string) \<Rightarrow> string list \<Rightarrow> bool \<Rightarrow> string list" where
  "normalizeExts ul ins padDot =
     fold (\<lambda>e0 out.
       let e1 = to_lower ul (trim_space e0) in
       if e1 = [] then out
       else
         let e2 = (if padDot \<and> \<not> has_prefix e1 ''.'' then CHR ''.'' # e1 else e1)
         in if e2 \<in> set out then out else out @ [e2]) ins []"

definition Update ::
  "(Config \<Rightarrow> bool) \<Rightarrow> (string \<Rightarrow> string option) \<Rightarrow> (string \<Rightarrow> string) \<Rightarrow> Editable \<Rightarrow> Config \<Rightarrow> change" where
  "Update save bcrypt ul e c =
     (if edAuthUsername e \<noteq> [] \<and> edAuthPassword e = [] \<and> fst (GetAuth c) = [] then (Some PasswordNeeded, c)
      else case hashPasswordIfChanged bcrypt (edAuthUsername e) (edAuthPassword e) of
        None \<Rightarrow> (Some HashFailed, c)
      | Some newHash \<Rightarrow>
          let old = cfSettings c;
              auth = (if edAuthUsername e = [] then \<lparr>auUsername = [], auPasswordHash = []\<rparr>
                      else if newHash \<noteq> [] then \<lparr>auUsername = edAuthUsername e, auPasswordHash = newHash\<rparr>
                      else (seAuth old)\<lparr>auUsername := edAuthUsername e\<rparr>);
              s = \<lparr>seStrmURL = edStrmURL e, seTempDir = edTempDir e, seCacheDir = edCacheDir e,
                   seOfflineDir = edOfflineDir e, seCacheRetentionDays = edCacheRetentionDays e,
                   seVideoExts = normalizeExts ul (edVideoExts e) True,
                   seUploadExclude = normalizeExts ul (edUploadExclude e) False, seAuth = auth\<rparr>;
              td = (if edRefreshToken e \<noteq> [] then (cfToken c)\<lparr>tdRefreshToken := edRefreshToken e\<rparr>
                    else cfToken c)
          in persistLocked save (normalizeLocked (c\<lparr>cfSettings := s, cfToken := td\<rparr>)))"

end
