(* ===== verification/Conf_Props.thy ===== *)
theory Conf_Props
  imports Task_Conf "HOL-Library.Sublist"
begin

text \<open>
  The properties of the configuration: validity as an invariant of every change, what the
  overlap check means for directory trees and where it fails, and how secrets survive an edit.
\<close>

section \<open>What validation accepts\<close>

lemma overlap_with_None: "overlap_with a bs = None \<longleftrightarrow> (\<forall>b \<in> set bs. \<not> overlapClean a b (CHR ''/''))"
  by (induction bs) auto

lemma first_overlap_None:
  "first_overlap xs = None \<longleftrightarrow> sorted_wrt (\<lambda>a b. \<not> overlapClean a b (CHR ''/'')) xs"
  by (induction xs) (auto simp: overlap_with_None [symmetric] split: option.splits)

lemma check_each_None:
  "check_each seen ts = None \<longleftrightarrow>
     (\<forall>t \<in> set ts. Validate t = None) \<and> distinct (map tkName ts) \<and> set seen \<inter> tkName ` set ts = {}"
  by (induction ts arbitrary: seen) (auto split: option.splits)

lemma validateTasks_None:
  "validateTasks ts = None \<longleftrightarrow>
     (\<forall>t \<in> set ts. Validate t = None) \<and> distinct (map tkName ts) \<and>
     sorted_wrt (\<lambda>a b. \<not> overlapClean a b (CHR ''/'')) (map (\<lambda>t. path_clean (tkLocalDir t)) ts) \<and>
     sorted_wrt (\<lambda>a b. \<not> overlapClean a b (CHR ''/'')) (map (\<lambda>t. CleanCloudDir (tkCloudDir t)) ts)"
  unfolding first_overlap_None [symmetric] using check_each_None [of "[]" ts]
  by (auto simp: validateTasks_def validateOverlaps_def split: option.splits)

lemma normalize_fields [simp]:
  "tkID (normalize t) = tkID t" "tkName (normalize t) = tkName t" "tkLocalDir (normalize t) = tkLocalDir t"
  "tkCloudDir (normalize t) = tkCloudDir t" "tkUpload (normalize t) = tkUpload t"
  "tkDownload (normalize t) = tkDownload t" "tkEnabled (normalize t) = tkEnabled t"
  "tkArchive (normalize t) = (tkArchive t \<and> \<not> tkUpload t)" "tkWatch (normalize t) = (tkWatch t \<and> tkUpload t)"
  by (auto simp: normalize_def Let_def)

lemma normalize_idem [simp]: "normalize (normalize t) = normalize t"
  by (auto simp: normalize_def Let_def)

section \<open>The invariant\<close>

text \<open>
  What it means that directories do not overlap: no path lies in two of them. The root, which contains
  every path, is left out: the program compares paths as texts and does not see that it contains the others
  (\<open>root_overlap_accepted\<close>); it only never accepts it twice.
\<close>

definition inside :: "string \<Rightarrow> string \<Rightarrow> bool" where
  "inside x d \<longleftrightarrow> x = d \<or> has_prefix x (d @ ''/'')"

definition dirs_apart :: "string list \<Rightarrow> bool" where
  "dirs_apart ds \<longleftrightarrow> distinct ds \<and>
     sorted_wrt (\<lambda>a b. a \<noteq> ''/'' \<and> b \<noteq> ''/'' \<longrightarrow> \<not> (\<exists>x. inside x a \<and> inside x b)) ds"

lemma inside_both:
  assumes "inside x a" "inside x b"
  shows "overlapClean a b (CHR ''/'')"
proof -
  have below: "a = b \<or> has_prefix a (b @ ''/'') \<or> has_prefix b (a @ ''/'')"
    if a: "has_prefix x (a @ ''/'')" and b: "has_prefix x (b @ ''/'')" and len: "length b \<le> length a" for a b
  proof -
    obtain s where s: "x = a @ ''/'' @ s" using a by (auto simp: has_prefix_iff)
    obtain t where t: "x = b @ ''/'' @ t" using b by (auto simp: has_prefix_iff)
    have "prefix b a" using s t len by (metis prefixI prefix_length_prefix)
    then obtain us where us: "a = b @ us" by (rule prefixE)
    with s t have "us @ ''/'' @ s = ''/'' @ t" by simp
    with us show ?thesis by (cases us) (auto simp: has_prefix_iff)
  qed
  show ?thesis
  proof (cases "x = a \<or> x = b")
    case True
    then show ?thesis using assms unfolding inside_def overlapClean_def by blast
  next
    case False
    then have "has_prefix x (a @ ''/'')" "has_prefix x (b @ ''/'')" using assms unfolding inside_def by blast+
    then show ?thesis using below [of a b] below [of b a] unfolding overlapClean_def by (cases "length b \<le> length a") auto
  qed
qed

lemma apart_of_clean: "sorted_wrt (\<lambda>a b. \<not> overlapClean a b (CHR ''/'')) ds \<Longrightarrow> dirs_apart ds"
proof (induction ds)
  case (Cons d ds)
  then have "d \<notin> set ds" "\<forall>b \<in> set ds. \<not> (\<exists>x. inside x d \<and> inside x b)"
    using inside_both by (auto simp: overlapClean_def)
  then show ?case using Cons by (auto simp: dirs_apart_def)
qed (simp add: dirs_apart_def)

lemma dirs_apart_remove: "dirs_apart (xs @ d # ys) \<Longrightarrow> dirs_apart (xs @ ys)"
  by (auto simp: dirs_apart_def sorted_wrt_append)

text \<open>
  A good configuration: every task valid and in normal form, names and ids distinct, local and cloud
  directories apart, and the defaults filled in.
\<close>

definition conf_ok :: "Config \<Rightarrow> bool" where
  "conf_ok c \<longleftrightarrow>
     (\<forall>t \<in> set (cfTasks c). Validate t = None) \<and> distinct (map tkName (cfTasks c)) \<and>
     dirs_apart (map (\<lambda>t. path_clean (tkLocalDir t)) (cfTasks c)) \<and>
     dirs_apart (map (\<lambda>t. CleanCloudDir (tkCloudDir t)) (cfTasks c)) \<and> (\<forall>t \<in> set (cfTasks c). normalize t = t) \<and>
     distinct (map tkID (cfTasks c)) \<and>
     seVideoExts (cfSettings c) \<noteq> [] \<and> 0 < seCacheRetentionDays (cfSettings c)"

lemma normalizeLocked_settings:
  "seVideoExts (cfSettings (normalizeLocked c)) \<noteq> [] \<and> 0 < seCacheRetentionDays (cfSettings (normalizeLocked c))"
  by (auto simp: normalizeLocked_def Let_def DefaultVideoExts_def DefaultCacheRetentionDays_def)

lemma normalizeLocked_tasks [simp]: "cfTasks (normalizeLocked c) = map normalize (cfTasks c)"
  by (simp add: normalizeLocked_def Let_def)

lemma map_normal: "\<forall>t \<in> set ts. normalize t = t \<Longrightarrow> map normalize ts = ts"
  by (rule map_idI) blast

lemma index_of_task_Some:
  "index_of_task i ts = Some k \<Longrightarrow> k < length ts \<and> tkID (ts ! k) = i"
  by (induction ts arbitrary: k) (auto split: if_splits)

lemma index_of_task_None: "index_of_task i ts = None \<longleftrightarrow> i \<notin> tkID ` set ts"
  by (induction ts) auto

lemma validated_apart:
  "validateTasks ts = None \<Longrightarrow>
     (\<forall>t \<in> set ts. Validate t = None) \<and> distinct (map tkName ts) \<and>
     dirs_apart (map (\<lambda>t. path_clean (tkLocalDir t)) ts) \<and> dirs_apart (map (\<lambda>t. CleanCloudDir (tkCloudDir t)) ts)"
  using apart_of_clean by (auto simp: validateTasks_None)

lemma commit_ok:
  assumes "conf_ok c" "\<forall>t \<in> set nxt. normalize t = t" "distinct (map tkID nxt)"
  shows "conf_ok (snd (commitLocked save nxt c))"
proof (cases "validateTasks nxt")
  case None
  then show ?thesis
    using assms map_normal [OF assms(2)] normalizeLocked_settings [of "c\<lparr>cfTasks := nxt\<rparr>"] validated_apart [OF None]
    by (auto simp: commitLocked_def persistLocked_def conf_ok_def)
qed (simp add: commitLocked_def assms(1))

lemma map_update_same: "f x = f (xs ! k) \<Longrightarrow> map f (xs[k := x]) = map f xs"
  by (metis list_update_id map_update)

text \<open>C10. The configuration stays valid. Adding, replacing or removing a task, saving a token and editing
  the settings all keep a good configuration good, whether they succeed, are rejected or fail
  to write: every task valid and in normal form, names and ids unique, no path in the directories of two tasks, locally or
  in the cloud (but for a task on the root, which the check does not compare), a non-empty list of video extensions and a
  positive retention. The only condition is that the id of an added task, its own or the fresh one it gets, is new.\<close>

theorem conf_changes_keep_ok:
  assumes "conf_ok c" "(if tkID t = [] then fresh else tkID t) \<notin> tkID ` set (cfTasks c)"
  shows "conf_ok (snd (AddTask save fresh t c)) \<and> conf_ok (snd (UpdateTask save u c)) \<and>
    conf_ok (snd (RemoveTask save i c)) \<and> conf_ok (snd (SaveToken save now a r x c)) \<and>
    conf_ok (snd (Update save bcrypt ul e c))"
proof (intro conjI)
  have norm: "\<forall>t \<in> set (cfTasks c). normalize t = t" and dist: "distinct (map tkID (cfTasks c))" using assms(1) by (simp_all add: conf_ok_def)
  show "conf_ok (snd (AddTask save fresh t c))"
    unfolding AddTask_def Let_def by (rule commit_ok [OF assms(1)]) (use assms(2) norm dist in \<open>auto split: if_splits\<close>)
  show "conf_ok (snd (UpdateTask save u c))"
  proof (cases "index_of_task (tkID u) (cfTasks c)")
    case (Some k)
    then have k: "tkID (normalize u) = tkID (cfTasks c ! k)" by (auto dest: index_of_task_Some)
    have "conf_ok (snd (commitLocked save ((cfTasks c)[k := normalize u]) c))"
    proof (rule commit_ok [OF assms(1)])
      show "\<forall>t \<in> set ((cfTasks c)[k := normalize u]). normalize t = t"
        using norm set_update_subset_insert [of "cfTasks c" k "normalize u"] normalize_idem by blast
    qed (use dist map_update_same [of tkID, OF k] in simp)
    then show ?thesis using Some by (simp add: UpdateTask_def)
  qed (simp add: UpdateTask_def assms(1))
  show "conf_ok (snd (RemoveTask save i c))"
  proof (cases "index_of_task i (cfTasks c)")
    case (Some k)
    then obtain xs t' ys where eq: "cfTasks c = xs @ t' # ys" and cut: "take k (cfTasks c) = xs" "drop (Suc k) (cfTasks c) = ys"
      using id_take_nth_drop by (metis index_of_task_Some)
    have "distinct (map tkID (xs @ ys))" "distinct (map tkName (xs @ ys))" "\<forall>t \<in> set (xs @ ys). normalize t = t \<and> Validate t = None"
      using assms(1) eq by (auto simp: conf_ok_def)
    moreover have "dirs_apart (map f (xs @ ys))" if "dirs_apart (map f (cfTasks c))" for f :: "Task \<Rightarrow> string"
      using that unfolding eq map_append list.map by (rule dirs_apart_remove)
    ultimately show ?thesis using Some assms(1) unfolding RemoveTask_def persistLocked_def cut conf_ok_def by (simp add: cut)
  qed (simp add: RemoveTask_def assms(1))
  show "conf_ok (snd (SaveToken save now a r x c))"
    using assms(1) by (simp add: SaveToken_def persistLocked_def conf_ok_def Let_def)
  show "conf_ok (snd (Update save bcrypt ul e c))"
    using assms(1) map_normal [OF norm] normalizeLocked_settings
    by (auto simp: Update_def persistLocked_def conf_ok_def Let_def split: option.splits)
qed

section \<open>Sample tasks\<close>

definition sample_task :: "string \<Rightarrow> string \<Rightarrow> string \<Rightarrow> string \<Rightarrow> Task" where
  "sample_task i name localDir cloudDir =
     \<lparr>tkID = i, tkName = name, tkEnabled = True, tkLocalDir = localDir, tkCloudDir = cloudDir, tkUpload = True,
      tkWatch = False, tkQuietMinutes = 0, tkInstantNow = False, tkToStrm = True, tkToCache = False,
      tkDownload = False, tkArchive = False, tkToStrmDl = False,
      tkCron = \<lparr>coEnabled = False, coIntervalHours = 0\<rparr>\<rparr>"

definition sample_config :: Config where
  "sample_config =
     \<lparr>cfSettings =
        \<lparr>seStrmURL = ''http://h'', seTempDir = ''/bin'', seCacheDir = ''/cache'', seOfflineDir = [],
         seCacheRetentionDays = 1, seVideoExts = [''.mp4'', ''.mkv''], seUploadExclude = [''*.tmp''],
         seAuth = \<lparr>auUsername = ''admin'', auPasswordHash = ''hash''\<rparr>\<rparr>,
      cfTasks = [sample_task ''t_1'' ''films'' ''/data/films'' ''/films'', sample_task ''t_2'' ''tv'' ''/data/tv'' ''/tv/''],
      cfToken = \<lparr>tdAccessToken = ''a'', tdRefreshToken = ''r'', tdExpireAt = 0\<rparr>\<rparr>"

lemma sample_config_ok: "conf_ok sample_config"
proof -
  have "validateTasks (cfTasks sample_config) = None"
    "list_all (\<lambda>t. normalize t = t) (cfTasks sample_config)" by code_simp+
  then show ?thesis using validated_apart [of "cfTasks sample_config"] by (simp add: conf_ok_def sample_config_def sample_task_def)
qed

theorem conf_changes_keep_ok_witness:
  "conf_ok (snd (AddTask (\<lambda>_. False) [] (sample_task ''t_3'' ''music'' ''/data/music'' ''/music'') sample_config)) \<and>
   conf_ok (snd (RemoveTask (\<lambda>_. True) ''t_1'' sample_config))"
proof -
  let ?t = "sample_task ''t_3'' ''music'' ''/data/music'' ''/music''"
  have "(if tkID ?t = [] then [] else tkID ?t) \<notin> tkID ` set (cfTasks sample_config)"
    by (simp add: sample_task_def sample_config_def)
  from conf_changes_keep_ok [OF sample_config_ok this] show ?thesis by blast
qed

section \<open>What is stored\<close>

lemma index_of_task_snoc: "i \<notin> tkID ` set ts \<Longrightarrow> tkID t = i \<Longrightarrow> index_of_task i (ts @ [t]) = Some (length ts)"
  by (induction ts) auto

lemma index_of_task_update: "index_of_task i ts = Some k \<Longrightarrow> tkID t = i \<Longrightarrow> index_of_task i (ts[k := t]) = Some k"
  by (induction ts arbitrary: k) (auto split: if_splits)

lemma index_of_task_normalize: "index_of_task i (map normalize ts) = index_of_task i ts"
  by (induction ts) auto

text \<open>A task that was added or replaced is found under its id in normal form.\<close>

lemma saved_task:
  assumes "(if create then AddTask save fresh t c else UpdateTask save t c) = (None, c')"
    and "tkID t \<noteq> []" "create \<longrightarrow> tkID t \<notin> tkID ` set (cfTasks c)"
  shows "GetTask (tkID t) c' = Some (normalize t)"
proof (cases create)
  case True
  then have "cfTasks c' = map normalize (cfTasks c @ [normalize t])"
    using assms(1,2) by (auto simp: AddTask_def commitLocked_def persistLocked_def split: option.splits if_splits)
  then show ?thesis
    using True assms(3) index_of_task_snoc [of "tkID t" "cfTasks c" "normalize t"]
    by (simp add: GetTask_def index_of_task_normalize nth_append del: map_append)
next
  case False
  then obtain k where k: "index_of_task (tkID t) (cfTasks c) = Some k"
    and c': "cfTasks c' = map normalize ((cfTasks c)[k := normalize t])"
    using assms(1) by (auto simp: UpdateTask_def commitLocked_def persistLocked_def split: option.splits if_splits)
  have "k < length (cfTasks c)" using k by (auto dest: index_of_task_Some)
  then show ?thesis
    using c' index_of_task_update [OF k, of "normalize t"] by (simp add: GetTask_def index_of_task_normalize del: map_update)
qed

section \<open>Overlapping directories\<close>

lemma split_on_tail_path_sep:
  "CHR ''/'' \<notin> set w \<Longrightarrow> \<forall>c \<in> set cs. CHR ''/'' \<notin> set c \<Longrightarrow>
   split_on (CHR ''/'') (w @ tail_path cs @ CHR ''/'' # t) = w # cs @ split_on (CHR ''/'') t"
  by (induction cs arbitrary: w) (auto simp: split_on_append_sep)

lemma has_prefix_tail_path:
  assumes "\<forall>c \<in> set a. good_name c" "\<forall>c \<in> set b. good_name c"
  shows "has_prefix (tail_path b) (tail_path a @ ''/'') \<longleftrightarrow> strict_prefix a b"
proof
  have nos: "\<forall>c \<in> set a. CHR ''/'' \<notin> set c" "\<forall>c \<in> set b. CHR ''/'' \<notin> set c"
    using assms good_name_no_slash by blast+
  assume "has_prefix (tail_path b) (tail_path a @ ''/'')"
  then obtain t where t: "tail_path b = tail_path a @ CHR ''/'' # t" by (auto simp: has_prefix_iff)
  have "[] # b = split_on (CHR ''/'') (tail_path b)"
    using split_on_tail_path [OF _ nos(2), of "[]"] by simp
  also have "\<dots> = [] # a @ split_on (CHR ''/'') t"
    using split_on_tail_path_sep [OF _ nos(1), of "[]" t] t by simp
  finally have "b = a @ split_on (CHR ''/'') t" by simp
  moreover have "split_on (CHR ''/'') t \<noteq> []" by (cases t) (auto split: list.splits)
  ultimately show "strict_prefix a b" by (auto simp: strict_prefix_def prefix_def)
next
  assume "strict_prefix a b"
  then obtain c cs where "b = a @ c # cs" by (rule strict_prefixE')
  then show "has_prefix (tail_path b) (tail_path a @ ''/'')" by (auto simp: has_prefix_iff)
qed

lemma overlapClean_nested:
  assumes "a \<noteq> []" "b \<noteq> []" "\<forall>c \<in> set a. good_name c" "\<forall>c \<in> set b. good_name c"
  shows "overlapClean (abs_path a) (abs_path b) (CHR ''/'') \<longleftrightarrow> prefix a b \<or> prefix b a"
  using assms abs_path_inj [of a b] has_prefix_tail_path [of a b] has_prefix_tail_path [of b a]
  by (auto simp: overlapClean_def abs_path_def strict_prefix_def)

text \<open>What the overlap check buys. In a validated set of tasks, two different tasks never share a directory
  tree: no path lies below both local directories, and none below both cloud directories,
  whenever these directories are not the root.\<close>

theorem validated_dirs_disjoint:
  assumes "validateTasks ts = None" "i < j" "j < length ts"
    and "path_clean (tkLocalDir (ts ! i)) = abs_path a" "path_clean (tkLocalDir (ts ! j)) = abs_path b"
    and "CleanCloudDir (tkCloudDir (ts ! i)) = abs_path ca" "CleanCloudDir (tkCloudDir (ts ! j)) = abs_path cb"
    and "\<forall>cs \<in> {a, b, ca, cb}. cs \<noteq> [] \<and> (\<forall>c \<in> set cs. good_name c)"
  shows "\<not> (prefix a p \<and> prefix b p) \<and> \<not> (prefix ca p \<and> prefix cb p)"
proof -
  have "\<not> overlapClean (abs_path a) (abs_path b) (CHR ''/'')" "\<not> overlapClean (abs_path ca) (abs_path cb) (CHR ''/'')"
    using assms(1-3) unfolding validateTasks_None sorted_wrt_iff_nth_less assms(4-7) [symmetric] by simp_all
  then have "\<not> (prefix a b \<or> prefix b a)" "\<not> (prefix ca cb \<or> prefix cb ca)"
    using overlapClean_nested [of a b] overlapClean_nested [of ca cb] assms(8) by auto
  then show ?thesis using prefix_same_cases by blast
qed

theorem validated_dirs_disjoint_witness:
  "validateTasks (cfTasks sample_config) = None \<and>
   \<not> (prefix [''data'', ''films''] [''data'', ''tv'', ''x''] \<and> prefix [''data'', ''tv''] [''data'', ''tv'', ''x'']) \<and>
   \<not> (prefix [''films''] [''data'', ''tv'', ''x''] \<and> prefix [''tv''] [''data'', ''tv'', ''x''])"
proof -
  have v: "validateTasks (cfTasks sample_config) = None" by code_simp
  have "path_clean (tkLocalDir (cfTasks sample_config ! 0)) = abs_path [''data'', ''films'']"
    "path_clean (tkLocalDir (cfTasks sample_config ! 1)) = abs_path [''data'', ''tv'']"
    "CleanCloudDir (tkCloudDir (cfTasks sample_config ! 0)) = abs_path [''films'']"
    "CleanCloudDir (tkCloudDir (cfTasks sample_config ! 1)) = abs_path [''tv'']" by code_simp+
  from validated_dirs_disjoint [OF v _ _ this, of "[''data'', ''tv'', ''x'']"] v show ?thesis
    by (simp add: sample_config_def good_name_def)
qed

text \<open>The check misses the root: a task on the whole local file system and the whole cloud is accepted
  beside a task on a directory of each, although every path of the second lies in the first.\<close>

theorem root_overlap_accepted:
  "validateTasks [sample_task ''t_1'' ''all'' ''/'' ''/'', sample_task ''t_2'' ''tv'' ''/data/tv'' ''/tv''] = None"
  by code_simp

section \<open>Editing the settings\<close>

text \<open>Saving the settings form as it was shown changes nothing: the snapshot carries no password and
  no token, and applying it keeps both, the tasks and all other settings.\<close>

theorem Update_Snapshot:
  assumes "conf_ok c"
    and "normalizeExts ul (seVideoExts (cfSettings c)) True = seVideoExts (cfSettings c)"
    and "normalizeExts ul (seUploadExclude (cfSettings c)) False = seUploadExclude (cfSettings c)"
    and "auUsername (seAuth (cfSettings c)) = [] \<longrightarrow> auPasswordHash (seAuth (cfSettings c)) = []"
  shows "Update save bcrypt ul (Snapshot c) c = (if save c then None else Some SaveFailed, c) \<and>
    edAuthPassword (Snapshot c) = [] \<and> edRefreshToken (Snapshot c) = []"
proof -
  have "normalizeLocked c = c"
    using assms(1) map_normal [of "cfTasks c"] by (simp add: normalizeLocked_def conf_ok_def Let_def)
  moreover have "c\<lparr>cfSettings := (cfSettings c)\<lparr>seVideoExts := seVideoExts (cfSettings c)\<rparr>\<rparr> = c" by simp
  ultimately show ?thesis using assms(2-4)
    by (cases c; cases "cfSettings c"; cases "seAuth (cfSettings c)")
       (auto simp: Update_def Snapshot_def GetAuth_def hashPasswordIfChanged_def persistLocked_def Let_def)
qed

theorem Update_Snapshot_witness:
  "Update (\<lambda>_. True) (\<lambda>_. None) (\<lambda>s. s) (Snapshot sample_config) sample_config = (None, sample_config)"
proof -
  have "normalizeExts (\<lambda>s. s) (seVideoExts (cfSettings sample_config)) True = seVideoExts (cfSettings sample_config)"
    "normalizeExts (\<lambda>s. s) (seUploadExclude (cfSettings sample_config)) False = seUploadExclude (cfSettings sample_config)"
    by code_simp+
  from Update_Snapshot [OF sample_config_ok this, of "\<lambda>_. True" "\<lambda>_. None"] show ?thesis
    by (simp add: sample_config_def)
qed

end
