(* ===== verification/Mirror_Scan.thy ===== *)
theory Mirror_Scan
  imports Mirror_Apply
begin

text \<open>
  \<open>internal/mirror/scan.go\<close>: the snapshot of the cloud tree, the counts of the local tree that
  let a scan skip directories, and the first build of the index. The two queries on the cloud
  are the record \<open>cloud\<close>. The code lists subdirectories concurrently and sorts at the end, so
  the order of the visits shows in the result only between items of the same path; here the
  visits are in order. The recursions take fuel.
\<close>

section \<open>The cloud tree\<close>

record FileInfo =
  fiFid :: string
  fiName :: string
  fiPickCode :: string
  fiSize :: i64
  fiIsDir :: bool
  fiIsVideo :: bool

record cloud =
  clInfo :: "string \<Rightarrow> DirInfo option"
  clList :: "string \<Rightarrow> FileInfo list option"

datatype scan_error = ScanCancelled | ScanFailed

type_synonym scan_result = "((scan_error + CloudItem list) \<times> ctx) option"

definition cloud_item :: "string \<Rightarrow> FileInfo \<Rightarrow> CloudItem" where
  "cloud_item path it =
     \<lparr>ciPath = path_join path (fiName it), ciFid = fiFid it, ciPickCode = fiPickCode it,
      ciSize = fiSize it, ciIsDir = fiIsDir it, ciIsVideo = fiIsVideo it\<rparr>"

text \<open>The counts map; an absent directory counts 0.\<close>

type_synonym counts = "(string \<times> i64) list"

definition count_of :: "counts \<Rightarrow> string \<Rightarrow> i64" where
  "count_of m p = (case map_of m p of None \<Rightarrow> 0 | Some n \<Rightarrow> n)"

definition same_count :: "cloud \<Rightarrow> Paths \<Rightarrow> counts option \<Rightarrow> DirInfo option \<Rightarrow> string \<Rightarrow> string \<Rightarrow> bool" where
  "same_count cl paths localCount root path fid =
     (case localCount of
        None \<Rightarrow> False
      | Some m \<Rightarrow>
          (case (if fid = paCloudFid paths \<and> root \<noteq> None then root else clInfo cl path) of
             None \<Rightarrow> False
           | Some info \<Rightarrow>
               diFileCount info + diFolderCount info =
                 count_of m (MapCloudToLocal (paLocalDir paths) (paCloudDir paths) path)))"

text \<open>The loop over one listing, with the recursive call as an argument.\<close>

fun scan_entries :: "(string \<Rightarrow> string \<Rightarrow> ctx \<Rightarrow> scan_result) \<Rightarrow> string \<Rightarrow> FileInfo list \<Rightarrow> ctx \<Rightarrow> scan_result" where
  "scan_entries walk path [] c = Some (Inr [], c)"
| "scan_entries walk path (it # its) c =
     (case (if fiIsDir it then walk (path_join path (fiName it)) (fiFid it) c else Some (Inr [], c)) of
        None \<Rightarrow> None
      | Some (Inl e, c1) \<Rightarrow> Some (Inl e, c1)
      | Some (Inr sub, c1) \<Rightarrow>
          map_option (\<lambda>(r, c2). (map_sum id (\<lambda>xs. cloud_item path it # sub @ xs) r, c2))
            (scan_entries walk path its c1))"

fun scan_walk :: "cloud \<Rightarrow> Paths \<Rightarrow> counts option \<Rightarrow> DirInfo option \<Rightarrow> nat \<Rightarrow> string \<Rightarrow> string \<Rightarrow> ctx \<Rightarrow> scan_result" where
  "scan_walk cl paths lc root 0 path fid c = None"
| "scan_walk cl paths lc root (Suc n) path fid c =
     (case ctx_check c of (stop, c1) \<Rightarrow>
        if stop then Some (Inl ScanCancelled, c1)
        else if same_count cl paths lc root path fid then Some (Inr [], c1)
        else case clList cl fid of
          None \<Rightarrow> Some (Inl ScanFailed, c1)
        | Some its \<Rightarrow> scan_entries (scan_walk cl paths lc root n) path its c1)"

definition ScanCloud :: "cloud \<Rightarrow> nat \<Rightarrow> ctx \<Rightarrow> Paths \<Rightarrow> counts option \<Rightarrow> DirInfo option \<Rightarrow>
    ((scan_error + CloudTree) \<times> ctx) option" where
  "ScanCloud cl n c paths localCount root =
     (let rootPath = CleanCloudPath (paCloudDir paths) in
      map_option (\<lambda>(r, c'). (map_sum id (\<lambda>items.
          \<lparr>ctRootPath = rootPath, ctRootFid = paCloudFid paths, ctItems = sort_key ciPath items\<rparr>) r, c'))
        (scan_walk cl paths localCount root n rootPath (paCloudFid paths) c))"

section \<open>The counts of the local tree\<close>

text \<open>A failed walk drops the counts; the error is the file system's or the context's (\<open>None\<close>).\<close>

type_synonym count_result = "((fs_error option + i64 \<times> counts) \<times> ctx) option"

fun count_entries :: "(string \<Rightarrow> counts \<Rightarrow> ctx \<Rightarrow> count_result) \<Rightarrow> string \<Rightarrow> Rules \<Rightarrow> string \<Rightarrow>
    DirEntry list \<Rightarrow> i64 \<Rightarrow> counts \<Rightarrow> ctx \<Rightarrow> count_result" where
  "count_entries walk dir rules ex [] n m c = Some (Inr (n, m), c)"
| "count_entries walk dir rules ex (e # es) n m c =
     (let full = path_join dir (deName e) in
      if ex \<noteq> [] \<and> full = ex then count_entries walk dir rules ex es n m c
      else if Excluded rules (deName e) then count_entries walk dir rules ex es n m c
      else if deIsDir e then
        (case walk full m c of
           None \<Rightarrow> None
         | Some (Inl err, c1) \<Rightarrow> Some (Inl err, c1)
         | Some (Inr (sub, m1), c1) \<Rightarrow> count_entries walk dir rules ex es (n + 1 + sub) m1 c1)
      else count_entries walk dir rules ex es (n + 1) m c)"

fun count_walk :: "FS \<Rightarrow> Rules \<Rightarrow> string \<Rightarrow> nat \<Rightarrow> string \<Rightarrow> counts \<Rightarrow> ctx \<Rightarrow> count_result" where
  "count_walk fs rules ex 0 dir m c = None"
| "count_walk fs rules ex (Suc n) dir m c =
     (case ctx_check c of (stop, c1) \<Rightarrow>
        if stop then Some (Inl None, c1)
        else case fsReadDir fs dir of
          Inl e \<Rightarrow> if e = FsNotExist then Some (Inr (0, m), c1) else Some (Inl (Some e), c1)
        | Inr es \<Rightarrow>
            map_option (\<lambda>(r, c2). (map_sum id (\<lambda>(k, m1). (k, AList.update dir k m1)) r, c2))
              (count_entries (count_walk fs rules ex n) dir rules ex es 0 m c1))"

definition LocalTreeCount :: "FS \<Rightarrow> nat \<Rightarrow> ctx \<Rightarrow> string \<Rightarrow> Rules \<Rightarrow> string \<Rightarrow>
    ((fs_error option + counts) \<times> ctx) option" where
  "LocalTreeCount fs n c localRoot rules excludeDir =
     map_option (\<lambda>(r, c'). (map_sum id snd r, c')) (count_walk fs rules excludeDir n localRoot [] c)"

section \<open>The first index\<close>

text \<open>The key and the record of one cloud item.\<close>

definition index_entry :: "Paths \<Rightarrow> Rules \<Rightarrow> bool \<Rightarrow> CloudItem \<Rightarrow> string \<times> Record" where
  "index_entry paths rules toStrm it =
     (let localp = MapCloudToLocal (paLocalDir paths) (paCloudDir paths) (ciPath it) in
      if ciIsDir it then (localp, \<lparr>rFid = ciFid it, rPickCode = [], rKind = KindDir, rSize = 0\<rparr>)
      else if ciIsVideo it \<or> IsVideoExt rules (ciPath it) then
        (if toStrm then VideoToStrmPath localp else localp,
         \<lparr>rFid = ciFid it, rPickCode = ciPickCode it, rKind = KindStrm, rSize = ciSize it\<rparr>)
      else (localp, \<lparr>rFid = ciFid it, rPickCode = ciPickCode it, rKind = KindFile, rSize = ciSize it\<rparr>))"

fun put_entries :: "('w \<Rightarrow> string \<Rightarrow> Record \<Rightarrow> 'w) \<Rightarrow> (string \<times> Record) list \<Rightarrow> ctx \<Rightarrow> 'w \<Rightarrow>
    (scan_error option \<times> ctx) \<times> 'w" where
  "put_entries put [] c w = ((None, c), w)"
| "put_entries put ((k, r) # es) c w =
     (case ctx_check c of (stop, c1) \<Rightarrow>
        if stop then ((Some ScanCancelled, c1), w) else put_entries put es c1 (put w k r))"

definition BuildIndex :: "cloud \<Rightarrow> nat \<Rightarrow> ('w \<Rightarrow> string \<Rightarrow> Record \<Rightarrow> 'w) \<Rightarrow> Paths \<Rightarrow> Rules \<Rightarrow> bool \<Rightarrow> ctx \<Rightarrow> 'w \<Rightarrow>
    ((scan_error option \<times> ctx) \<times> 'w) option" where
  "BuildIndex cl n put paths rules toStrm c w =
     (case ScanCloud cl n c paths None None of
        None \<Rightarrow> None
      | Some (Inl e, c1) \<Rightarrow> Some ((Some e, c1), w)
      | Some (Inr tree, c1) \<Rightarrow> Some (put_entries put (map (index_entry paths rules toStrm) (ctItems tree)) c1 w))"

end
