(* ===== verification/Scan_Props.thy ===== *)
theory Scan_Props
  imports Mirror_Scan Plan_Props
begin

text \<open>
  The properties of the scans: which items a snapshot of the cloud holds, what the counts skip,
  and how the first index agrees with the planner.
\<close>

section \<open>The items of a snapshot\<close>

text \<open>The items below a directory that are not hidden by a skipped directory.\<close>

inductive listed :: "cloud \<Rightarrow> (string \<Rightarrow> string \<Rightarrow> bool) \<Rightarrow> string \<Rightarrow> string \<Rightarrow> CloudItem \<Rightarrow> bool"
  for cl :: cloud and skip :: "string \<Rightarrow> string \<Rightarrow> bool" where
  here: "\<not> skip path fid \<Longrightarrow> clList cl fid = Some its \<Longrightarrow> it \<in> set its \<Longrightarrow> listed cl skip path fid (cloud_item path it)"
| deeper: "\<not> skip path fid \<Longrightarrow> clList cl fid = Some its \<Longrightarrow> it \<in> set its \<Longrightarrow> fiIsDir it \<Longrightarrow>
     listed cl skip (path_join path (fiName it)) (fiFid it) x \<Longrightarrow> listed cl skip path fid x"

inductive_simps listed_iff: "listed cl skip path fid x"

definition ranked_cloud :: "cloud \<Rightarrow> (string \<Rightarrow> nat) \<Rightarrow> bool" where
  "ranked_cloud cl rank \<longleftrightarrow>
     (\<forall>fid. \<exists>its. clList cl fid = Some its \<and> (\<forall>it \<in> set its. fiIsDir it \<longrightarrow> rank (fiFid it) < rank fid))"

lemma scan_entries_all:
  assumes "\<And>it. it \<in> set its \<Longrightarrow> fiIsDir it \<Longrightarrow>
     \<exists>sub. walk (path_join path (fiName it)) (fiFid it) None = Some (Inr sub, None) \<and> set sub = {x. L it x}"
  shows "\<exists>xs. scan_entries walk path its None = Some (Inr xs, None) \<and>
    set xs = cloud_item path ` set its \<union> {x. \<exists>it \<in> set its. fiIsDir it \<and> L it x}"
  using assms
proof (induction its)
  case (Cons it its)
  then obtain xs where xs: "scan_entries walk path its None = Some (Inr xs, None)"
    "set xs = cloud_item path ` set its \<union> {x. \<exists>it \<in> set its. fiIsDir it \<and> L it x}" by auto
  show ?case
  proof (cases "fiIsDir it")
    case True
    then obtain sub where "walk (path_join path (fiName it)) (fiFid it) None = Some (Inr sub, None)"
      "set sub = {x. L it x}" using Cons.prems by auto
    then show ?thesis using True xs by auto
  qed (use xs in auto)
qed simp

lemma scan_walk_all:
  assumes "ranked_cloud cl rank"
  shows "rank fid < n \<Longrightarrow> \<exists>xs. scan_walk cl paths lc root n path fid None = Some (Inr xs, None) \<and>
    set xs = {x. listed cl (same_count cl paths lc root) path fid x}"
proof (induction n arbitrary: path fid)
  case (Suc n)
  obtain its where its: "clList cl fid = Some its" "\<forall>it \<in> set its. fiIsDir it \<longrightarrow> rank (fiFid it) < rank fid"
    using assms by (auto simp: ranked_cloud_def)
  show ?case
  proof (cases "same_count cl paths lc root path fid")
    case True
    then show ?thesis by (subst listed_iff) simp
  next
    case False
    let ?L = "\<lambda>it. listed cl (same_count cl paths lc root) (path_join path (fiName it)) (fiFid it)"
    have "\<exists>sub. scan_walk cl paths lc root n (path_join path (fiName it)) (fiFid it) None = Some (Inr sub, None) \<and>
        set sub = {x. ?L it x}" if "it \<in> set its" "fiIsDir it" for it
      by (rule Suc.IH) (use that its(2) Suc.prems in fastforce)
    then obtain xs where xs: "scan_entries (scan_walk cl paths lc root n) path its None = Some (Inr xs, None)"
      "set xs = cloud_item path ` set its \<union> {x. \<exists>it \<in> set its. fiIsDir it \<and> ?L it x}"
      using scan_entries_all [of its "scan_walk cl paths lc root n" path ?L] by blast
    have "listed cl (same_count cl paths lc root) path fid x \<longleftrightarrow> x \<in> set xs" for x
      unfolding xs(2) by (subst listed_iff) (use its(1) False in auto)
    then show ?thesis using xs(1) False its(1) by auto
  qed
qed simp

text \<open>C11. What a snapshot of the cloud holds. When every listing is answered and the cloud is a finite tree,
  a scan that is not cancelled returns, sorted by path, exactly the items that can be reached
  from the root without entering a directory whose recursive count equals the local one;
  without local counts these are all items.\<close>

theorem ScanCloud_exact:
  assumes "ranked_cloud cl rank" "rank (paCloudFid paths) < n"
  shows "\<exists>items. ScanCloud cl n None paths lc root =
      Some (Inr \<lparr>ctRootPath = CleanCloudPath (paCloudDir paths), ctRootFid = paCloudFid paths, ctItems = items\<rparr>, None) \<and>
    sorted (map ciPath items) \<and>
    set items = {x. listed cl (same_count cl paths lc root) (CleanCloudPath (paCloudDir paths)) (paCloudFid paths) x}"
proof -
  obtain xs where "scan_walk cl paths lc root n (CleanCloudPath (paCloudDir paths)) (paCloudFid paths) None = Some (Inr xs, None)"
    "set xs = {x. listed cl (same_count cl paths lc root) (CleanCloudPath (paCloudDir paths)) (paCloudFid paths) x}"
    using scan_walk_all [OF assms] by blast
  then show ?thesis by (intro exI [of _ "sort_key ciPath xs"]) (simp add: ScanCloud_def Let_def)
qed

definition sample_cloud :: cloud where
  "sample_cloud =
     \<lparr>clInfo = (\<lambda>p. if p = ''/c/tv'' then Some \<lparr>diFid = ''11'', diName = ''tv'', diFileCount = 1, diFolderCount = 0\<rparr> else None),
      clList = (\<lambda>f. Some (
        if f = ''10'' then [\<lparr>fiFid = ''11'', fiName = ''tv'', fiPickCode = [], fiSize = 0, fiIsDir = True, fiIsVideo = False\<rparr>,
                            \<lparr>fiFid = ''12'', fiName = ''n.txt'', fiPickCode = ''p'', fiSize = 5, fiIsDir = False, fiIsVideo = False\<rparr>]
        else if f = ''11'' then [\<lparr>fiFid = ''13'', fiName = ''a.mkv'', fiPickCode = ''q'', fiSize = 9, fiIsDir = False, fiIsVideo = True\<rparr>]
        else []))\<rparr>"

definition sample_paths :: Paths where
  "sample_paths = \<lparr>paLocalDir = ''/m'', paCloudDir = ''/c'', paCloudFid = ''10'', paTempFid = ''99'',
     paStrmURL = ''http://h'', paCacheDir = []\<rparr>"

theorem ScanCloud_exact_witness:
  "\<exists>items. ScanCloud sample_cloud 3 None sample_paths None None =
      Some (Inr \<lparr>ctRootPath = ''/c'', ctRootFid = ''10'', ctItems = items\<rparr>, None) \<and>
    sorted (map ciPath items) \<and> set items = {x. listed sample_cloud (\<lambda>_ _. False) ''/c'' ''10'' x}"
proof -
  have r: "ranked_cloud sample_cloud (\<lambda>f. if f = ''10'' then 2 else if f = ''11'' then 1 else 0)"
    by (auto simp: ranked_cloud_def sample_cloud_def)
  have "CleanCloudPath (paCloudDir sample_paths) = ''/c''" "paCloudFid sample_paths = ''10''" by code_simp+
  moreover have "same_count sample_cloud sample_paths None None = (\<lambda>_ _. False)"
    by (simp add: same_count_def fun_eq_iff)
  ultimately show ?thesis using ScanCloud_exact [OF r, of sample_paths 3 None None] by simp
qed

text \<open>A mirror of the whole cloud into an empty directory downloads nothing. The program knows no counts
  for the cloud root, reads them as 0 and finds them equal to the count of the empty local
  directory: the snapshot is empty, whatever the cloud holds.\<close>

theorem root_mirror_scans_nothing:
  assumes "paCloudDir paths = ''/''" "paCloudFid paths = diFid root_DirInfo" "fsReadDir fs (paLocalDir paths) = Inr []"
  shows "EnsureCloudDir ev (paCloudDir paths) s = Some (Some root_DirInfo, s) \<and>
    (\<exists>m. LocalTreeCount fs 1 None (paLocalDir paths) rules ex = Some (Inr m, None) \<and>
      ScanCloud cl 1 None paths (Some m) (Some root_DirInfo) =
        Some (Inr \<lparr>ctRootPath = ''/'', ctRootFid = ''0'', ctItems = []\<rparr>, None))"
proof -
  have t: "trim_byte (CHR ''/'') ''/'' = []" "split_on (CHR ''/'') [] = [[]]" "CleanCloudPath ''/'' = ''/''" by code_simp+
  have rel: "RelToRoot ''/'' ''/'' (CHR ''/'') = []" by code_simp
  have "EnsureCloudDir ev (paCloudDir paths) s = Some (Some root_DirInfo, s)"
    by (simp add: assms(1) EnsureCloudDir_def t step_defs)
  moreover have "LocalTreeCount fs 1 None (paLocalDir paths) rules ex = Some (Inr [(paLocalDir paths, 0)], None)"
    by (simp add: LocalTreeCount_def assms(3))
  moreover have "ScanCloud cl 1 None paths (Some [(paLocalDir paths, 0)]) (Some root_DirInfo) =
      Some (Inr \<lparr>ctRootPath = ''/'', ctRootFid = ''0'', ctItems = []\<rparr>, None)"
    using assms(1,2) rel
    by (simp add: ScanCloud_def same_count_def t MapCloudToLocal_def count_of_def root_DirInfo_def Let_def)
  ultimately show ?thesis by blast
qed

theorem root_mirror_scans_nothing_witness:
  "\<exists>m. ScanCloud sample_cloud 1 None (sample_paths\<lparr>paCloudDir := ''/'', paCloudFid := ''0''\<rparr>) (Some m) (Some root_DirInfo) =
        Some (Inr \<lparr>ctRootPath = ''/'', ctRootFid = ''0'', ctItems = []\<rparr>, None)"
proof -
  let ?fs = "list_fs [(''/m'', [])] []" and ?paths = "sample_paths\<lparr>paCloudDir := ''/'', paCloudFid := ''0''\<rparr>"
  have "paCloudDir ?paths = ''/''" "paCloudFid ?paths = diFid root_DirInfo" "fsReadDir ?fs (paLocalDir ?paths) = Inr []"
    by (simp_all add: root_DirInfo_def sample_paths_def list_fs_def)
  from root_mirror_scans_nothing [OF this, where cl = sample_cloud] show ?thesis by blast
qed

section \<open>The first index and the planner\<close>

text \<open>The first index agrees with the planner where it should: for a cloud file that is no video the
  planner leaves a local file of the same size alone, and for a video kept as a link it leaves
  alone a \<open>.strm\<close> file that holds the current link to the video's pickcode.\<close>

theorem index_entry_agrees:
  assumes "index_entry (plPaths p) (plRules p) (lcToStrm (plCfg p)) it = (key, rec)" "\<not> ciIsDir it" "ciFid it \<noteq> []"
    and "if ciIsVideo it \<or> IsVideoExt (plRules p) (ciPath it)
         then lcToStrm (plCfg p) \<and> IsStrmPath key \<and> ciPickCode it \<noteq> [] \<and>
              ReadStrmFile (fsReadFile (plFS p) key) = StrmContent (paStrmURL (plPaths p)) (ciPickCode it) \<and>
              ParsePickCode (plAuth p) (StrmContent (paStrmURL (plPaths p)) (ciPickCode it)) = ciPickCode it
         else \<not> IsStrmPath key \<and> \<not> IsVideoExt (plRules p) key \<and> lsSize st = ciSize it"
  shows "decideFile p key rec st = []"
proof (cases "ciIsVideo it \<or> IsVideoExt (plRules p) (ciPath it)")
  case True
  then have "rec = \<lparr>rFid = ciFid it, rPickCode = ciPickCode it, rKind = KindStrm, rSize = ciSize it\<rparr>"
    using assms(1,2) by (auto simp: index_entry_def Let_def)
  then show ?thesis using True assms(3,4) by (simp add: decideFile_def decideStrm_def StrmNeedsFix_def)
next
  case False
  then have "rec = \<lparr>rFid = ciFid it, rPickCode = ciPickCode it, rKind = KindFile, rSize = ciSize it\<rparr>"
    using assms(1,2) by (auto simp: index_entry_def Let_def)
  then show ?thesis using False assms(3,4) by (simp add: decideFile_def decidePlain_def)
qed

theorem index_entry_agrees_witness:
  "decideFile both_synced ''/m/n.txt''
     (snd (index_entry sample_paths (plRules both_synced) True (cloud_item ''/c''
        \<lparr>fiFid = ''12'', fiName = ''n.txt'', fiPickCode = ''p'', fiSize = 5, fiIsDir = False, fiIsVideo = False\<rparr>)))
     \<lparr>lsExists = True, lsIsDir = False, lsSize = 5\<rparr> = []"
proof -
  let ?it = "cloud_item ''/c'' \<lparr>fiFid = ''12'', fiName = ''n.txt'', fiPickCode = ''p'', fiSize = 5, fiIsDir = False, fiIsVideo = False\<rparr>"
  let ?rec = "\<lparr>rFid = ''12'', rPickCode = ''p'', rKind = KindFile, rSize = 5\<rparr>"
  have e: "index_entry (plPaths both_synced) (plRules both_synced) (lcToStrm (plCfg both_synced)) ?it = (''/m/n.txt'', ?rec)"
    "index_entry sample_paths (plRules both_synced) True ?it = (''/m/n.txt'', ?rec)" by code_simp+
  have v: "\<not> (ciIsVideo ?it \<or> IsVideoExt (plRules both_synced) (ciPath ?it))" "\<not> IsStrmPath ''/m/n.txt''"
    "\<not> IsVideoExt (plRules both_synced) ''/m/n.txt''" by code_simp+
  have "\<not> ciIsDir ?it" "ciFid ?it \<noteq> []" "ciSize ?it = 5" by (simp_all add: cloud_item_def)
  from index_entry_agrees [OF e(1) this(1,2), of "\<lparr>lsExists = True, lsIsDir = False, lsSize = 5\<rparr>"] v this(3) e(2)
  show ?thesis by simp
qed

text \<open>The first index disagrees with the planner on videos kept as files: with links switched off the
  index records them as links, so the first plan moves the cloud video to the recycle directory
  and uploads the local file again, even when both are identical.\<close>

theorem index_entry_entity_video:
  assumes "ciIsVideo it" "\<not> ciIsDir it" "ciFid it \<noteq> []" "\<not> lcToStrm (plCfg p)"
    and "index_entry (plPaths p) (plRules p) (lcToStrm (plCfg p)) it = (key, rec)" "\<not> IsStrmPath key"
  shows "map (\<lambda>op. (opKind op, opPath op, opFid op)) (decideFile p key rec st) =
    [(OpRetire, key, ciFid it), (OpUpload, key, [])]"
  using assms by (auto simp: index_entry_def decideFile_def decidePlain_def clearOp_def Let_def)

theorem index_entry_entity_video_witness:
  "map (\<lambda>op. (opKind op, opPath op, opFid op))
     (decideFile (sample_planner (list_fs [] []) (list_index []) False) ''/m/tv/a.mkv''
        \<lparr>rFid = ''13'', rPickCode = ''q'', rKind = KindStrm, rSize = 9\<rparr> \<lparr>lsExists = True, lsIsDir = False, lsSize = 9\<rparr>)
   = [(OpRetire, ''/m/tv/a.mkv'', ''13''), (OpUpload, ''/m/tv/a.mkv'', [])]"
proof -
  let ?p = "sample_planner (list_fs [] []) (list_index []) False"
  let ?it = "cloud_item ''/c/tv'' \<lparr>fiFid = ''13'', fiName = ''a.mkv'', fiPickCode = ''q'', fiSize = 9, fiIsDir = False, fiIsVideo = True\<rparr>"
  have e: "index_entry (plPaths ?p) (plRules ?p) (lcToStrm (plCfg ?p)) ?it =
      (''/m/tv/a.mkv'', \<lparr>rFid = ''13'', rPickCode = ''q'', rKind = KindStrm, rSize = 9\<rparr>)"
    and s: "\<not> IsStrmPath ''/m/tv/a.mkv''" by code_simp+
  have "ciIsVideo ?it" "\<not> ciIsDir ?it" "ciFid ?it \<noteq> []" "\<not> lcToStrm (plCfg ?p)" "ciFid ?it = ''13''"
    by (simp_all add: cloud_item_def sample_planner_def)
  from index_entry_entity_video [OF this(1-4) e s, of "\<lparr>lsExists = True, lsIsDir = False, lsSize = 9\<rparr>"] this(5)
  show ?thesis by simp
qed

end
