(* ===== verification/Engine_Cancel.thy ===== *)
theory Engine_Cancel
  imports Job_Queue
begin

text \<open>
  How \<open>StopTask\<close> cancels the job in progress: the worker registers the job's task and cancel function
  (\<open>setActiveCancel\<close>), \<open>cancelActive\<close> takes the registration away under the lock and calls
  the function outside it. Each critical section is one step, so the steps of the worker and of
  any number of stops interleave as they can in the program. The runs are numbered, and
  a run's number stands for its cancel function.
\<close>

datatype phase = PIdle | PTaken Job | PRunning nat Job

record csys =
  cQueue :: Queue
  cPhase :: phase
  cActive :: "(string \<times> nat) option"
  cNext :: nat
  cCalls :: "nat list"
  cCancelled :: "nat list"
  cStops :: "string list"

definition init_csys :: csys where
  "init_csys = \<lparr>cQueue = NewQueue, cPhase = PIdle, cActive = None, cNext = 0, cCalls = [], cCancelled = [], cStops = []\<rparr>"

definition setActiveCancel :: "string \<Rightarrow> nat \<Rightarrow> csys \<Rightarrow> csys" where
  "setActiveCancel taskID n s = s\<lparr>cActive := Some (taskID, n)\<rparr>"

text \<open>The locked part of \<open>cancelActive\<close>: the function to call, and the registration.\<close>

definition cancelActive :: "string \<Rightarrow> csys \<Rightarrow> nat option \<times> csys" where
  "cancelActive taskID s =
     (case cActive s of
        Some (cur, n) \<Rightarrow> if cur = taskID then (Some n, s\<lparr>cActive := None\<rparr>) else (None, s)
      | None \<Rightarrow> (None, s))"

text \<open>
  \<open>drop_jobs\<close> and \<open>stop\<close> are the two critical sections of one \<open>StopTask\<close>; \<open>call\<close> is a stop that
  calls the function it took. \<open>finish\<close> is the deferred clean-up of \<open>run\<close>.
\<close>

inductive cstep :: "csys \<Rightarrow> csys \<Rightarrow> bool" where
  submit: "cstep s (s\<lparr>cQueue := Enqueue j (cQueue s)\<rparr>)"
| take: "cPhase s = PIdle \<Longrightarrow> Take (cQueue s) = Some (j, q) \<Longrightarrow> cstep s (s\<lparr>cQueue := q, cPhase := PTaken j\<rparr>)"
| skip: "cPhase s = PTaken j \<Longrightarrow> cstep s (s\<lparr>cPhase := PIdle\<rparr>)"
| register: "cPhase s = PTaken j \<Longrightarrow>
     cstep s (setActiveCancel (jTaskID j) (cNext s) (s\<lparr>cPhase := PRunning (cNext s) j, cNext := Suc (cNext s)\<rparr>))"
| finish: "cPhase s = PRunning n j \<Longrightarrow> cancelActive (jTaskID j) s = (r, s') \<Longrightarrow>
     cstep s (s'\<lparr>cPhase := PIdle, cCancelled := n # cCancelled s\<rparr>)"
| drop_jobs: "cstep s (s\<lparr>cQueue := DropTask t (cQueue s)\<rparr>)"
| stop: "cancelActive t s = (r, s') \<Longrightarrow>
     cstep s (s'\<lparr>cStops := t # cStops s, cCalls := (case r of None \<Rightarrow> cCalls s | Some n \<Rightarrow> n # cCalls s)\<rparr>)"
| call: "n \<in> set (cCalls s) \<Longrightarrow> cstep s (s\<lparr>cCalls := remove1 n (cCalls s), cCancelled := n # cCancelled s\<rparr>)"

inductive_cases cstepE: "cstep s t"

inductive creachable :: "csys \<Rightarrow> bool" where
  cstart: "creachable init_csys"
| cnext: "creachable s \<Longrightarrow> cstep s t \<Longrightarrow> creachable t"

text \<open>
  The registration is the running job's; numbers are given out once; and whoever holds or has called
  the cancel function of the running job came from a stop of its task.
\<close>

definition cancel_ok :: "csys \<Rightarrow> bool" where
  "cancel_ok s \<longleftrightarrow>
     (\<forall>t n. cActive s = Some (t, n) \<longrightarrow> (\<exists>j. cPhase s = PRunning n j \<and> jTaskID j = t)) \<and>
     (\<forall>n \<in> set (cCalls s) \<union> set (cCancelled s). n < cNext s) \<and>
     (\<forall>n j. cPhase s = PRunning n j \<longrightarrow> n < cNext s \<and>
        (n \<in> set (cCalls s) \<union> set (cCancelled s) \<longrightarrow> jTaskID j \<in> set (cStops s)))"

lemma cancelActive_cases:
  assumes "cancelActive t s = (r, s')"
  obtains n where "cActive s = Some (t, n)" "r = Some n" "s' = s\<lparr>cActive := None\<rparr>"
  | "\<forall>n. cActive s \<noteq> Some (t, n)" "r = None" "s' = s"
  using assms by (auto simp: cancelActive_def split: option.splits if_splits)

lemma cstep_ok: "cstep s t \<Longrightarrow> cancel_ok s \<Longrightarrow> cancel_ok t"
proof (induction rule: cstep.induct)
  case (finish s n j r s')
  from finish.hyps(2) show ?case
    by (cases rule: cancelActive_cases) (use finish.hyps(1) finish.prems in \<open>auto simp: cancel_ok_def\<close>)
next
  case (stop t s r s')
  from stop.hyps show ?case
    by (cases rule: cancelActive_cases) (use stop.prems in \<open>auto simp: cancel_ok_def\<close>)
next
  case (call n s)
  then show ?case using set_remove1_subset [of n "cCalls s"] by (auto simp: cancel_ok_def)
next
  case (register s j)
  then have "\<forall>n \<in> set (cCalls s) \<union> set (cCancelled s). n < cNext s" by (simp add: cancel_ok_def)
  then have "cNext s \<notin> set (cCalls s) \<union> set (cCancelled s)" "\<forall>n \<in> set (cCalls s) \<union> set (cCancelled s). n < Suc (cNext s)"
    using less_Suc_eq by blast+
  then show ?case by (simp add: cancel_ok_def setActiveCancel_def)
qed (auto simp: cancel_ok_def)

lemma creachable_ok: "creachable s \<Longrightarrow> cancel_ok s"
  by (induction rule: creachable.induct) (auto simp: cancel_ok_def init_csys_def dest: cstep_ok)

text \<open>C9. A stop never hits another task: in every interleaving, a job in progress whose context has been
  cancelled belongs to a task that was stopped, and the registration always names the job in
  progress.\<close>

theorem cancel_hits_own_task:
  assumes "creachable s" "cPhase s = PRunning n j"
  shows "(n \<in> set (cCancelled s) \<longrightarrow> jTaskID j \<in> set (cStops s)) \<and>
    (cActive s = None \<or> cActive s = Some (jTaskID j, n))"
  using creachable_ok [OF assms(1)] assms(2) unfolding cancel_ok_def by (cases "cActive s") auto

definition stop_job :: Job where
  "stop_job = \<lparr>jTaskID = ''t_1'', jScope = ScopeUpload, jTrigger = TriggerManual, jDir = ''/m'', jFile = []\<rparr>"

definition after_take :: csys where
  "after_take = init_csys\<lparr>cQueue := snd (the (Take (Enqueue stop_job NewQueue))), cPhase := PTaken stop_job\<rparr>"

lemma after_take_reachable: "creachable after_take"
proof -
  have t: "Take (Enqueue stop_job NewQueue) = Some (stop_job, snd (the (Take (Enqueue stop_job NewQueue))))"
    by code_simp
  have "creachable (init_csys\<lparr>cQueue := Enqueue stop_job NewQueue\<rparr>)"
    using creachable.cnext [OF creachable.cstart cstep.submit [of init_csys stop_job]] by (simp add: init_csys_def)
  from creachable.cnext [OF this cstep.take [of _ stop_job]] t show ?thesis
    by (simp add: after_take_def init_csys_def)
qed

theorem cancel_hits_own_task_witness:
  "\<exists>s n. creachable s \<and> cPhase s = PRunning n stop_job \<and>
     (cActive s = None \<or> cActive s = Some (jTaskID stop_job, n))"
proof -
  have "cPhase after_take = PTaken stop_job" by (simp add: after_take_def)
  from creachable.cnext [OF after_take_reachable cstep.register [OF this]]
  obtain s where s: "creachable s" "cPhase s = PRunning (cNext after_take) stop_job"
    by (auto simp: setActiveCancel_def)
  from cancel_hits_own_task [OF this] this show ?thesis by blast
qed

text \<open>A stop can come too late and too early at once: between taking a job from the queue and registering it,
  there is nothing to drop and nothing to cancel. A stop that runs completely in this gap
  leaves the job of the stopped task running, not cancelled, with no call outstanding.\<close>

theorem stop_misses_taken_job:
  "\<exists>s n. creachable s \<and> cPhase s = PRunning n stop_job \<and> cStops s = [jTaskID stop_job] \<and>
     n \<notin> set (cCancelled s) \<and> cCalls s = [] \<and> Len (cQueue s) = 0"
proof -
  let ?q = "DropTask ''t_1'' (cQueue after_take)"
  have q: "Len ?q = 0" by code_simp
  have "creachable (after_take\<lparr>cQueue := ?q\<rparr>)"
    by (rule creachable.cnext [OF after_take_reachable cstep.drop_jobs])
  moreover have "cstep (after_take\<lparr>cQueue := ?q\<rparr>) (after_take\<lparr>cQueue := ?q, cStops := [''t_1'']\<rparr>)"
    using cstep.stop [of "''t_1''" "after_take\<lparr>cQueue := ?q\<rparr>" None "after_take\<lparr>cQueue := ?q\<rparr>"]
    by (simp add: cancelActive_def after_take_def init_csys_def)
  ultimately have "creachable (after_take\<lparr>cQueue := ?q, cStops := [''t_1'']\<rparr>)" by (rule creachable.cnext)
  from creachable.cnext [OF this cstep.register [of _ stop_job]] q show ?thesis
    by (intro exI [of _ "setActiveCancel ''t_1'' 0 (after_take\<lparr>cQueue := ?q, cStops := [''t_1''], cPhase := PRunning 0 stop_job, cNext := 1\<rparr>)"]
        exI [of _ "0 :: nat"])
       (simp add: setActiveCancel_def after_take_def init_csys_def stop_job_def)
qed

end
