(* ===== verification/Engine_Runner.thy ===== *)
theory Engine_Runner
  imports Job_Queue Task_Conf Mirror_Model "HOL-Library.Signed_Division"
begin

text \<open>
  What triggers work: \<open>internal/engine/runner.go\<close> (a task's watcher, timer and debouncer, which
  only submit jobs) and \<open>progress.go\<close> (the throttled progress counter). Durations are Go's 64-bit
  nanoseconds; points in time are integers in nanoseconds, \<open>None\<close> being the zero time.
\<close>

section \<open>The runner\<close>

record runner =
  rrTask :: Task
  rrRules :: Rules
  rrInitializing :: bool
  rrStarted :: bool
  rrStopped :: bool
  rrCancelled :: bool
  rrLastCron :: "int option"
  rrLastRun :: "int option"
  rrCronStart :: "int option"

definition newRunner :: "Rules \<Rightarrow> Task \<Rightarrow> runner" where
  "newRunner rules t =
     \<lparr>rrTask = t, rrRules = rules, rrInitializing = False, rrStarted = False, rrStopped = False, rrCancelled = False,
      rrLastCron = None, rrLastRun = None, rrCronStart = None\<rparr>"

definition nano_hour :: i64 where "nano_hour = 3600000000000"
definition nano_minute :: i64 where "nano_minute = 60000000000"

definition cron_duration :: "Task \<Rightarrow> i64" where
  "cron_duration t = of_int (CronInterval t) * nano_hour"

definition quiet_duration :: "Task \<Rightarrow> i64" where
  "quiet_duration t = of_int (QuietWindow t) * nano_minute"

text \<open>\<open>time.NewTicker\<close> panics on an interval that is not positive.\<close>

definition new_ticker :: "i64 \<Rightarrow> (unit, unit) outcome" where
  "new_ticker d = (if 0 <s d then Ok () else Panic)"

definition nextCron :: "int \<Rightarrow> runner \<Rightarrow> int option" where
  "nextCron now r =
     (if \<not> coEnabled (tkCron (rrTask r)) then None
      else
        let interval = sint (cron_duration (rrTask r)) in
        case rrLastCron r of
          Some lst \<Rightarrow> Some (lst + interval)
        | None \<Rightarrow>
            (case rrCronStart r of
               None \<Rightarrow> None
             | Some base \<Rightarrow> Some (base + ((now - base) sdiv interval + 1) * interval)))"

text \<open>
  \<open>start\<close> makes a fresh context and begins watching and ticking as the task says. \<open>stop\<close> works
  once: the first call cancels the context of the runner if it has one; a runner stopped
  before it is started is not cancelled, then or later.
\<close>

definition runner_start :: "runner \<Rightarrow> runner" where
  "runner_start r = r\<lparr>rrStarted := True, rrCancelled := False\<rparr>"

definition runner_stop :: "runner \<Rightarrow> runner" where
  "runner_stop r = (if rrStopped r then r else r\<lparr>rrStopped := True, rrCancelled := rrStarted r\<rparr>)"

definition watching :: "runner \<Rightarrow> bool" where
  "watching r \<longleftrightarrow> rrStarted r \<and> \<not> rrCancelled r \<and> WatchEnabled (rrTask r)"

definition ticking :: "runner \<Rightarrow> bool" where
  "ticking r \<longleftrightarrow> rrStarted r \<and> \<not> rrCancelled r \<and> coEnabled (tkCron (rrTask r))"

definition scopes :: "Task \<Rightarrow> Scope list" where
  "scopes t =
     (if UploadEnabled t then [ScopeUpload] else []) @ (if DownloadEnabled t then [ScopeDownload] else [])"

definition trigger_job :: "Task \<Rightarrow> Trigger \<Rightarrow> Scope \<Rightarrow> Job" where
  "trigger_job t tr sc = \<lparr>jTaskID = tkID t, jScope = sc, jTrigger = tr, jDir = tkLocalDir t, jFile = []\<rparr>"

definition trigger :: "runner \<Rightarrow> Trigger \<Rightarrow> Queue \<Rightarrow> Queue" where
  "trigger r tr q = fold (\<lambda>sc. Enqueue (trigger_job (rrTask r) tr sc)) (scopes (rrTask r)) q"

text \<open>\<open>cronLoop\<close>: its start, and one tick.\<close>

definition cron_begin :: "int \<Rightarrow> runner \<Rightarrow> (unit, runner) outcome" where
  "cron_begin now r =
     (case new_ticker (cron_duration (rrTask r)) of
        Panic \<Rightarrow> Panic
      | _ \<Rightarrow> Ok (r\<lparr>rrCronStart := Some now\<rparr>))"

definition cron_tick :: "int \<Rightarrow> runner \<Rightarrow> Queue \<Rightarrow> runner \<times> Queue" where
  "cron_tick now r q = (r\<lparr>rrLastCron := Some now\<rparr>, trigger r TriggerCron q)"

section \<open>Watching\<close>

text \<open>
  The debouncer: the directories armed since the last batch, whether its channel of capacity one
  holds a token, and when the timer will fire.
\<close>

record debouncer =
  dbPending :: "string list"
  dbKick :: bool
  dbTimer :: "int option"

definition newDebouncer :: debouncer where
  "newDebouncer = \<lparr>dbPending = [], dbKick = False, dbTimer = None\<rparr>"

definition Arm :: "int \<Rightarrow> int \<Rightarrow> string \<Rightarrow> debouncer \<Rightarrow> debouncer" where
  "Arm now window dir b = b\<lparr>dbPending := List.insert dir (dbPending b), dbTimer := Some (now + window)\<rparr>"

definition db_notify :: "debouncer \<Rightarrow> debouncer" where
  "db_notify b = b\<lparr>dbKick := True, dbTimer := None\<rparr>"

definition db_take :: "debouncer \<Rightarrow> string list \<times> debouncer" where
  "db_take b = (dbPending b, b\<lparr>dbPending := []\<rparr>)"

text \<open>Receiving from the channel that \<open>Kick\<close> returns: \<open>None\<close> while it is empty.\<close>

definition db_recv :: "debouncer \<Rightarrow> debouncer option" where
  "db_recv b = (if dbKick b then Some (b\<lparr>dbKick := False\<rparr>) else None)"

definition db_stop :: "debouncer \<Rightarrow> debouncer" where
  "db_stop b = b\<lparr>dbTimer := None\<rparr>"

text \<open>The jobs a watcher submits, and what it does with one event.\<close>

definition watch_job :: "Task \<Rightarrow> string \<Rightarrow> string \<Rightarrow> Job" where
  "watch_job t dir file =
     \<lparr>jTaskID = tkID t, jScope = ScopeUpload, jTrigger = TriggerWatch, jDir = dir, jFile = file\<rparr>"

definition dispatch :: "int \<Rightarrow> runner \<Rightarrow> string \<Rightarrow> debouncer \<Rightarrow> Queue \<Rightarrow> debouncer \<times> Queue" where
  "dispatch now r path b q =
     (if tkInstantNow (rrTask r) \<and> (IsVideoExt (rrRules r) path \<or> equal_fold (path_ext path) ''.strm'')
      then (b, Enqueue (watch_job (rrTask r) [] path) q)
      else (Arm now (sint (quiet_duration (rrTask r))) (path_dir path) b, q))"

definition ShouldInclude :: "string \<Rightarrow> string \<Rightarrow> bool" where
  "ShouldInclude dir path \<longleftrightarrow> dir = [] \<or> (path \<noteq> dir \<and> \<not> has_prefix path (dir @ ''/''))"

section \<open>Progress\<close>

record Progress =
  pgTotal :: i64
  pgCompleted :: i64
  pgRunning :: bool
  pgCurrent :: "string option"
  pgLastNotify :: int
  pgTimer :: bool

definition NewProgress :: Progress where
  "NewProgress = \<lparr>pgTotal = 0, pgCompleted = 0, pgRunning = False, pgCurrent = None, pgLastNotify = 0, pgTimer = False\<rparr>"

definition notifyInterval :: int where "notifyInterval = 200000000"

text \<open>
  \<open>emit\<close> at time \<open>now\<close>: whether the callback is called at once; otherwise a timer is pending.
  \<open>timer_fires\<close> is the delayed call.
\<close>

definition emit :: "int \<Rightarrow> Progress \<Rightarrow> bool \<times> Progress" where
  "emit now p =
     (if notifyInterval \<le> now - pgLastNotify p then (True, p\<lparr>pgLastNotify := now\<rparr>)
      else (False, p\<lparr>pgTimer := True\<rparr>))"

definition timer_fires :: "int \<Rightarrow> Progress \<Rightarrow> bool \<times> Progress" where
  "timer_fires now p = (True, p\<lparr>pgTimer := False, pgLastNotify := now\<rparr>)"

definition Progress_Reset :: "int \<Rightarrow> i64 \<Rightarrow> Progress \<Rightarrow> bool \<times> Progress" where
  "Progress_Reset now n p = emit now (p\<lparr>pgTotal := n, pgCompleted := 0\<rparr>)"

definition Advance :: "int \<Rightarrow> Progress \<Rightarrow> bool \<times> Progress" where
  "Advance now p = emit now (p\<lparr>pgCompleted := pgCompleted p + 1\<rparr>)"

definition SetCurrent :: "int \<Rightarrow> string \<Rightarrow> Progress \<Rightarrow> bool \<times> Progress" where
  "SetCurrent now path p =
     (if path = [] then (False, p\<lparr>pgCurrent := None\<rparr>) else emit now (p\<lparr>pgCurrent := Some path\<rparr>))"

definition SetRunning :: "int \<Rightarrow> bool \<Rightarrow> Progress \<Rightarrow> bool \<times> Progress" where
  "SetRunning now v p = (if pgRunning p \<noteq> v then emit now (p\<lparr>pgRunning := v\<rparr>) else (False, p))"

definition Progress_Snapshot :: "Progress \<Rightarrow> bool \<times> i64 \<times> i64 \<times> string" where
  "Progress_Snapshot p =
     (pgRunning p, pgCompleted p, pgTotal p, case pgCurrent p of None \<Rightarrow> [] | Some s \<Rightarrow> s)"

end
