(* ===== verification/Engine_Core.thy ===== *)
theory Engine_Core
  imports Engine_Runner Mirror_Scan Store_Activity
begin

text \<open>
  \<open>internal/engine/engine.go\<close>: the engine that owns the runners, the queue and the single
  worker. The first part is the work itself: initialising a task, one upload run, one download
  run and their rehearsal, as steps on the same world as the executor. The second part is
  the state of the engine and its operations; the third, the registration that lets \<open>StopTask\<close>
  cancel the job in progress, is the theory \<open>Engine_Cancel\<close>.
\<close>

section \<open>The host\<close>

text \<open>
  The world as the engine sees it: the calls of the executor, and what the planner and the scans read.
  \<open>hoCount\<close>, \<open>hoAppend\<close> and \<open>hoDeleteTask\<close> are \<open>Store.CountRecursive\<close>, \<open>Store.Append\<close> and
  \<open>Store.DeleteTask\<close>.
\<close>

record 'w host =
  hoEnv :: "'w env"
  hoFS :: "'w \<Rightarrow> FS"
  hoIndex :: "'w \<Rightarrow> Index"
  hoCloud :: "'w \<Rightarrow> cloud"
  hoCount :: "'w \<Rightarrow> ctx \<Rightarrow> string \<Rightarrow> (i64 \<times> ctx) option"
  hoAppend :: "'w \<Rightarrow> Event \<Rightarrow> bool \<times> 'w"
  hoDeleteTask :: "'w \<Rightarrow> string \<Rightarrow> 'w option"

text \<open>What a run needs of the engine beside the task.\<close>

record shared =
  shSettings :: Settings
  shTempFid :: string
  shCacheDir :: string
  shLower :: "string \<Rightarrow> string"
  shAuth :: "string \<Rightarrow> bool"
  shFuel :: nat

definition paths_of :: "shared \<Rightarrow> Task \<Rightarrow> Paths" where
  "paths_of sh t =
     \<lparr>paLocalDir = tkLocalDir t, paCloudDir = CleanCloudDir (tkCloudDir t), paCloudFid = [],
      paTempFid = shTempFid sh, paStrmURL = seStrmURL (shSettings sh), paCacheDir = shCacheDir sh\<rparr>"

definition localCfg :: "Task \<Rightarrow> LocalCfg" where
  "localCfg t = \<lparr>lcToStrm = tkToStrm t, lcToCache = tkToCache t, lcExcludeDir = []\<rparr>"

definition cloudCfg :: "Task \<Rightarrow> CloudCfg" where
  "cloudCfg t = \<lparr>ccToStrm = tkToStrmDl t, ccDropStale = (tkUpload t \<and> tkDownload t),
     ccArchive = (tkArchive t \<and> \<not> tkUpload t)\<rparr>"

definition rulesOf :: "shared \<Rightarrow> Rules" where
  "rulesOf sh = NewRules (shLower sh) (seVideoExts (shSettings sh)) (seUploadExclude (shSettings sh))"

definition applier_of :: "shared \<Rightarrow> Paths \<Rightarrow> applier" where
  "applier_of sh paths = \<lparr>apPaths = paths, apRules = rulesOf sh, apAuth = shAuth sh\<rparr>"

definition planner_of :: "'w host \<Rightarrow> shared \<Rightarrow> 'w \<Rightarrow> Paths \<Rightarrow> LocalCfg \<Rightarrow> planner" where
  "planner_of ho sh w paths cfg =
     \<lparr>plFS = hoFS ho w, plIdx = hoIndex ho w, plRules = rulesOf sh, plCfg = cfg, plPaths = paths, plAuth = shAuth sh\<rparr>"

section \<open>Runs\<close>

text \<open>A step from a computation on the context that may not return.\<close>

definition step_scan :: "('w \<Rightarrow> ctx \<Rightarrow> (('e + 'a) \<times> ctx) option) \<Rightarrow> ('w, 'a) step" where
  "step_scan f s =
     map_option (\<lambda>(r, c). (case r of Inl _ \<Rightarrow> None | Inr a \<Rightarrow> Some a, s\<lparr>rnCtx := c\<rparr>)) (f (rnWorld s) (rnCtx s))"

text \<open>
  The plan of an upload job: \<open>PlanFile\<close> for a file, \<open>PlanLocal\<close> for a directory, with the context
  they leave behind.
\<close>

definition plan_local_step :: "planner \<Rightarrow> nat \<Rightarrow> string \<Rightarrow> ctx \<Rightarrow> ((fs_error + Op list) \<times> ctx) option" where
  "plan_local_step p n root c =
     map_option (\<lambda>(ops, ps). (case psErr ps of Some e \<Rightarrow> Inl e | None \<Rightarrow> Inr ops, psCtx ps))
       (planDir p n root \<lparr>psCtx = c, psErr = None\<rparr>)"

definition plan_file_step :: "planner \<Rightarrow> nat \<Rightarrow> string \<Rightarrow> ctx \<Rightarrow> ((fs_error + Op list) \<times> ctx) option" where
  "plan_file_step p n path c =
     (let go = (\<lambda>st. map_option (\<lambda>(ops, ps). (Inr ops, psCtx ps))
                  (decide p (planDir p n) path (get_rec (plIdx p) path) st \<lparr>psCtx = c, psErr = None\<rparr>))
      in case fsStat (plFS p) path of
           Inl e \<Rightarrow> if e = FsNotExist then go missing_state else Some (Inl e, c)
         | Inr info \<Rightarrow> go (StateFromInfo info))"

definition upload_target :: "Paths \<Rightarrow> Job \<Rightarrow> string" where
  "upload_target paths job =
     (if jFile job \<noteq> [] then jFile job
      else if jDir job \<noteq> [] \<and> jDir job \<noteq> paLocalDir paths then jDir job else paLocalDir paths)"

definition set_dirs :: "string \<Rightarrow> Stats \<Rightarrow> Stats" where
  "set_dirs tgt st = (if Stats_Empty st then st else st\<lparr>sDirs := [tgt]\<rparr>)"

definition upload_paths :: "'w host \<Rightarrow> shared \<Rightarrow> Task \<Rightarrow> 'w \<Rightarrow> Paths" where
  "upload_paths ho sh t w =
     (paths_of sh t)\<lparr>paCloudFid := idx_fid (hoEnv ho) w (tkLocalDir t)\<rparr>"

definition upload_cfg :: "shared \<Rightarrow> Task \<Rightarrow> LocalCfg" where
  "upload_cfg sh t = (localCfg t)\<lparr>lcExcludeDir := shCacheDir sh\<rparr>"

definition runUpload :: "'w host \<Rightarrow> shared \<Rightarrow> Job \<Rightarrow> Task \<Rightarrow> ('w, unit) step" where
  "runUpload ho sh job t =
     step_bind (step_read (upload_paths ho sh t)) (\<lambda>paths.
     if paCloudFid paths = [] then step_fail
     else
       step_bind
         (step_scan (\<lambda>w c.
            let p = planner_of ho sh w paths (upload_cfg sh t) in
            if jFile job \<noteq> [] then plan_file_step p (shFuel sh) (jFile job) c
            else plan_local_step p (shFuel sh) (if jDir job = [] then paLocalDir paths else jDir job) c)) (\<lambda>ops.
       step_bind (Apply (hoEnv ho) (applier_of sh paths) (upload_cfg sh t) ops) (\<lambda>_.
       step_count (set_dirs (upload_target paths job)))))"

text \<open>The context after a cloud plan: one check per file of the snapshot.\<close>

definition plan_cloud_step :: "'w host \<Rightarrow> shared \<Rightarrow> Paths \<Rightarrow> CloudCfg \<Rightarrow> CloudTree \<Rightarrow> 'w \<Rightarrow> ctx \<Rightarrow>
    ((store_error + Op list) \<times> ctx) option" where
  "plan_cloud_step ho sh paths cfg tree w c =
     Some (PlanCloud (hoFS ho w) (hoIndex ho w) (rulesOf sh) paths cfg c tree,
           map_option (\<lambda>k. k - length (FileItems tree)) c)"

definition download_plan :: "'w host \<Rightarrow> shared \<Rightarrow> Task \<Rightarrow> Paths \<Rightarrow> DirInfo \<Rightarrow> ('w, Op list) step" where
  "download_plan ho sh t paths rootInfo =
     step_bind (step_scan (\<lambda>w c. LocalTreeCount (hoFS ho w) (shFuel sh) c (paLocalDir paths) (rulesOf sh) (shCacheDir sh)))
       (\<lambda>localCount.
     step_bind (step_scan (\<lambda>w c. ScanCloud (hoCloud ho w) (shFuel sh) c paths (Some localCount) (Some rootInfo)))
       (\<lambda>tree.
     step_scan (plan_cloud_step ho sh paths (cloudCfg t) tree)))"

definition runDownload :: "'w host \<Rightarrow> shared \<Rightarrow> Task \<Rightarrow> ('w, unit) step" where
  "runDownload ho sh t =
     step_bind (EnsureCloudDir (hoEnv ho) (paCloudDir (paths_of sh t))) (\<lambda>rootInfo.
     let paths = (paths_of sh t)\<lparr>paCloudFid := diFid rootInfo\<rparr> in
     step_bind (download_plan ho sh t paths rootInfo) (\<lambda>ops.
     step_bind (Apply (hoEnv ho) (applier_of sh paths) (localCfg t) ops) (\<lambda>_.
     step_count (set_dirs (paCloudDir paths)))))"

definition execute :: "'w host \<Rightarrow> shared \<Rightarrow> Job \<Rightarrow> Task \<Rightarrow> ('w, unit) step" where
  "execute ho sh job t =
     (if jScope job = ScopeUpload then runUpload ho sh job t
      else if jScope job = ScopeDownload then runDownload ho sh t
      else step_fail)"

text \<open>A rehearsal only reads: its cloud query is \<open>GetDirInfo\<close>, and the plan is the result.\<close>

definition dry_run :: "'w host \<Rightarrow> shared \<Rightarrow> Task \<Rightarrow> Scope \<Rightarrow> ('w, Op list) step" where
  "dry_run ho sh t scope =
     (if scope = ScopeUpload then
        step_bind (step_read (upload_paths ho sh t)) (\<lambda>paths.
        step_scan (\<lambda>w c. plan_local_step (planner_of ho sh w paths (upload_cfg sh t)) (shFuel sh) (paLocalDir paths) c))
      else
        step_bind (step_call (\<lambda>w. evGetDirInfo (hoEnv ho) w (paCloudDir (paths_of sh t)))) (\<lambda>info.
        download_plan ho sh t ((paths_of sh t)\<lparr>paCloudFid := diFid info\<rparr>) info))"

text \<open>\<open>initTask\<close>: the local directory, the cloud root, the index of the task.\<close>

definition count_index :: "'w host \<Rightarrow> string \<Rightarrow> ('w, i64) step" where
  "count_index ho path s =
     map_option (\<lambda>(n, c). (Some n, s\<lparr>rnCtx := c\<rparr>)) (hoCount ho (rnWorld s) (rnCtx s) path)"

definition build_index :: "'w host \<Rightarrow> shared \<Rightarrow> Paths \<Rightarrow> bool \<Rightarrow> ('w, unit) step" where
  "build_index ho sh paths toStrm s =
     map_option (\<lambda>((err, c), w). (if err = None then Some () else None, s\<lparr>rnCtx := c, rnWorld := w\<rparr>))
       (BuildIndex (hoCloud ho (rnWorld s)) (shFuel sh) (evIdxPut (hoEnv ho)) paths (rulesOf sh) toStrm
         (rnCtx s) (rnWorld s))"

definition initTask :: "'w host \<Rightarrow> shared \<Rightarrow> Task \<Rightarrow> ('w, unit) step" where
  "initTask ho sh t =
     (let paths = paths_of sh t; root = paLocalDir paths in
      step_bind (step_do (\<lambda>w. evMkdirAll (hoEnv ho) w root)) (\<lambda>_.
      step_bind (EnsureCloudDir (hoEnv ho) (paCloudDir paths)) (\<lambda>rootInfo.
      let fid = diFid rootInfo in
      step_bind (step_read (\<lambda>w. idx_fid (hoEnv ho) w root)) (\<lambda>dbFid.
      step_bind (if dbFid \<noteq> [] \<and> dbFid \<noteq> fid then clear_index (hoEnv ho) root else step_ret ()) (\<lambda>_.
      step_bind (step_change (\<lambda>w. evIdxPut (hoEnv ho) w root
          \<lparr>rFid = fid, rPickCode = [], rKind = KindDir, rSize = 0\<rparr>)) (\<lambda>_.
      if \<not> UploadEnabled t then step_ret ()
      else
        step_bind (count_index ho root) (\<lambda>n.
        if n = 0 then build_index ho sh (paths\<lparr>paCloudFid := fid\<rparr>) (tkToStrm t) else step_ret ())))))))"

definition resolveTempFid :: "'w host \<Rightarrow> string \<Rightarrow> ('w, string) step" where
  "resolveTempFid ho temp s =
     (case evGetDirInfo (hoEnv ho) (rnWorld s) temp of
        (Some info, w) \<Rightarrow> Some (Some (diFid info), s\<lparr>rnWorld := w\<rparr>)
      | (None, w) \<Rightarrow>
          step_bind (EnsureCloudDir (hoEnv ho) temp) (\<lambda>info. step_ret (diFid info)) (s\<lparr>rnWorld := w\<rparr>))"

section \<open>The engine\<close>

text \<open>
  The fields of \<open>Engine\<close> under its lock, with the configuration and the world beside them. The maps
  from task ids are association lists.
\<close>

record 'w engine =
  egWorld :: 'w
  egConf :: Config
  egQueue :: Queue
  egRunners :: "(string \<times> runner) list"
  egProgs :: "(string \<times> Progress) list"
  egTempFid :: string
  egStarted :: bool

text \<open>What does not change: the cache directory, the tables of the libraries and the fuel.\<close>

definition shared_of :: "shared \<Rightarrow> 'w engine \<Rightarrow> shared" where
  "shared_of sh e = sh\<lparr>shSettings := cfSettings (egConf e), shTempFid := egTempFid e\<rparr>"

definition start_run :: "ctx \<Rightarrow> 'w engine \<Rightarrow> 'w run" where
  "start_run c e = \<lparr>rnWorld = egWorld e, rnStats = zero_Stats, rnCtx = c, rnTotal = 0, rnDone = 0\<rparr>"

definition popRunner :: "string \<Rightarrow> 'w engine \<Rightarrow> runner option \<times> 'w engine" where
  "popRunner i e =
     (map_of (egRunners e) i, e\<lparr>egRunners := AList.delete i (egRunners e), egProgs := AList.delete i (egProgs e)\<rparr>)"

text \<open>\<open>initRunner\<close>: the error of \<open>initTask\<close> takes the runner out again.\<close>

definition initRunner :: "'w host \<Rightarrow> shared \<Rightarrow> ctx \<Rightarrow> Task \<Rightarrow> 'w engine \<Rightarrow> (runner option \<times> 'w engine) option" where
  "initRunner ho sh c t e =
     (let r = newRunner (rulesOf (shared_of sh e)) t;
          e1 = e\<lparr>egRunners := AList.update (tkID t) (r\<lparr>rrInitializing := True\<rparr>) (egRunners e),
                 egProgs := AList.update (tkID t) NewProgress (egProgs e)\<rparr>
      in case initTask ho (shared_of sh e1) t (start_run c e1) of
           None \<Rightarrow> None
         | Some (None, s) \<Rightarrow> Some (None, snd (popRunner (tkID t) (e1\<lparr>egWorld := rnWorld s\<rparr>)))
         | Some (Some _, s) \<Rightarrow>
             Some (Some r, e1\<lparr>egWorld := rnWorld s, egRunners := AList.update (tkID t) r (egRunners e1)\<rparr>))"

fun init_tasks :: "'w host \<Rightarrow> shared \<Rightarrow> ctx \<Rightarrow> Task list \<Rightarrow> 'w engine \<Rightarrow> (bool \<times> 'w engine) option" where
  "init_tasks ho sh c [] e = Some (True, e)"
| "init_tasks ho sh c (t # ts) e =
     (if \<not> tkEnabled t then init_tasks ho sh c ts e
      else case initRunner ho sh c t e of
        None \<Rightarrow> None
      | Some (None, e1) \<Rightarrow> Some (False, e1)
      | Some (Some _, e1) \<Rightarrow> init_tasks ho sh c ts e1)"

definition Init :: "'w host \<Rightarrow> shared \<Rightarrow> ctx \<Rightarrow> 'w engine \<Rightarrow> (bool \<times> 'w engine) option" where
  "Init ho sh c e =
     (case resolveTempFid ho (seTempDir (cfSettings (egConf e))) (start_run c e) of
        None \<Rightarrow> None
      | Some (None, s) \<Rightarrow> Some (False, e\<lparr>egWorld := rnWorld s\<rparr>)
      | Some (Some fid, s) \<Rightarrow>
          init_tasks ho sh c (ListTasks (egConf e)) (e\<lparr>egWorld := rnWorld s, egTempFid := fid\<rparr>))"

definition Start :: "'w engine \<Rightarrow> 'w engine" where
  "Start e = e\<lparr>egStarted := True, egRunners := map (\<lambda>(i, r). (i, runner_start r)) (egRunners e)\<rparr>"

definition EnsureRunning :: "'w host \<Rightarrow> shared \<Rightarrow> ctx \<Rightarrow> 'w engine \<Rightarrow> (bool \<times> 'w engine) option" where
  "EnsureRunning ho sh c e =
     (if egStarted e then Some (True, e)
      else case Init ho sh c e of
        None \<Rightarrow> None
      | Some (False, e1) \<Rightarrow> Some (False, e1)
      | Some (True, e1) \<Rightarrow> Some (True, Start e1))"

definition ReloadTask :: "'w host \<Rightarrow> shared \<Rightarrow> ctx \<Rightarrow> Task \<Rightarrow> 'w engine \<Rightarrow> (bool \<times> 'w engine) option" where
  "ReloadTask ho sh c t e =
     (let e1 = snd (popRunner (tkID t) (e\<lparr>egQueue := DropTask (tkID t) (egQueue e)\<rparr>)) in
      if \<not> tkEnabled t then Some (True, e1)
      else case initRunner ho sh c t e1 of
        None \<Rightarrow> None
      | Some (None, e2) \<Rightarrow> Some (False, e2)
      | Some (Some r, e2) \<Rightarrow>
          Some (True, if egStarted e
            then e2\<lparr>egRunners := AList.update (tkID t) (runner_start r) (egRunners e2)\<rparr> else e2))"

fun reload_tasks :: "'w host \<Rightarrow> shared \<Rightarrow> ctx \<Rightarrow> Task list \<Rightarrow> 'w engine \<Rightarrow> (bool \<times> 'w engine) option" where
  "reload_tasks ho sh c [] e = Some (True, e)"
| "reload_tasks ho sh c (t # ts) e =
     (case ReloadTask ho sh c t e of
        None \<Rightarrow> None
      | Some (False, e1) \<Rightarrow> Some (False, e1)
      | Some (True, e1) \<Rightarrow> reload_tasks ho sh c ts e1)"

definition ReloadAll :: "'w host \<Rightarrow> shared \<Rightarrow> ctx \<Rightarrow> 'w engine \<Rightarrow> (bool \<times> 'w engine) option" where
  "ReloadAll ho sh c e =
     (case resolveTempFid ho (seTempDir (cfSettings (egConf e))) (start_run c e) of
        None \<Rightarrow> None
      | Some (None, s) \<Rightarrow> Some (False, e\<lparr>egWorld := rnWorld s\<rparr>)
      | Some (Some fid, s) \<Rightarrow>
          reload_tasks ho sh c (ListTasks (egConf e)) (e\<lparr>egWorld := rnWorld s, egTempFid := fid\<rparr>))"

definition Engine_RemoveTask :: "string \<Rightarrow> 'w engine \<Rightarrow> 'w engine" where
  "Engine_RemoveTask i e =
     (let e1 = snd (popRunner i (e\<lparr>egQueue := DropTask i (egQueue e)\<rparr>))
      in e1\<lparr>egProgs := AList.delete i (egProgs e1)\<rparr>)"

datatype start_error = NotReady | StillInitializing

definition StartTask :: "string \<Rightarrow> 'w engine \<Rightarrow> start_error option \<times> 'w engine" where
  "StartTask i e =
     (case map_of (egRunners e) i of
        None \<Rightarrow> (Some NotReady, e)
      | Some r \<Rightarrow>
          if rrInitializing r then (Some StillInitializing, e)
          else (None, e\<lparr>egQueue := trigger r TriggerManual (egQueue e)\<rparr>))"

definition StopTask :: "string \<Rightarrow> 'w engine \<Rightarrow> 'w engine" where
  "StopTask i e =
     (case map_of (egRunners e) i of
        None \<Rightarrow> e
      | Some r \<Rightarrow> e\<lparr>egQueue := DropTask i (egQueue e),
                    egRunners := AList.update i (runner_stop r) (egRunners e)\<rparr>)"

definition Shutdown :: "'w engine \<Rightarrow> 'w engine" where
  "Shutdown e = e\<lparr>egQueue := Job_Queue.Close (egQueue e),
     egRunners := map (\<lambda>(i, r). (i, runner_stop r)) (egRunners e)\<rparr>"

definition HasRunner :: "string \<Rightarrow> 'w engine \<Rightarrow> bool" where
  "HasRunner i e \<longleftrightarrow> map_of (egRunners e) i \<noteq> None"

definition Initializing :: "string \<Rightarrow> 'w engine \<Rightarrow> bool" where
  "Initializing i e \<longleftrightarrow> (case map_of (egRunners e) i of None \<Rightarrow> False | Some r \<Rightarrow> rrInitializing r)"

datatype dry_error = UnknownTask | NotIndexed | PlanFailed

definition DryRun :: "'w host \<Rightarrow> shared \<Rightarrow> ctx \<Rightarrow> string \<Rightarrow> Scope \<Rightarrow> 'w engine \<Rightarrow> ((dry_error + Op list) \<times> 'w engine) option" where
  "DryRun ho sh c i scope e =
     (case GetTask i (egConf e) of
        None \<Rightarrow> Some (Inl UnknownTask, e)
      | Some t \<Rightarrow>
          if Initializing i e then Some (Inl NotIndexed, e)
          else map_option (\<lambda>(r, s). (case r of None \<Rightarrow> Inl PlanFailed | Some ops \<Rightarrow> Inr ops, e\<lparr>egWorld := rnWorld s\<rparr>))
                 (dry_run ho (shared_of sh e) t scope (start_run c e)))"

definition prog_of :: "string \<Rightarrow> 'w engine \<Rightarrow> Progress" where
  "prog_of i e = (case map_of (egProgs e) i of Some p \<Rightarrow> p | None \<Rightarrow> NewProgress)"

record TaskRuntime =
  trID :: string
  trName :: string
  trRunning :: bool
  trInitializing :: bool
  trQueued :: bool
  trCompleted :: i64
  trTotal :: i64
  trCurrent :: string
  trLastRun :: "int option"
  trNextCron :: "int option"

definition Engine_Status :: "int \<Rightarrow> 'w engine \<Rightarrow> TaskRuntime list" where
  "Engine_Status now e =
     map (\<lambda>(i, r). case Progress_Snapshot (prog_of i e) of (running, don, tot, cur) \<Rightarrow>
         \<lparr>trID = i, trName = tkName (rrTask r), trRunning = running, trInitializing = rrInitializing r,
          trQueued = HasPending i (egQueue e), trCompleted = don, trTotal = tot, trCurrent = cur,
          trLastRun = rrLastRun r, trNextCron = nextCron now r\<rparr>) (egRunners e)"

text \<open>
  \<open>run\<close>: one job, without the registration of its cancel function. \<open>now\<close> and \<open>dur\<close> are the clock's,
  \<open>errText\<close> the text of the error; \<open>c\<close> is the context of the job.
\<close>

definition job_event :: "Job \<Rightarrow> Task \<Rightarrow> i64 \<Rightarrow> string \<Rightarrow> unit option \<Rightarrow> 'w run \<Rightarrow> Event" where
  "job_event job t dur errText res s =
     \<lparr>eSeq = 0, eTime = 0, eTaskID = tkID t, eTaskName = tkName t, eScope = jScope job, eTrigger = jTrigger job,
      eState = (if res \<noteq> None then StateSuccess
                else if fst (ctx_check (rnCtx s)) then StateCanceled else StateFailed),
      eStats = rnStats s, eDurationMs = dur, eError = (if res \<noteq> None then [] else errText),
      ePlanOnly = False, eOpCounts = [], eSamplePaths = []\<rparr>"

definition worth_recording :: "Job \<Rightarrow> Stats \<Rightarrow> bool" where
  "worth_recording job st \<longleftrightarrow>
     \<not> Stats_Empty st \<or> jTrigger job = TriggerManual \<or> jTrigger job = TriggerCron"

definition after_run :: "int \<Rightarrow> string \<Rightarrow> 'w engine \<Rightarrow> 'w engine" where
  "after_run now i e =
     e\<lparr>egRunners := (case map_of (egRunners e) i of None \<Rightarrow> egRunners e
         | Some r \<Rightarrow> AList.update i (r\<lparr>rrLastRun := Some now\<rparr>) (egRunners e)),
       egProgs := AList.update i ((prog_of i e)\<lparr>pgRunning := False, pgCurrent := None, pgTotal := 0, pgCompleted := 0\<rparr>)
         (egProgs e)\<rparr>"

definition run_job :: "'w host \<Rightarrow> shared \<Rightarrow> int \<Rightarrow> i64 \<Rightarrow> string \<Rightarrow> ctx \<Rightarrow> Job \<Rightarrow> 'w engine \<Rightarrow> 'w engine option" where
  "run_job ho sh now dur errText c job e =
     (case GetTask (jTaskID job) (egConf e) of
        None \<Rightarrow> Some e
      | Some t \<Rightarrow>
          if \<not> tkEnabled t then Some e
          else case execute ho (shared_of sh e) job t (start_run c e) of
            None \<Rightarrow> None
          | Some (res, s) \<Rightarrow>
              let e1 = after_run now (jTaskID job) (e\<lparr>egWorld := rnWorld s\<rparr>) in
              if \<not> worth_recording job (rnStats s) then Some e1
              else Some (e1\<lparr>egWorld := snd (hoAppend ho (rnWorld s) (job_event job t dur errText res s))\<rparr>))"

section \<open>Saving a task (webui/handler_task.go)\<close>

text \<open>
  \<open>saveTask\<close> stores the task and then reloads the runner from the task as it was submitted, and the
  reload runs in the background; here it follows at once.
\<close>

definition saveTask :: "'w host \<Rightarrow> shared \<Rightarrow> ctx \<Rightarrow> (Config \<Rightarrow> bool) \<Rightarrow> string \<Rightarrow> bool \<Rightarrow> Task \<Rightarrow> 'w engine \<Rightarrow>
    (conf_error option \<times> 'w engine) option" where
  "saveTask ho sh c save i create t0 e =
     (let t = t0\<lparr>tkID := i\<rparr> in
      case (if create then AddTask save i t (egConf e) else UpdateTask save t (egConf e)) of
        (Some err, cf) \<Rightarrow> Some (Some err, e\<lparr>egConf := cf\<rparr>)
      | (None, cf) \<Rightarrow> map_option (\<lambda>(_, e1). (None, e1)) (ReloadTask ho sh c t (e\<lparr>egConf := cf\<rparr>)))"

definition deleteTask :: "'w host \<Rightarrow> (Config \<Rightarrow> bool) \<Rightarrow> string \<Rightarrow> bool \<Rightarrow> 'w engine \<Rightarrow> (conf_error option \<times> 'w engine) option" where
  "deleteTask ho save i purge e =
     (case GetTask i (egConf e) of
        None \<Rightarrow> Some (Some (NoSuchTask i), e)
      | Some t \<Rightarrow>
          (case RemoveTask save i (egConf e) of
             (Some err, cf) \<Rightarrow> Some (Some err, e\<lparr>egConf := cf\<rparr>)
           | (None, cf) \<Rightarrow>
               let e1 = Engine_RemoveTask i (e\<lparr>egConf := cf\<rparr>) in
               case hoDeleteTask ho (egWorld e1) i of
                 None \<Rightarrow> None
               | Some w \<Rightarrow>
                   if purge then map_option (\<lambda>w'. (None, e1\<lparr>egWorld := w'\<rparr>)) (evIdxClear (hoEnv ho) w (tkLocalDir t))
                   else Some (None, e1\<lparr>egWorld := w\<rparr>)))"

text \<open>The groups a rehearsal is shown in: per kind, in order of first appearance.\<close>

fun op_groups :: "OpKind list \<Rightarrow> Op list \<Rightarrow> Op list \<Rightarrow> (OpKind \<times> string \<times> nat \<times> bool) list" where
  "op_groups seen all [] = []"
| "op_groups seen all (op # ops) =
     (if opKind op \<in> set seen then op_groups seen all ops
      else (opKind op, OpKind_Label (opKind op), length (filter (\<lambda>o'. opKind o' = opKind op) all), OpKind_Danger (opKind op))
           # op_groups (opKind op # seen) all ops)"

definition dry_run_view :: "Op list \<Rightarrow> (OpKind \<times> string \<times> nat \<times> bool) list \<times> nat" where
  "dry_run_view ops = (op_groups [] ops ops, length (filter (\<lambda>op. OpKind_Danger (opKind op)) ops))"

definition dry_run_scope :: "string \<Rightarrow> Task option \<Rightarrow> Scope" where
  "dry_run_scope sc t =
     (if sc = ''download'' then ScopeDownload
      else if sc = [] \<and> (case t of Some t' \<Rightarrow> \<not> UploadEnabled t' | None \<Rightarrow> False) then ScopeDownload
      else ScopeUpload)"

end
