(* ===== verification/Engine_Props.thy ===== *)
theory Engine_Props
  imports Engine_Core Plan_Props Conf_Props Apply_World
begin

text \<open>
  The properties of the engine: its invariant, what a run over a synchronised tree does, how a
  rehearsal relates to the run, the timer, and the task that is stored against the one that runs.
\<close>

section \<open>The timer\<close>

lemma cron_duration_sint:
  assumes "0 < CronInterval t" "CronInterval t \<le> 2562047"
  shows "sint (cron_duration t) = CronInterval t * 3600000000000"
proof -
  have r: "- (2 ^ 63) \<le> CronInterval t * 3600000000000" "CronInterval t * 3600000000000 < 2 ^ 63"
    using assms by simp_all
  have "sint (word_of_int k :: i64) = signed_take_bit 63 k" for k by transfer simp
  moreover have "cron_duration t = word_of_int (CronInterval t * 3600000000000)"
    by (simp add: cron_duration_def nano_hour_def)
  ultimately show ?thesis using signed_take_bit_int_eq_self [OF r] by (simp only:)
qed

text \<open>The next timer run shown to the user. For an interval of at most 2562047 hours it is the first tick after now
  of a timer that started at the recorded time, if that is not after now; so opening the page again never moves it.\<close>

theorem nextCron_next_tick:
  assumes "coEnabled (tkCron (rrTask r))" "CronInterval (rrTask r) \<le> 2562047"
    and "rrLastCron r = None" "rrCronStart r = Some base" "base \<le> now"
  shows "\<exists>t k. nextCron now r = Some t \<and> now < t \<and> t \<le> now + CronInterval (rrTask r) * 3600000000000 \<and>
    t = base + k * (CronInterval (rrTask r) * 3600000000000)"
proof -
  let ?i = "CronInterval (rrTask r) * 3600000000000"
  have "0 < CronInterval (rrTask r)" by (simp add: CronInterval_def defaultCronHours_def)
  then have i: "0 < ?i" "sint (cron_duration (rrTask r)) = ?i" using cron_duration_sint assms(2) by simp_all
  let ?t = "base + ((now - base) div ?i + 1) * ?i"
  have "(now - base) div ?i * ?i + (now - base) mod ?i = now - base" by (rule div_mult_mod_eq)
  moreover have "0 \<le> (now - base) mod ?i" "(now - base) mod ?i < ?i" using i(1) by simp_all
  ultimately have "now < ?t \<and> ?t \<le> now + ?i" unfolding distrib_right by linarith
  moreover have "(now - base) sdiv ?i = (now - base) div ?i" using i(1) assms(5) by (simp add: signed_divide_int_def sgn_if)
  then have "nextCron now r = Some ?t" using assms i(2) by (simp add: nextCron_def Let_def)
  ultimately show ?thesis by blast
qed

definition cron_task :: "int \<Rightarrow> Task" where
  "cron_task h = (sample_task ''t_1'' ''films'' ''/m'' ''/c'')\<lparr>tkCron := \<lparr>coEnabled = True, coIntervalHours = h\<rparr>\<rparr>"

theorem nextCron_next_tick_witness:
  "\<exists>t. nextCron 10000000000000 ((newRunner (NewRules (\<lambda>s. s) [] []) (cron_task 1))\<lparr>rrCronStart := Some 0\<rparr>) = Some t \<and>
     10000000000000 < t \<and> t \<le> 13600000000000"
  using nextCron_next_tick [of "(newRunner (NewRules (\<lambda>s. s) [] []) (cron_task 1))\<lparr>rrCronStart := Some 0\<rparr>" 0 "10000000000000"]
  by (auto simp: newRunner_def cron_task_def CronInterval_def)

text \<open>The interval has no upper bound in the validation, and the program turns hours into 64-bit nanoseconds:
  a validated task with an interval of 2562048 hours gets a negative interval, on which
  starting the timer panics.\<close>

theorem cron_interval_overflow:
  "Validate (normalize (cron_task 2562048)) = None \<and>
   cron_begin now (newRunner rules (normalize (cron_task 2562048))) = Panic"
proof -
  have "Validate (normalize (cron_task 2562048)) = None" by code_simp
  moreover have "cron_duration (normalize (cron_task 2562048)) = 9223372800000000000"
    by (simp add: cron_duration_def CronInterval_def normalize_def cron_task_def sample_task_def nano_hour_def Let_def)
  ultimately show ?thesis by (simp add: cron_begin_def newRunner_def new_ticker_def word_sless_alt)
qed

section \<open>The invariant of the engine\<close>

text \<open>
  One runner per task, filed under its id, with a progress counter; no runner is left half
  initialised; once the engine has started every runner has started; the queue is well formed.
\<close>

definition engine_ok :: "'w engine \<Rightarrow> bool" where
  "engine_ok e \<longleftrightarrow>
     distinct (map fst (egRunners e)) \<and> fst ` set (egRunners e) \<subseteq> fst ` set (egProgs e) \<and>
     (\<forall>(i, r) \<in> set (egRunners e). tkID (rrTask r) = i \<and> \<not> rrInitializing r \<and> (egStarted e \<longrightarrow> rrStarted r)) \<and>
     queue_ok (egQueue e)"

lemma fst_image_other: "fst ` {p \<in> A. fst p \<noteq> k} = fst ` A - {k}"
  by auto

definition runner_ok :: "bool \<Rightarrow> string \<times> runner \<Rightarrow> bool" where
  "runner_ok started p \<longleftrightarrow> tkID (rrTask (snd p)) = fst p \<and> \<not> rrInitializing (snd p) \<and> (started \<longrightarrow> rrStarted (snd p))"

lemma engine_ok_alt:
  "engine_ok e \<longleftrightarrow> distinct (map fst (egRunners e)) \<and> fst ` set (egRunners e) \<subseteq> fst ` set (egProgs e) \<and>
     (\<forall>p \<in> set (egRunners e). runner_ok (egStarted e) p) \<and> queue_ok (egQueue e)"
  by (auto simp: engine_ok_def runner_ok_def)

lemma popRunner_ok: "engine_ok e \<Longrightarrow> engine_ok (snd (popRunner i e))"
  by (auto simp: engine_ok_alt popRunner_def distinct_delete set_delete)

lemma put_runner_ok:
  assumes "engine_ok e" "runner_ok (egStarted e) (i, r)" "i \<in> fst ` set (egProgs e)"
  shows "engine_ok (e\<lparr>egRunners := AList.update i r (egRunners e)\<rparr>)"
  using assms by (auto simp: engine_ok_alt distinct_update set_update_subset)

lemma drop_task_ok: "engine_ok e \<Longrightarrow> engine_ok (e\<lparr>egQueue := DropTask i (egQueue e)\<rparr>)"
  using DropTask_spec [of "egQueue e" i] by (simp add: engine_ok_alt)

lemma world_conf_ok:
  "engine_ok e \<Longrightarrow> engine_ok (e\<lparr>egWorld := w\<rparr>)" "engine_ok e \<Longrightarrow> engine_ok (e\<lparr>egConf := cf\<rparr>)"
  "engine_ok e \<Longrightarrow> engine_ok (e\<lparr>egWorld := w, egTempFid := f\<rparr>)"
  by (simp_all add: engine_ok_alt)

text \<open>After \<open>initRunner\<close> the invariant holds but for the start of the new runner, which is the caller's.\<close>

lemma initRunner_ok:
  assumes "initRunner ho sh c t e = Some (res, e')" "engine_ok e"
  shows "egStarted e' = egStarted e \<and> tkID t \<in> {i. res \<noteq> None \<longrightarrow> i \<in> fst ` set (egProgs e')} \<and>
    (case res of None \<Rightarrow> engine_ok e'
     | Some r \<Rightarrow> runner_ok False (tkID t, r) \<and> rrTask r = t \<and>
         (\<forall>r'. runner_ok (egStarted e) (tkID t, r') \<longrightarrow>
            engine_ok (e'\<lparr>egRunners := AList.update (tkID t) r' (egRunners e')\<rparr>)))"
proof -
  let ?i = "tkID t" and ?r = "newRunner (rulesOf (shared_of sh e)) t"
  let ?rs = "AList.update ?i (?r\<lparr>rrInitializing := True\<rparr>) (egRunners e)"
  let ?e1 = "e\<lparr>egRunners := ?rs, egProgs := AList.update ?i NewProgress (egProgs e)\<rparr>"
  obtain ok s where run: "initTask ho (shared_of sh ?e1) t (start_run c ?e1) = Some (ok, s)"
    and res: "res = (if ok = None then None else Some ?r)"
      "e' = (if ok = None then snd (popRunner ?i (?e1\<lparr>egWorld := rnWorld s\<rparr>))
             else ?e1\<lparr>egWorld := rnWorld s, egRunners := AList.update ?i ?r (egRunners ?e1)\<rparr>)"
    using assms(1) by (auto simp: initRunner_def Let_def split: option.splits)
  have dist: "distinct (map fst (egRunners e))" using assms(2) by (simp add: engine_ok_alt)
  show ?thesis
  proof (cases "ok = None")
    case True
    have "engine_ok e'"
      using assms(2) unfolding res(2) if_P [OF True] popRunner_def
      by (auto simp: engine_ok_alt distinct_delete distinct_update set_delete set_update_subset dom_update fst_image_other)
    then show ?thesis using True res by (auto simp: popRunner_def)
  next
    case False
    have "engine_ok (e'\<lparr>egRunners := AList.update ?i r' (egRunners e')\<rparr>)" if "runner_ok (egStarted e) (?i, r')" for r'
      using assms(2) that dist unfolding res(2) if_not_P [OF False]
      by (auto simp: engine_ok_alt distinct_update set_update_subset dom_update)
    then show ?thesis using False res by (auto simp: runner_ok_def newRunner_def dom_update)
  qed
qed

lemma ReloadTask_ok:
  assumes "ReloadTask ho sh c t e = Some (ok, e')" "engine_ok e"
  shows "engine_ok e' \<and> egStarted e' = egStarted e"
proof -
  let ?e1 = "snd (popRunner (tkID t) (e\<lparr>egQueue := DropTask (tkID t) (egQueue e)\<rparr>))"
  have e1: "engine_ok ?e1" "egStarted ?e1 = egStarted e"
    using popRunner_ok [OF drop_task_ok [OF assms(2)]] by (simp_all add: popRunner_def)
  show ?thesis
  proof (cases "tkEnabled t")
    case True
    obtain res e2 where i: "initRunner ho sh c t ?e1 = Some (res, e2)"
      using assms(1) True by (auto simp: ReloadTask_def Let_def split: option.splits)
    note ok = initRunner_ok [OF i e1(1)]
    show ?thesis
    proof (cases res)
      case None
      then show ?thesis using assms(1) True i ok e1(2) by (simp add: ReloadTask_def)
    next
      case (Some r)
      have e': "e' = (if egStarted e then e2\<lparr>egRunners := AList.update (tkID t) (runner_start r) (egRunners e2)\<rparr> else e2)"
        using assms(1) True i Some by (simp add: ReloadTask_def)
      have r: "runner_ok False (tkID t, r)" and put: "runner_ok (egStarted e) (tkID t, r') \<Longrightarrow>
          engine_ok (e2\<lparr>egRunners := AList.update (tkID t) r' (egRunners e2)\<rparr>)" for r'
        using ok Some e1(2) by auto
      show ?thesis
      proof (cases "egStarted e")
        case True
        then show ?thesis using e' put [of "runner_start r"] r ok e1(2) by (simp add: runner_ok_def runner_start_def)
      next
        case False
        have "engine_ok (e2\<lparr>egRunners := AList.update (tkID t) r (egRunners e2)\<rparr>)" using put [of r] r False by simp
        moreover have "AList.update (tkID t) r (egRunners e2) = egRunners e2"
          using i Some by (auto simp: initRunner_def Let_def split: option.splits)
        ultimately show ?thesis using e' False ok e1(2) by simp
      qed
    qed
  qed (use assms(1) e1 in \<open>simp add: ReloadTask_def\<close>)
qed

lemma reload_tasks_ok:
  "reload_tasks ho sh c ts e = Some (ok, e') \<Longrightarrow> engine_ok e \<Longrightarrow> engine_ok e'"
proof (induction ts arbitrary: e)
  case (Cons t ts)
  obtain b e1 where r: "ReloadTask ho sh c t e = Some (b, e1)" using Cons.prems(1) by (auto split: option.splits)
  show ?case using Cons.IH [of e1] ReloadTask_ok [OF r Cons.prems(2)] Cons.prems(1) r by (cases b) auto
qed simp

lemma init_tasks_ok:
  "init_tasks ho sh c ts e = Some (ok, e') \<Longrightarrow> engine_ok e \<Longrightarrow> \<not> egStarted e \<Longrightarrow> engine_ok e' \<and> \<not> egStarted e'"
proof (induction ts arbitrary: e)
  case (Cons t ts)
  show ?case
  proof (cases "tkEnabled t")
    case True
    obtain res e1 where i: "initRunner ho sh c t e = Some (res, e1)"
      using Cons.prems(1) True by (auto split: option.splits)
    note ok = initRunner_ok [OF i Cons.prems(2)]
    show ?thesis
    proof (cases res)
      case None
      then show ?thesis using Cons.prems True i ok by auto
    next
      case (Some r)
      have "AList.update (tkID t) r (egRunners e1) = egRunners e1"
        using i Some by (auto simp: initRunner_def Let_def split: option.splits)
      then have "engine_ok e1" using ok Some Cons.prems(3) by (auto dest!: spec [of _ r])
      then show ?thesis using Cons.IH [of e1] Cons.prems True i Some ok by simp
    qed
  qed (use Cons in simp)
qed simp

lemma EnsureRunning_ok:
  assumes "EnsureRunning ho sh c e = Some (ok, e')" "engine_ok e"
  shows "engine_ok e'"
proof (cases "egStarted e")
  case False
  obtain b e1 where init: "Init ho sh c e = Some (b, e1)" and e': "e' = (if b then Start e1 else e1)"
    using assms(1) False by (auto simp: EnsureRunning_def split: option.splits bool.splits)
  have "engine_ok e1"
    using init assms(2) False init_tasks_ok [of ho sh c _ _ b e1] world_conf_ok(1,3) [OF assms(2)]
    unfolding Init_def by (auto split: option.splits prod.splits)
  then show ?thesis unfolding e'
    by (auto simp: engine_ok_def Start_def runner_start_def comp_def case_prod_beta image_image)
qed (use assms in \<open>simp add: EnsureRunning_def\<close>)

lemma ReloadAll_ok:
  assumes "ReloadAll ho sh c e = Some (ok, e')" "engine_ok e"
  shows "engine_ok e'"
  using assms(1) reload_tasks_ok [of ho sh c _ _ ok e'] world_conf_ok(1,3) [OF assms(2)]
  unfolding ReloadAll_def by (auto split: option.splits prod.splits)

lemma queue_change_ok: "engine_ok e \<Longrightarrow> queue_ok q \<Longrightarrow> engine_ok (e\<lparr>egQueue := q\<rparr>)"
  by (simp add: engine_ok_alt)

lemma Enqueue_ok: "queue_ok q \<Longrightarrow> queue_ok (Enqueue j q)"
  using Enqueue_spec(1) [of q j] Enqueue_closed [of q j] by (cases "q_closed q") simp_all

lemma fold_Enqueue_ok: "queue_ok q \<Longrightarrow> queue_ok (fold (\<lambda>x. Enqueue (f x)) xs q)"
  using Enqueue_ok by (induction xs arbitrary: q) auto

lemma trigger_ok: "queue_ok q \<Longrightarrow> queue_ok (trigger r tr q)"
  unfolding trigger_def by (rule fold_Enqueue_ok)

lemma Take_ok: "queue_ok q \<Longrightarrow> Take q = Some (j, q') \<Longrightarrow> queue_ok q'"
  using take_locked_Taken(1) by (auto simp: Take_def split: prod.splits take_result.splits)

lemma after_run_ok: "engine_ok e \<Longrightarrow> engine_ok (after_run now i e)"
proof -
  assume ok: "engine_ok e"
  show ?thesis
  proof (cases "map_of (egRunners e) i")
    case None
    then show ?thesis using ok by (auto simp: after_run_def engine_ok_alt dom_update)
  next
    case (Some r)
    then have "(i, r) \<in> set (egRunners e)" by (rule map_of_SomeD)
    then show ?thesis using ok Some
      by (auto simp: after_run_def engine_ok_alt runner_ok_def distinct_update set_update_subset dom_update)
  qed
qed

lemma run_job_ok: "run_job ho sh now dur txt c j e = Some e' \<Longrightarrow> engine_ok e \<Longrightarrow> engine_ok e'"
  by (auto simp: run_job_def Let_def split: option.splits if_splits intro!: world_conf_ok(1) after_run_ok)

text \<open>
  Operations one after the other: each step is a whole operation of the engine, starting up, a task saved or deleted, the
  manual start and stop, a timer tick, a job from the watcher, the worker running a job, a reload of all
  tasks, the shutdown. The code also lets them overlap; how they interleave is in \<open>Engine_Lifecycle\<close>
  and \<open>Engine_Registry\<close>, with critical sections as steps.
\<close>

inductive engine_step :: "'w host \<Rightarrow> shared \<Rightarrow> (Config \<Rightarrow> bool) \<Rightarrow> 'w engine \<Rightarrow> 'w engine \<Rightarrow> bool"
  for ho sh save where
  es_boot: "EnsureRunning ho sh c e = Some (ok, e') \<Longrightarrow> engine_step ho sh save e e'"
| es_save: "saveTask ho sh c save i create t e = Some (err, e') \<Longrightarrow> engine_step ho sh save e e'"
| es_delete: "deleteTask ho save i purge e = Some (err, e') \<Longrightarrow> engine_step ho sh save e e'"
| es_start: "StartTask i e = (err, e') \<Longrightarrow> engine_step ho sh save e e'"
| es_stop: "engine_step ho sh save e (StopTask i e)"
| es_cron: "map_of (egRunners e) i = Some r \<Longrightarrow> ticking r \<Longrightarrow> cron_tick now r (egQueue e) = (r', q) \<Longrightarrow>
     engine_step ho sh save e (e\<lparr>egRunners := AList.update i r' (egRunners e), egQueue := q\<rparr>)"
| es_watch: "map_of (egRunners e) i = Some r \<Longrightarrow> watching r \<Longrightarrow>
     engine_step ho sh save e (e\<lparr>egQueue := Enqueue (watch_job (rrTask r) dir file) (egQueue e)\<rparr>)"
| es_job: "Take (egQueue e) = Some (j, q) \<Longrightarrow> run_job ho sh now dur txt c j (e\<lparr>egQueue := q\<rparr>) = Some e' \<Longrightarrow>
     engine_step ho sh save e e'"
| es_reload: "ReloadAll ho sh c e = Some (ok, e') \<Longrightarrow> engine_step ho sh save e e'"
| es_shutdown: "engine_step ho sh save e (Shutdown e)"

definition new_engine :: "'w \<Rightarrow> Config \<Rightarrow> 'w engine" where
  "new_engine w cf =
     \<lparr>egWorld = w, egConf = cf, egQueue = NewQueue, egRunners = [], egProgs = [], egTempFid = [], egStarted = False\<rparr>"

text \<open>
  Every operation is one step here, also those that the program cuts into pieces under its lock; their pieces interleave in
  \<open>Engine_Registry\<close> and \<open>Engine_Lifecycle\<close>.
\<close>

inductive engine_reachable :: "'w host \<Rightarrow> shared \<Rightarrow> (Config \<Rightarrow> bool) \<Rightarrow> 'w engine \<Rightarrow> bool"
  for ho sh save where
  er_new: "engine_reachable ho sh save (new_engine w cf)"
| er_step: "engine_reachable ho sh save e \<Longrightarrow> engine_step ho sh save e e' \<Longrightarrow> engine_reachable ho sh save e'"

lemma engine_step_ok: "engine_step ho sh save e e' \<Longrightarrow> engine_ok e \<Longrightarrow> engine_ok e'"
proof (induction rule: engine_step.induct)
  case (es_save c i create t e err e')
  then show ?case using ReloadTask_ok world_conf_ok(2)
    by (fastforce simp: saveTask_def Let_def split: prod.splits option.splits if_splits)
next
  case (es_delete i purge e err e')
  have rm: "engine_ok (Engine_RemoveTask i (e\<lparr>egConf := cf\<rparr>))" for cf
    using popRunner_ok [OF drop_task_ok [OF world_conf_ok(2) [OF es_delete.prems]], of i i cf]
    by (auto simp: Engine_RemoveTask_def Let_def popRunner_def engine_ok_alt set_delete fst_image_other)
  show ?case using es_delete world_conf_ok(1) [OF rm] world_conf_ok(2)
    by (auto simp: deleteTask_def Let_def split: prod.splits option.splits if_splits)
next
  case (es_start i e err e')
  have "engine_ok (e\<lparr>egQueue := trigger r TriggerManual (egQueue e)\<rparr>)" for r
    using es_start.prems by (intro queue_change_ok trigger_ok) (simp_all add: engine_ok_alt)
  then show ?case using es_start by (auto simp: StartTask_def split: option.splits if_splits)
next
  case (es_stop e i)
  show ?case
  proof (cases "map_of (egRunners e) i")
    case (Some r)
    then have r: "(i, r) \<in> set (egRunners e)" by (rule map_of_SomeD)
    have ok: "engine_ok (e\<lparr>egQueue := DropTask i (egQueue e)\<rparr>)" using drop_task_ok [OF es_stop] .
    have "engine_ok ((e\<lparr>egQueue := DropTask i (egQueue e)\<rparr>)\<lparr>egRunners := AList.update i (runner_stop r)
        (egRunners (e\<lparr>egQueue := DropTask i (egQueue e)\<rparr>))\<rparr>)"
      by (rule put_runner_ok [OF ok]) (use r es_stop in \<open>force simp: engine_ok_alt runner_ok_def runner_stop_def\<close>)+
    then show ?thesis using Some by (simp add: StopTask_def)
  qed (simp add: StopTask_def es_stop)
next
  case (es_cron e i r now r' q)
  have r: "(i, r) \<in> set (egRunners e)" using es_cron.hyps(1) by (rule map_of_SomeD)
  have q: "queue_ok q" "r' = r\<lparr>rrLastCron := Some now\<rparr>"
    using es_cron trigger_ok by (auto simp: cron_tick_def engine_ok_alt)
  have "engine_ok ((e\<lparr>egQueue := q\<rparr>)\<lparr>egRunners := AList.update i r' (egRunners (e\<lparr>egQueue := q\<rparr>))\<rparr>)"
    by (rule put_runner_ok [OF queue_change_ok [OF es_cron.prems q(1)]])
       (use r q(2) es_cron.prems in \<open>force simp: engine_ok_alt runner_ok_def\<close>)+
  then show ?case by (simp add: engine_ok_alt)
next
  case (es_watch e i r d f)
  show ?case using es_watch.prems by (intro queue_change_ok Enqueue_ok) (simp_all add: engine_ok_alt)
next
  case (es_job e j q now dur m c e')
  then show ?case using run_job_ok queue_change_ok Take_ok by (metis engine_ok_alt)
next
  case (es_shutdown e)
  then show ?case
    by (auto simp: engine_ok_def Shutdown_def runner_stop_def comp_def case_prod_beta image_image)
qed (auto intro: EnsureRunning_ok ReloadAll_ok)

text \<open>C13. The engine is consistent between operations. As long as its operations do not overlap (each boot, save, deletion,
  start, stop, reload, timer tick, file event, run and the shutdown ends before the next begins; that a save reloads the task in the
  background counts as part of it), then after any number of them, failures included,
  each task has at most one runner, filed under the task's id and with a progress counter; no
  runner is left half initialised; every runner is started once the engine
  is; and the queue is well formed. What remains of this when they overlap is \<open>registry_consistent\<close>.\<close>

theorem engine_consistent:
  assumes "engine_reachable ho sh save e"
  shows "engine_ok e"
  using assms
proof (induction rule: engine_reachable.induct)
  case (er_new w cf)
  show ?case by (simp add: engine_ok_def new_engine_def)
next
  case (er_step e e')
  show ?case using er_step.IH by (rule engine_step_ok [OF er_step.hyps(2)])
qed

section \<open>Runs and rehearsals\<close>

lemma Apply_nothing:
  "Apply ev a cfg [] s = Some (Some (), s\<lparr>rnTotal := 0, rnDone := 0\<rparr>)"
  by (simp add: Apply_def order_ops_def countWork_def archiveAll_def step_bind_def step_ret_def Let_def)

lemma bind_read: "step_bind (step_read f) g s = g (f (rnWorld s)) s"
  by (simp add: step_bind_def step_read_def)

text \<open>An upload job for the whole task.\<close>

definition root_job :: "Task \<Rightarrow> Job \<Rightarrow> bool" where
  "root_job t job \<longleftrightarrow> jScope job = ScopeUpload \<and> jFile job = [] \<and> (jDir job = [] \<or> jDir job = tkLocalDir t)"

text \<open>C7. A rehearsal shows what a run does. The rehearsal of an upload changes nothing, and when the index knows the
  cloud root, the run from the same state is the execution of exactly the rehearsed actions, in the
  context the rehearsal leaves, with the task's directory as its recorded target.\<close>

theorem rehearsal_is_the_run:
  assumes "dry_run ho sh t ScopeUpload s = Some (Some ops, s')" "root_job t job"
    and "idx_fid (hoEnv ho) (rnWorld s) (tkLocalDir t) \<noteq> []"
  shows "rnWorld s' = rnWorld s \<and> rnStats s' = rnStats s \<and>
    execute ho sh job t s =
      step_bind (Apply (hoEnv ho) (applier_of sh (upload_paths ho sh t (rnWorld s))) (upload_cfg sh t) ops)
        (\<lambda>_. step_count (set_dirs (tkLocalDir t))) s'"
proof -
  let ?paths = "upload_paths ho sh t (rnWorld s)"
  let ?p = "planner_of ho sh (rnWorld s) ?paths (upload_cfg sh t)"
  have dir: "paLocalDir ?paths = tkLocalDir t" "paCloudFid ?paths \<noteq> []"
    using assms(3) by (simp_all add: upload_paths_def paths_of_def)
  obtain r c' where r: "plan_local_step ?p (shFuel sh) (tkLocalDir t) (rnCtx s) = Some (r, c')"
    and s': "s' = s\<lparr>rnCtx := c'\<rparr>" and "Some ops = (case r of Inl _ \<Rightarrow> None | Inr a \<Rightarrow> Some a)"
    using assms(1) dir by (auto simp: dry_run_def step_scan_def step_defs)
  then have plan: "plan_local_step ?p (shFuel sh) (tkLocalDir t) (rnCtx s) = Some (Inr ops, c')"
    by (cases r) simp_all
  have "execute ho sh job t s =
      step_bind (step_scan (\<lambda>w c. plan_local_step (planner_of ho sh w ?paths (upload_cfg sh t)) (shFuel sh) (tkLocalDir t) c))
        (\<lambda>ops. step_bind (Apply (hoEnv ho) (applier_of sh ?paths) (upload_cfg sh t) ops)
          (\<lambda>_. step_count (set_dirs (tkLocalDir t)))) s"
  proof -
    have "upload_target ?paths job = tkLocalDir t" "(if jDir job = [] then tkLocalDir t else jDir job) = tkLocalDir t"
      "jFile job = []" "jScope job = ScopeUpload"
      using assms(2) dir by (auto simp: root_job_def upload_target_def)
    then show ?thesis using dir by (cases "jDir job = []") (simp_all add: execute_def runUpload_def bind_read Let_def)
  qed
  then show ?thesis using plan s' by (simp add: step_bind_def step_scan_def)
qed

text \<open>C8. An upload run over a synchronised tree is silent. When the local tree agrees with the index, an upload job for the
  whole task makes no call that changes anything; a job of the watcher leaves no trace at all, and a manual or
  timed one leaves exactly one event, a success with empty counters. (Downloads of the task are jobs of
  their own, and may still find something new in the cloud.)\<close>

theorem synced_run_changes_nothing:
  assumes "GetTask (jTaskID job) (egConf e) = Some t" "tkEnabled t" "root_job t job"
    and "idx_fid (hoEnv ho) (egWorld e) (tkLocalDir t) \<noteq> []"
    and "dir_synced (planner_of ho (shared_of sh e) (egWorld e) (upload_paths ho (shared_of sh e) t (egWorld e))
           (upload_cfg (shared_of sh e) t)) (shFuel sh) (tkLocalDir t)"
  shows "\<exists>e' ev. run_job ho sh now dur txt None job e = Some e' \<and> eState ev = StateSuccess \<and> Stats_Empty (eStats ev) \<and>
    egWorld e' = (if jTrigger job \<in> {TriggerManual, TriggerCron} then snd (hoAppend ho (egWorld e) ev) else egWorld e)"
proof -
  let ?sh = "shared_of sh e" and ?s = "start_run None e"
  let ?p = "planner_of ho ?sh (egWorld e) (upload_paths ho ?sh t (egWorld e)) (upload_cfg ?sh t)"
  have fuel: "shFuel ?sh = shFuel sh" by (simp add: shared_of_def)
  have s: "rnWorld ?s = egWorld e" "rnCtx ?s = None" "rnStats ?s = zero_Stats" by (simp_all add: start_run_def)
  have "planDir ?p (shFuel sh) (tkLocalDir t) \<lparr>psCtx = None, psErr = None\<rparr> = Some ([], \<lparr>psCtx = None, psErr = None\<rparr>)"
    using planDir_synced [OF assms(5), of "\<lparr>psCtx = None, psErr = None\<rparr>"] by simp
  then have "plan_local_step ?p (shFuel sh) (tkLocalDir t) None = Some (Inr [], None)"
    by (simp add: plan_local_step_def)
  then have "dry_run ho ?sh t ScopeUpload ?s = Some (Some [], ?s)"
    using s fuel by (simp add: dry_run_def step_bind_def step_read_def step_scan_def upload_paths_def paths_of_def start_run_def)
  moreover have "idx_fid (hoEnv ho) (rnWorld ?s) (tkLocalDir t) \<noteq> []" using assms(4) s by simp
  ultimately have "execute ho ?sh job t ?s =
      step_bind (Apply (hoEnv ho) (applier_of ?sh (upload_paths ho ?sh t (egWorld e))) (upload_cfg ?sh t) [])
        (\<lambda>_. step_count (set_dirs (tkLocalDir t))) ?s"
    using rehearsal_is_the_run assms(3) s(1) by metis
  then obtain s' where ex: "execute ho ?sh job t ?s = Some (Some (), s')" "rnWorld s' = egWorld e" "rnStats s' = zero_Stats"
    using s by (auto simp: step_bind_def Apply_nothing step_count_def set_dirs_def Stats_Empty_def zero_Stats_def)
  let ?ev = "job_event job t dur txt (Some ()) s'"
  have ev: "eState ?ev = StateSuccess" "Stats_Empty (eStats ?ev)"
    using ex(3) by (simp_all add: job_event_def Stats_Empty_def zero_Stats_def)
  have w: "egWorld (after_run now i e2) = egWorld e2" for i and e2 :: "'a engine" by (simp add: after_run_def)
  have "worth_recording job (rnStats s') \<longleftrightarrow> jTrigger job \<in> {TriggerManual, TriggerCron}"
    using ex(3) by (simp add: worth_recording_def Stats_Empty_def zero_Stats_def)
  then show ?thesis using assms(1,2) ex ev w by (auto simp: run_job_def Let_def intro!: exI [of _ ?ev])
qed

section \<open>A sample engine\<close>

text \<open>One task on the synchronised sample tree; the cloud is the simulated one.\<close>

definition sample_host :: "sim host" where
  "sample_host =
     \<lparr>hoEnv = sim_env\<lparr>evIdxGet := (\<lambda>w p. if p = ''/m'' then Some \<lparr>rFid = ''10'', rPickCode = [], rKind = KindDir, rSize = 0\<rparr> else None)\<rparr>,
      hoFS = (\<lambda>w. plFS both_synced), hoIndex = (\<lambda>w. plIdx both_synced),
      hoCloud = (\<lambda>w. \<lparr>clInfo = (\<lambda>p. None), clList = (\<lambda>f. Some [])\<rparr>), hoCount = (\<lambda>w c p. Some (1, c)),
      hoAppend = (\<lambda>w ev. (True, w\<lparr>smFiles := (''event'', eState ev) # smFiles w\<rparr>)), hoDeleteTask = (\<lambda>w i. Some w)\<rparr>"

definition sample_settings :: Settings where
  "sample_settings =
     \<lparr>seStrmURL = ''http://h'', seTempDir = ''/bin'', seCacheDir = [], seOfflineDir = [], seCacheRetentionDays = 1,
      seVideoExts = [''.mkv''], seUploadExclude = [], seAuth = \<lparr>auUsername = [], auPasswordHash = []\<rparr>\<rparr>"

definition sample_shared :: shared where
  "sample_shared =
     \<lparr>shSettings = sample_settings, shTempFid = [], shCacheDir = [], shLower = (\<lambda>s. s), shAuth = (\<lambda>a. a = ''h''), shFuel = 2\<rparr>"

definition sample_world :: sim where
  "sample_world = \<lparr>smFiles = [], smCalls = [], smInstant = [], smBroken = False\<rparr>"

definition sample_engine :: "sim engine" where
  "sample_engine = new_engine sample_world
     \<lparr>cfSettings = sample_settings, cfTasks = [sample_task ''t_1'' ''films'' ''/m'' ''/c''],
      cfToken = \<lparr>tdAccessToken = [], tdRefreshToken = [], tdExpireAt = 0\<rparr>\<rparr>"

definition sample_root_job :: "Trigger \<Rightarrow> Job" where
  "sample_root_job tr = \<lparr>jTaskID = ''t_1'', jScope = ScopeUpload, jTrigger = tr, jDir = [], jFile = []\<rparr>"

lemma sample_synced:
  "dir_synced (planner_of sample_host (shared_of sample_shared sample_engine) (egWorld sample_engine)
      (upload_paths sample_host (shared_of sample_shared sample_engine) (sample_task ''t_1'' ''films'' ''/m'' ''/c'') (egWorld sample_engine))
      (upload_cfg (shared_of sample_shared sample_engine) (sample_task ''t_1'' ''films'' ''/m'' ''/c''))) (shFuel sample_shared)
      (tkLocalDir (sample_task ''t_1'' ''films'' ''/m'' ''/c''))"
  by code_simp

lemma sample_facts:
  "GetTask ''t_1'' (egConf sample_engine) = Some (sample_task ''t_1'' ''films'' ''/m'' ''/c'')"
  "idx_fid (hoEnv sample_host) (egWorld sample_engine) (tkLocalDir (sample_task ''t_1'' ''films'' ''/m'' ''/c'')) = ''10''"
  by code_simp+

theorem synced_run_changes_nothing_witness:
  "\<exists>e'. run_job sample_host sample_shared 0 0 [] None (sample_root_job TriggerWatch) sample_engine = Some e' \<and>
     egWorld e' = sample_world"
proof -
  let ?t = "sample_task ''t_1'' ''films'' ''/m'' ''/c''" and ?job = "sample_root_job TriggerWatch"
  have j: "jTaskID ?job = ''t_1''" "root_job ?t ?job" "jTrigger ?job \<notin> {TriggerManual, TriggerCron}"
    by (simp_all add: sample_root_job_def root_job_def TriggerWatch_def TriggerManual_def TriggerCron_def)
  have g: "GetTask (jTaskID ?job) (egConf sample_engine) = Some ?t" "tkEnabled ?t" "egWorld sample_engine = sample_world"
    "idx_fid (hoEnv sample_host) (egWorld sample_engine) (tkLocalDir ?t) \<noteq> []"
    using sample_facts j(1) by (simp_all add: sample_task_def sample_engine_def new_engine_def)
  from synced_run_changes_nothing [OF g(1,2) j(2) g(4) sample_synced, of 0 0 "[]"] j(3) g(3) show ?thesis by auto
qed

theorem rehearsal_is_the_run_witness:
  "\<exists>s'. dry_run sample_host (shared_of sample_shared sample_engine) (sample_task ''t_1'' ''films'' ''/m'' ''/c'') ScopeUpload
        (start_run None sample_engine) = Some (Some [], s') \<and> rnWorld s' = sample_world"
proof -
  let ?t = "sample_task ''t_1'' ''films'' ''/m'' ''/c''" and ?sh = "shared_of sample_shared sample_engine"
  have "map_option fst (dry_run sample_host ?sh ?t ScopeUpload (start_run None sample_engine)) = Some (Some [])" by code_simp
  then obtain s' where d: "dry_run sample_host ?sh ?t ScopeUpload (start_run None sample_engine) = Some (Some [], s')" by auto
  have r: "root_job ?t (sample_root_job TriggerCron)" by (simp add: root_job_def sample_root_job_def)
  have w: "rnWorld (start_run None sample_engine) = sample_world"
    by (simp add: start_run_def sample_engine_def new_engine_def)
  have "idx_fid (hoEnv sample_host) (rnWorld (start_run None sample_engine)) (tkLocalDir ?t) \<noteq> []"
    using sample_facts(2) by (simp add: start_run_def)
  from rehearsal_is_the_run [OF d r this] d w show ?thesis by auto
qed

lemma sample_boot:
  "\<exists>e'. EnsureRunning sample_host sample_shared None sample_engine = Some (True, e') \<and> map fst (egRunners e') = [''t_1'']"
proof -
  have "map_option (\<lambda>(ok, e'). (ok, map fst (egRunners e'))) (EnsureRunning sample_host sample_shared None sample_engine) =
      Some (True, [''t_1''])" by code_simp
  then show ?thesis by auto
qed

theorem engine_consistent_witness:
  "\<exists>e. map fst (egRunners e) = [''t_1''] \<and> engine_ok (e :: sim engine)"
proof -
  obtain e where e: "EnsureRunning sample_host sample_shared None sample_engine = Some (True, e)" "map fst (egRunners e) = [''t_1'']"
    using sample_boot by (elim exE conjE)
  have "engine_reachable sample_host sample_shared (\<lambda>_. True) sample_engine"
    unfolding sample_engine_def by (rule er_new)
  from er_step [OF this es_boot [OF e(1)]] have "engine_reachable sample_host sample_shared (\<lambda>_. True) e" .
  from engine_consistent [OF this] have "engine_ok e" .
  with e(2) have "map fst (egRunners e) = [''t_1''] \<and> engine_ok e" by (rule conjI)
  then show ?thesis by (rule exI)
qed

section \<open>The task that is stored and the task that runs\<close>

lemma initRunner_conf: "initRunner ho sh c t e = Some (res, e') \<Longrightarrow> egConf e' = egConf e"
  by (auto simp: initRunner_def popRunner_def Let_def split: option.splits)

lemma initRunner_runner:
  "initRunner ho sh c t e = Some (res, e') \<Longrightarrow> map_of (egRunners e') (tkID t) =
     (case res of None \<Rightarrow> None | Some r \<Rightarrow> Some r) \<and> (\<forall>r. res = Some r \<longrightarrow> rrTask r = t)"
  by (auto simp: initRunner_def popRunner_def newRunner_def update_conv' delete_conv' Let_def split: option.splits)

lemma ReloadTask_runner:
  assumes "ReloadTask ho sh c t e = Some (ok, e')" "tkEnabled t"
  shows "egConf e' = egConf e \<and> (\<forall>r. map_of (egRunners e') (tkID t) = Some r \<longrightarrow> rrTask r = t)"
proof -
  let ?e1 = "snd (popRunner (tkID t) (e\<lparr>egQueue := DropTask (tkID t) (egQueue e)\<rparr>))"
  obtain res e2 where i: "initRunner ho sh c t ?e1 = Some (res, e2)"
    using assms by (auto simp: ReloadTask_def Let_def split: option.splits)
  then show ?thesis
    using assms initRunner_conf [OF i] initRunner_runner [OF i]
    by (cases res) (auto simp: ReloadTask_def popRunner_def update_conv' runner_start_def split: if_splits)
qed

text \<open>The task that runs is not the task that is stored. Saving a task stores its normal form but starts the
  runner of the task as submitted: a task with upload and archive switched on, and download
  off, is stored without any download, while its runner submits download jobs too.\<close>

theorem saved_task_runs_unnormalized:
  assumes "saveTask ho sh c save i create t e = Some (None, e')"
    and "i \<noteq> []" "create \<longrightarrow> i \<notin> tkID ` set (cfTasks (egConf e))"
    and "tkEnabled t" "tkUpload t" "tkArchive t" "\<not> tkDownload t" "map_of (egRunners e') i = Some r"
  shows "scopes (rrTask r) = [ScopeUpload, ScopeDownload] \<and>
    (\<exists>t'. GetTask i (egConf e') = Some t' \<and> scopes t' = [ScopeUpload])"
proof -
  let ?t = "t\<lparr>tkID := i\<rparr>"
  obtain cf b where conf: "(if create then AddTask save i ?t (egConf e) else UpdateTask save ?t (egConf e)) = (None, cf)"
    and rl: "ReloadTask ho sh c ?t (e\<lparr>egConf := cf\<rparr>) = Some (b, e')"
    using assms(1) by (auto simp: saveTask_def Let_def split: prod.splits option.splits if_splits)
  have "GetTask (tkID ?t) cf = Some (normalize ?t)" by (rule saved_task [OF conf]) (use assms(2,3) in simp_all)
  moreover have "egConf e' = cf" "rrTask r = ?t" using ReloadTask_runner [OF rl] assms(4,8) by simp_all
  ultimately show ?thesis using assms(5-7) by (simp add: scopes_def UploadEnabled_def DownloadEnabled_def)
qed

theorem saved_task_runs_unnormalized_witness:
  "\<exists>e' r. saveTask sample_host sample_shared None (\<lambda>_. True) ''t_2'' True
        ((sample_task [] ''tv'' ''/n'' ''/d'')\<lparr>tkArchive := True\<rparr>) sample_engine = Some (None, e') \<and>
     map_of (egRunners e') ''t_2'' = Some r \<and> scopes (rrTask r) = [ScopeUpload, ScopeDownload]"
proof -
  let ?t = "(sample_task [] ''tv'' ''/n'' ''/d'')\<lparr>tkArchive := True\<rparr>"
  let ?save = "saveTask sample_host sample_shared None (\<lambda>_. True) ''t_2'' True ?t sample_engine"
  have "map_option (\<lambda>(err, e'). (err = None, map fst (egRunners e'))) ?save = Some (True, [''t_2''])" by code_simp
  then obtain e' where e': "?save = Some (None, e')" "map fst (egRunners e') = [''t_2'']" by auto
  then obtain r where r: "map_of (egRunners e') ''t_2'' = Some r" by (cases "egRunners e'") auto
  have c: "True \<longrightarrow> ''t_2'' \<notin> tkID ` set (cfTasks (egConf sample_engine))" "''t_2'' \<noteq> []"
    "tkEnabled ?t" "tkUpload ?t" "tkArchive ?t" "\<not> tkDownload ?t"
    by (simp_all add: sample_engine_def new_engine_def sample_task_def)
  from saved_task_runs_unnormalized [OF e'(1) c(2) _ c(3-6) r] c(1) e' r show ?thesis by auto
qed

end
