(* ===== verification/Apply_Settles.thy ===== *)
theory Apply_Settles
  imports Apply_Props Plan_Props
begin

text \<open>
  The executor against the planner: what an executed upload leaves behind is what the planner
  takes for synchronised, and how the deletion the planner orders for a missing directory is carried
  out. The locale \<open>mirror_files\<close> adds the laws on local files to those on the index, \<open>mirror_world\<close> that on
  uploads.
\<close>

section \<open>Laws on local files\<close>

text \<open>
  A written file reads back; no other call, and no removal or caching of another file, changes what a
  file holds; moving in the cloud leaves the index alone.
\<close>

locale mirror_files = index_world +
  assumes write_read: "evWriteFile ev w p d = (True, w') \<Longrightarrow> evReadFile ev w' p = Some d"
    and put_read: "evReadFile ev (evIdxPut ev w p r) q = evReadFile ev w q"
    and remove_read: "p \<noteq> q \<Longrightarrow> evReadFile ev (evRemove ev w p) q = evReadFile ev w q"
    and cache_read: "evCacheMove ev = Some mv \<Longrightarrow> p \<noteq> q \<Longrightarrow> mv w p pc = (ok, w') \<Longrightarrow>
      evReadFile ev w' q = evReadFile ev w q"
    and move_index: "good w \<Longrightarrow> evMoveFile ev w f t = (ok, w') \<Longrightarrow> good w' \<and> evIdxGet ev w' = evIdxGet ev w"
begin

lemma ensure_local_good:
  "good (rnWorld s) \<Longrightarrow> ensure_local ev segs fid cl cc s = Some (r, s') \<Longrightarrow> good (rnWorld s')"
proof (induction segs arbitrary: fid cl cc s)
  case (Cons seg segs)
  show ?case
  proof (cases "seg = [] \<or> idx_fid ev (rnWorld s) (path_join cl seg) \<noteq> []")
    case True
    then show ?thesis using Cons by (auto simp: Let_def step_defs split: if_splits)
  next
    case False
    obtain ri w where cf: "evCreateFolder ev (rnWorld s) fid seg (cc @ ''/'' @ seg) = (ri, w)" by fastforce
    note ci = create_index [OF Cons.prems(1) cf]
    show ?thesis
    proof (cases ri)
      case None
      then show ?thesis using Cons.prems(2) False cf ci by (auto simp: Let_def step_defs)
    next
      case (Some i)
      let ?p = "path_join cl seg" and ?r = "\<lparr>rFid = diFid i, rPickCode = [], rKind = KindDir, rSize = 0\<rparr>"
      have "?p \<noteq> []" using False path_join_ne by simp
      then have "good (evIdxPut ev w ?p ?r)" using put_get_world [of w ?p ?r] ci Some by simp
      moreover have "ensure_local ev segs (diFid i) ?p (cc @ ''/'' @ seg) (s\<lparr>rnWorld := evIdxPut ev w ?p ?r\<rparr>) = Some (r, s')"
        using Cons.prems(2) False cf Some by (simp add: Let_def step_defs)
      ultimately show ?thesis by (intro Cons.IH [where s = "s\<lparr>rnWorld := evIdxPut ev w ?p ?r\<rparr>"]) simp_all
    qed
  qed
qed (simp add: step_defs)

lemma EnsureLocalDir_good:
  "good (rnWorld s) \<Longrightarrow> EnsureLocalDir ev paths p s = Some (r, s') \<Longrightarrow> good (rnWorld s')"
  using ensure_local_good by (auto simp: EnsureLocalDir_def Let_def step_defs split: if_splits)

lemma removeOriginal_keeps:
  assumes "good (rnWorld s)" "p \<noteq> q" "removeOriginal ev p pc cfg s = Some (Some (), s')"
  shows "good (rnWorld s') \<and> evReadFile ev (rnWorld s') q = evReadFile ev (rnWorld s) q"
proof (cases "evCacheMove ev")
  case None
  then show ?thesis using assms remove_index remove_read by (auto simp: removeOriginal_def step_defs)
next
  case (Some mv)
  obtain ok w where mv: "mv (rnWorld s) p pc = (ok, w)" by fastforce
  note k = cache_index [OF assms(1) Some mv] cache_read [OF Some assms(2) mv]
  show ?thesis
    using assms Some mv k remove_index [of w p] remove_index [OF assms(1), of p] remove_read [OF assms(2)]
    by (auto simp: removeOriginal_def step_defs split: if_splits)
qed

text \<open>After the replacement of an uploaded video its link is on disk and recorded.\<close>

lemma replaceWithStrm_settles:
  assumes "good (rnWorld s)" "VideoToStrmPath (opPath op) \<noteq> opPath op" "length fid < 65536"
    and "replaceWithStrm ev a op fid pc cfg s = Some (Some (), s')"
  shows "evReadFile ev (rnWorld s') (VideoToStrmPath (opPath op)) = Some (StrmContent (paStrmURL (apPaths a)) pc) \<and>
    evIdxGet ev (rnWorld s') (VideoToStrmPath (opPath op)) =
      Some \<lparr>rFid = fid, rPickCode = pc, rKind = KindStrm, rSize = 0\<rparr>"
proof -
  let ?q = "VideoToStrmPath (opPath op)" and ?r = "\<lparr>rFid = fid, rPickCode = pc, rKind = KindStrm, rSize = 0\<rparr>"
  let ?m = "if opReplaceFid op \<noteq> [] \<and> opReplaceFid op \<noteq> fid then
      step_bind (Retire ev (apPaths a) [opReplaceFid op]) (\<lambda>_. step_count (count_deleted 1)) else step_ret ()"
  obtain s1 where s1: "?m s = Some (Some (), s1)"
    using assms(4) by (auto simp: replaceWithStrm_def Let_def step_bind_def split: option.splits)
  then have g1: "good (rnWorld s1)"
    using assms(1) move_index by (auto simp: Retire_def step_defs split: if_splits prod.splits)
  obtain w2 where w2: "evWriteFile ev (rnWorld s1) ?q (StrmContent (paStrmURL (apPaths a)) pc) = (True, w2)"
    using assms(4) s1 by (auto simp: replaceWithStrm_def Let_def WriteStrmFile_def step_bind_def step_do_def step_call_def
        split: prod.splits if_splits)
  let ?s2 = "s1\<lparr>rnWorld := w2, rnStats := count_strm (rnStats s1)\<rparr>"
  obtain s3 where s3: "removeOriginal ev (opPath op) pc cfg ?s2 = Some (Some (), s3)"
    by (simp add: removeOriginal_def step_change_def)
  have fin: "s' = s3\<lparr>rnWorld := evIdxPut ev (rnWorld s3) ?q ?r\<rparr>"
    using assms(4) s1 w2 s3
    by (simp add: replaceWithStrm_def Let_def WriteStrmFile_def step_bind_def step_do_def step_call_def step_count_def step_change_def)
  have g2: "good w2" using write_index [OF g1 w2] by simp
  have "good (rnWorld s3) \<and> evReadFile ev (rnWorld s3) ?q = evReadFile ev w2 ?q"
    using removeOriginal_keeps [OF _ _ s3, of ?q] g2 assms(2) by simp
  moreover have "?q \<noteq> []" by (simp add: VideoToStrmPath_def)
  ultimately show ?thesis
    using put_get_world [of "rnWorld s3" ?q ?r] assms(3) write_read [OF w2] put_read fin by simp
qed

text \<open>A successful upload of a video leaves the link of whatever the cloud answered with.\<close>

lemma upload_video_leaves:
  assumes "good (rnWorld s)" "VideoToStrmPath (opPath op) \<noteq> opPath op" "opIsVideo op"
    and "evStat ev (rnWorld s) (opPath op) = Inr info" "apply_upload ev a op cfg s = Some (Some (), s')"
    and up: "\<And>w p par r w'. good w \<Longrightarrow> evUpload ev w p par = (r, w') \<Longrightarrow>
      good w' \<and> (\<forall>fid pc. r = Some (fid, pc) \<longrightarrow> length fid < 65536 \<and> named fid pc)"
  shows "\<exists>fid pc. named fid pc \<and>
    evReadFile ev (rnWorld s') (VideoToStrmPath (opPath op)) = Some (StrmContent (paStrmURL (apPaths a)) pc) \<and>
    evIdxGet ev (rnWorld s') (VideoToStrmPath (opPath op)) =
      Some \<lparr>rFid = fid, rPickCode = pc, rKind = KindStrm, rSize = 0\<rparr>"
proof -
  obtain par s1 where s1: "EnsureLocalDir ev (apPaths a) (path_dir (opPath op)) s = Some (Some par, s1)"
    using assms(4,5) by (auto simp: apply_upload_def step_bind_def step_read_def split: option.splits)
  have g1: "good (rnWorld s1)" by (rule EnsureLocalDir_good [OF assms(1) s1])
  obtain r w where u: "evUpload ev (rnWorld s1) (opPath op) par = (r, w)" by fastforce
  then obtain fid pc where r: "r = Some (fid, pc)"
    using assms(4,5) s1 by (cases r) (auto simp: apply_upload_def step_bind_def step_read_def step_call_def)
  note ui = up [OF g1 u]
  have "replaceWithStrm ev a op fid pc cfg (s1\<lparr>rnWorld := w, rnStats := (rnStats s1)\<lparr>sUploaded := sUploaded (rnStats s1) + 1\<rparr>\<rparr>) =
      Some (Some (), s')"
    using assms(3-5) s1 u r by (simp add: apply_upload_def step_bind_def step_read_def step_call_def step_count_def)
  from replaceWithStrm_settles [OF _ assms(2) _ this] ui r show ?thesis by auto
qed

end

text \<open>An upload answers with an id and a pickcode of letters and digits.\<close>

locale mirror_world = mirror_files +
  assumes upload_index: "good w \<Longrightarrow> evUpload ev w p par = (up, w') \<Longrightarrow> good w' \<and> evIdxGet ev w' = evIdxGet ev w \<and>
      (\<forall>fid pc. up = Some (fid, pc) \<longrightarrow> fid \<noteq> [] \<and> length fid < 65536 \<and> pc \<noteq> [] \<and> list_all is_alnum pc)"
begin

lemma upload_video_settles:
  assumes "good (rnWorld s)" "VideoToStrmPath (opPath op) \<noteq> opPath op" "opIsVideo op"
    and "evStat ev (rnWorld s) (opPath op) = Inr info" "apply_upload ev a op cfg s = Some (Some (), s')"
  shows "\<exists>fid pc. fid \<noteq> [] \<and> pc \<noteq> [] \<and> list_all is_alnum pc \<and>
    evReadFile ev (rnWorld s') (VideoToStrmPath (opPath op)) = Some (StrmContent (paStrmURL (apPaths a)) pc) \<and>
    evIdxGet ev (rnWorld s') (VideoToStrmPath (opPath op)) =
      Some \<lparr>rFid = fid, rPickCode = pc, rKind = KindStrm, rSize = 0\<rparr>"
  using upload_video_leaves [OF assms, where named = "\<lambda>fid pc. fid \<noteq> [] \<and> pc \<noteq> [] \<and> list_all is_alnum pc"]
    upload_index by (auto simp: conj_assoc)

end

section \<open>On the simulated cloud\<close>

definition sim_plain :: "sim_world \<Rightarrow> bool" where
  "sim_plain w \<longleftrightarrow> sim_good w \<and> smInstant (snd w) = []"

interpretation simf: mirror_files "with_store al_bolt sim_env" sim_good
  by unfold_locales (auto simp: sim_good_def lift_call_def update_conv' delete_conv' split: option.splits)

interpretation simw: mirror_world "with_store al_bolt sim_env" sim_plain
proof (unfold_locales, goal_cases)
  case (1 w p r)
  then show ?case using sim.put_get_world [of w p r] by (simp add: sim_plain_def)
next
  case (2 w p)
  then show ?case using sim.clear_root [of w p] by (auto simp: sim_plain_def)
next
  case (3 w a b c di w')
  then show ?case using sim.create_index [of w a b c di w'] by (auto simp: sim_plain_def lift_call_def sim_env_def)
qed (auto simp: sim_plain_def sim_good_def lift_call_def update_conv' delete_conv' is_alnum_def split: option.splits)

section \<open>What is uploaded stays\<close>

lemma strm_path_differs: "\<not> IsStrmPath p \<Longrightarrow> VideoToStrmPath p \<noteq> p"
  using strm_path_is_strm [of "trim_suffix p (path_ext p)"] by (auto simp: VideoToStrmPath_def)

text \<open>What a successful upload of a video leaves behind, for any world with the laws.\<close>

lemma upload_synced:
  assumes "mirror_world ev good" "good (rnWorld s)" "opIsVideo op" "\<not> IsStrmPath (opPath op)"
    and "evStat ev (rnWorld s) (opPath op) = Inr info" "apply_upload ev a op cfg s = Some (Some (), s')"
    and "link_prefix (paStrmURL (apPaths a)) sch auth lpath" "apAuth a auth"
    and "plAuth p = apAuth a" "plPaths p = apPaths a" "fsReadFile (plFS p) = evReadFile ev (rnWorld s')"
  shows "\<exists>rec. evIdxGet ev (rnWorld s') (VideoToStrmPath (opPath op)) = Some rec \<and> rKind rec = KindStrm \<and>
    ParseStrmFile (plAuth p) (fsReadFile (plFS p) (VideoToStrmPath (opPath op))) = rPickCode rec \<and>
    decideStrm p (VideoToStrmPath (opPath op)) rec = []"
proof -
  obtain fid pc where u: "fid \<noteq> []" "pc \<noteq> []" "list_all is_alnum pc"
    "evReadFile ev (rnWorld s') (VideoToStrmPath (opPath op)) = Some (StrmContent (paStrmURL (apPaths a)) pc)"
    "evIdxGet ev (rnWorld s') (VideoToStrmPath (opPath op)) = Some \<lparr>rFid = fid, rPickCode = pc, rKind = KindStrm, rSize = 0\<rparr>"
    using mirror_world.upload_video_settles [OF assms(1,2) strm_path_differs [OF assms(4)] assms(3,5,6)]
    by (elim exE conjE)
  show ?thesis
    using link_settled [where p = p and fid = fid and path = "VideoToStrmPath (opPath op)" and sz = 0, OF _ _ u(3,2) _ u(1)] u(4,5) assms(7-11) by simp
qed

text \<open>An uploaded video is settled. When the upload of a local video succeeds, the directory holds a link
  file that reads back as the pickcode of the uploaded video, the index records that pickcode as a
  video under the link's path, and the planner has nothing left to do for it.\<close>

theorem uploaded_video_is_synced:
  assumes "mirror_world ev good" "good (rnWorld s)" "opIsVideo op" "\<not> IsStrmPath (opPath op)"
    and "evStat ev (rnWorld s) (opPath op) = Inr info" "apply_upload ev a op cfg s = Some (Some (), s')"
    and "link_prefix (paStrmURL (apPaths a)) sch auth lpath" "apAuth a auth"
    and "plAuth p = apAuth a" "plPaths p = apPaths a" "fsReadFile (plFS p) = evReadFile ev (rnWorld s')"
  shows "\<exists>rec. evIdxGet ev (rnWorld s') (VideoToStrmPath (opPath op)) = Some rec \<and> rKind rec = KindStrm \<and>
    ParseStrmFile (plAuth p) (fsReadFile (plFS p) (VideoToStrmPath (opPath op))) = rPickCode rec \<and>
    decideStrm p (VideoToStrmPath (opPath op)) rec = []"
  using assms by (rule upload_synced)

theorem uploaded_video_is_synced_witness:
  "\<exists>s' rec. apply_upload (with_store al_bolt sim_env) sample_applier
      ((newOp OpUpload ''/m/a.mkv'' [])\<lparr>opIsVideo := True\<rparr>) sample_local_cfg
      (sim_run [] \<lparr>smFiles = [(''/m/a.mkv'', ''x'')], smCalls = [], smInstant = [], smBroken = False\<rparr>) = Some (Some (), s') \<and>
    Get al_bolt (fst (rnWorld s')) ''/m/a.strm'' = Some rec \<and> rPickCode rec = ''abc1''"
proof -
  let ?ev = "with_store al_bolt sim_env" and ?op = "(newOp OpUpload ''/m/a.mkv'' [])\<lparr>opIsVideo := True\<rparr>"
  let ?s = "sim_run [] \<lparr>smFiles = [(''/m/a.mkv'', ''x'')], smCalls = [], smInstant = [], smBroken = False\<rparr>"
  have q: "VideoToStrmPath ''/m/a.mkv'' = ''/m/a.strm''" "\<not> IsStrmPath ''/m/a.mkv''" "path_dir ''/m/a.mkv'' = ''/m''"
    "RelToRoot ''/m'' ''/m'' (CHR ''/'') = []" by code_simp+
  obtain s' where s': "apply_upload ?ev sample_applier ?op sample_local_cfg ?s = Some (Some (), s')"
    "evReadFile ?ev (rnWorld s') ''/m/a.strm'' = Some (StrmContent ''http://h'' ''abc1'')"
    by (simp add: apply_upload_def EnsureLocalDir_def replaceWithStrm_def removeOriginal_def WriteStrmFile_def Let_def
        step_defs lift_call_def sim_run_def sample_applier_def newOp_def q update_conv' delete_conv')
  let ?p = "sample_planner ((list_fs [] [])\<lparr>fsReadFile := evReadFile ?ev (rnWorld s')\<rparr>) (list_index []) True"
  have p: "plAuth ?p = apAuth sample_applier" "plPaths ?p = apPaths sample_applier"
    "fsReadFile (plFS ?p) = evReadFile ?ev (rnWorld s')" by (simp_all add: sample_planner_def sample_applier_def)
  have l: "link_prefix (paStrmURL (apPaths sample_applier)) ''http'' ''h'' []" "apAuth sample_applier ''h''"
    by (simp_all add: sample_applier_def link_prefix_def trim_right_def is_letter_def is_ctl_def)
  have st: "sim_plain (rnWorld ?s)" "opIsVideo ?op" "\<not> IsStrmPath (opPath ?op)" "evStat ?ev (rnWorld ?s) (opPath ?op) = Inr (False, 1)"
    by (simp_all add: sim_plain_def sim_good_def sim_run_def newOp_def q(2))
  have "ParseStrmFile (\<lambda>a. a = ''h'') (Some (StrmContent ''http://h'' ''abc1'')) = ''abc1''" by code_simp
  moreover have "plAuth ?p = (\<lambda>a. a = ''h'')" by (simp add: sample_planner_def)
  ultimately show ?thesis
    using uploaded_video_is_synced [OF simw.mirror_world_axioms st s'(1) l p] s' q(1) p(3) by (auto simp: newOp_def)
qed

section \<open>A directory that is gone\<close>

text \<open>A recorded directory that is missing locally is deleted in the cloud as it stands: the planner's
  only action carries the directory's id, so the executor deletes that id in one call and forgets
  the records below the path. No video below it is moved to the recycle directory first, whatever the
  index lists.\<close>

theorem missing_dir_deleted_whole:
  assumes "rKind rec = KindDir" "rFid rec \<noteq> []"
  shows "\<exists>op. decideMissing path rec = [op] \<and> opKind op = OpDrop \<and>
    (\<forall>ev a cfg s. applyOne ev a cfg op s =
       (case evDeleteFile ev (rnWorld s) (rFid rec) of
          (False, w) \<Rightarrow> Some (s\<lparr>rnWorld := w, rnStats := (rnStats s)\<lparr>sFailed := sFailed (rnStats s) + 1\<rparr>\<rparr>)
        | (True, w) \<Rightarrow> map_option (\<lambda>w'. s\<lparr>rnWorld := w', rnStats := count_deleted 1 (rnStats s)\<rparr>) (evIdxClear ev w path)))"
  using assms
  by (auto simp: decideMissing_def clearOp_def newOp_def applyOne_def apply_handler_def apply_drop_def Drop_def clear_index_def
      step_defs is_transfer_def split: prod.splits option.splits bool.splits)

theorem missing_dir_deleted_whole_witness:
  "\<exists>op. decideMissing ''/m/d'' \<lparr>rFid = ''20'', rPickCode = [], rKind = KindDir, rSize = 0\<rparr> = [op] \<and>
    calls_of (map_option (\<lambda>s. (Some (), s)) (applyOne (with_store al_bolt sim_env) sample_applier sample_local_cfg op
      (sim_run [] \<lparr>smFiles = [], smCalls = [], smInstant = [], smBroken = False\<rparr>))) = Some ([CDelete ''20''], 0)"
proof -
  let ?rec = "\<lparr>rFid = ''20'', rPickCode = [], rKind = KindDir, rSize = 0\<rparr>"
  let ?s = "sim_run [] \<lparr>smFiles = [], smCalls = [], smInstant = [], smBroken = False\<rparr>"
  obtain op where op: "decideMissing ''/m/d'' ?rec = [op]"
    "\<And>(ev :: sim_world env) a cfg s. applyOne ev a cfg op s =
       (case evDeleteFile ev (rnWorld s) (rFid ?rec) of
          (False, w) \<Rightarrow> Some (s\<lparr>rnWorld := w, rnStats := (rnStats s)\<lparr>sFailed := sFailed (rnStats s) + 1\<rparr>\<rparr>)
        | (True, w) \<Rightarrow> map_option (\<lambda>w'. s\<lparr>rnWorld := w', rnStats := count_deleted 1 (rnStats s)\<rparr>) (evIdxClear ev w ''/m/d''))"
    using missing_dir_deleted_whole [of ?rec "''/m/d''"] by auto
  have "sim_plain (rnWorld (?s\<lparr>rnWorld := (fst (rnWorld ?s), sim_call (CDelete ''20'') (snd (rnWorld ?s)))\<rparr>))"
    by (simp add: sim_plain_def sim_good_def sim_run_def)
  from simw.clear_root [OF this, of "''/m/d''"] obtain st where
    "ClearTree al_bolt (fst (rnWorld ?s)) [''/m/d''] = Some st" by auto
  with op show ?thesis by (auto simp: calls_of_def lift_call_def sim_run_def zero_Stats_def count_deleted_def)
qed

end
