(* ===== verification/Log_Feed.thy ===== *)
theory Log_Feed
  imports Go_Base
begin

text \<open>
  \<open>internal/logfeed\<close>: the ring buffer of warnings and errors, its slog handler, and its two readers in
  \<open>internal/webui\<close>: the event stream (\<open>handler_events.go\<close>) and the request \<open>/api/logs\<close>
  (\<open>handler_logs.go\<close>). Every operation runs under the mutex, so each is one step.
\<close>

section \<open>The ring buffer (logfeed.go)\<close>

record KV =
  kvKey :: string
  kvValue :: string

record Entry =
  enSeq :: u64
  enTime :: int
  enLevel :: string
  enMsg :: string
  enAttrs :: "KV list"

definition zero_Entry :: Entry where
  "zero_Entry = \<lparr>enSeq = 0, enTime = 0, enLevel = [], enMsg = [], enAttrs = []\<rparr>"

text \<open>A subscriber's channel holds at most one signal: \<open>fdSubs\<close> says for each channel whether it does.\<close>

record Feed =
  fdBuf :: "Entry list"
  fdCap :: nat
  fdN :: nat
  fdStart :: u64
  fdNext :: u64
  fdSubs :: "(nat \<times> bool) list"

definition defaultCap :: int where "defaultCap = 300"

definition NewFeed :: "int \<Rightarrow> Feed" where
  "NewFeed capacity =
     (let n = nat (if capacity \<le> 0 then defaultCap else capacity) in
      \<lparr>fdBuf = replicate n zero_Entry, fdCap = n, fdN = 0, fdStart = 0, fdNext = 0, fdSubs = []\<rparr>)"

text \<open>The physical slot of a sequence number.\<close>

definition slot :: "Feed \<Rightarrow> u64 \<Rightarrow> nat" where
  "slot f s = unat s mod fdCap f"

definition Add :: "Entry \<Rightarrow> Feed \<Rightarrow> Feed" where
  "Add e0 f =
     (let e = e0\<lparr>enSeq := fdNext f\<rparr>;
          f1 = f\<lparr>fdNext := fdNext f + 1, fdBuf := (fdBuf f)[slot f (fdNext f) := e]\<rparr>;
          f2 = (if fdN f < fdCap f then f1\<lparr>fdN := fdN f + 1\<rparr> else f1\<lparr>fdStart := fdStart f + 1\<rparr>)
      in f2\<lparr>fdSubs := map (\<lambda>(ch, _). (ch, True)) (fdSubs f)\<rparr>)"

definition Seq :: "Feed \<Rightarrow> u64" where
  "Seq f = fdNext f"

lemma unat_next:
  fixes s :: u64
  assumes "unat s < n" "n < 2 ^ 64"
  shows "unat (s + 1) = Suc (unat s)"
proof -
  have "Suc (unat s) < 2 ^ 64" using assms by simp
  then show ?thesis by (simp add: unat_word_ariths)
qed

lemma unat_next_less: "(s :: u64) < e \<Longrightarrow> unat (s + 1) = Suc (unat s)"
  using unat_next [of s "unat e"] unsigned_less [of e] by (simp add: word_less_nat_alt)

function entries_loop :: "Feed \<Rightarrow> u64 \<Rightarrow> u64 \<Rightarrow> Entry list" where
  "entries_loop f s e = (if s < e then fdBuf f ! slot f s # entries_loop f (s + 1) e else [])"
  by pat_completeness auto
termination
proof (relation "measure (\<lambda>(f, s, e). unat e - unat s)", goal_cases)
  case (2 f s e)
  then have "unat (s + 1) = Suc (unat s)" by (rule unat_next_less)
  with 2 show ?case by (simp add: word_less_nat_alt)
qed simp

declare entries_loop.simps [simp del]

definition entriesLocked :: "Feed \<Rightarrow> Entry list" where
  "entriesLocked f = entries_loop f (fdStart f) (fdStart f + of_nat (fdN f))"

definition Feed_Snapshot :: "Feed \<Rightarrow> Entry list" where
  "Feed_Snapshot f = rev (entriesLocked f)"

function since_loop :: "Feed \<Rightarrow> u64 \<Rightarrow> u64 \<Rightarrow> Entry list" where
  "since_loop f lo s = (if lo < s then fdBuf f ! slot f (s - 1) # since_loop f lo (s - 1) else [])"
  by pat_completeness auto
termination
proof (relation "measure (\<lambda>(f, lo, s). unat s)", goal_cases)
  case (2 f lo s)
  then have "s \<noteq> 0" by auto
  then show ?case by (simp add: unat_minus_one unat_gt_0)
qed simp

declare since_loop.simps [simp del]

definition Since :: "u64 \<Rightarrow> Feed \<Rightarrow> Entry list" where
  "Since seq f =
     (if fdN f = 0 \<or> seq \<ge> fdNext f then []
      else since_loop f (if seq > fdStart f then seq + 1 else fdStart f) (fdNext f))"

definition Clear :: "Feed \<Rightarrow> Feed" where
  "Clear f = f\<lparr>fdN := 0, fdStart := fdNext f\<rparr>"

definition Subscribe :: "nat \<Rightarrow> Feed \<Rightarrow> Feed" where
  "Subscribe ch f = f\<lparr>fdSubs := (ch, False) # fdSubs f\<rparr>"

definition unsubscribe :: "nat \<Rightarrow> Feed \<Rightarrow> Feed" where
  "unsubscribe ch f = f\<lparr>fdSubs := filter (\<lambda>p. fst p \<noteq> ch) (fdSubs f)\<rparr>"

section \<open>The log handler (handler.go)\<close>

text \<open>
  A log record with its level as a number. An attribute equal to the empty \<open>slog.Attr\<close> is \<open>None\<close>
  and is skipped; the others come with the text of their value.
\<close>

record log_record =
  lrTime :: int
  lrLevel :: int
  lrLevelText :: string
  lrMessage :: string
  lrAttrs :: "KV option list"

definition formatAttrs :: "log_record \<Rightarrow> KV list" where
  "formatAttrs r = List.map_filter (\<lambda>a. a) (lrAttrs r)"

definition Handle :: "int \<Rightarrow> log_record \<Rightarrow> Feed \<Rightarrow> Feed" where
  "Handle minLevel r f =
     (if lrLevel r \<ge> minLevel
      then Add \<lparr>enSeq = 0, enTime = lrTime r, enLevel = lrLevelText r, enMsg = lrMessage r, enAttrs = formatAttrs r\<rparr> f
      else f)"

section \<open>The readers (webui)\<close>

text \<open>A frame of the event stream: whether it replaces the log, its sequence number, its entries.\<close>

record logsMsg =
  lmFull :: bool
  lmSeq :: u64
  lmLogs :: "Entry list"

text \<open>
  \<open>handleEvents\<close>: the frame sent on connection, and the frame sent when the feed signals, each with
  the value of \<open>lastLogSeq\<close> after it. Between \<open>Seq\<close> and \<open>Since\<close> other entries may arrive;
  the second feed is the one \<open>Since\<close> reads.
\<close>

definition events_open :: "Feed \<Rightarrow> logsMsg \<times> u64" where
  "events_open f =
     (let snap = Feed_Snapshot f; lastSeq = (case snap of [] \<Rightarrow> 0 | e # _ \<Rightarrow> enSeq e)
      in (\<lparr>lmFull = True, lmSeq = lastSeq, lmLogs = snap\<rparr>, lastSeq))"

definition events_kick :: "Feed \<Rightarrow> Feed \<Rightarrow> u64 \<Rightarrow> logsMsg \<times> u64" where
  "events_kick f f' lastSeq = (\<lparr>lmFull = False, lmSeq = Seq f, lmLogs = Since lastSeq f'\<rparr>, Seq f)"

text \<open>\<open>handleLogs\<close>: the argument is the text of the parameter \<open>since\<close>.\<close>

definition handleLogs :: "string \<Rightarrow> Feed \<Rightarrow> Entry list \<times> u64" where
  "handleLogs q f =
     (let since = (if q = [] then 0 else atoi_value q)
      in (if since > 0 then Since (word_of_int since) f else Feed_Snapshot f, Seq f))"

section \<open>The buffer against a list\<close>

text \<open>
  The layout: at most \<open>fdCap\<close> entries, numbered without gaps from \<open>fdStart\<close> to \<open>fdNext\<close>, each in the
  slot of its number. \<open>feed_ok\<close> holds as long as numbers do not wrap around.
\<close>

definition feed_ok :: "Feed \<Rightarrow> bool" where
  "feed_ok f \<longleftrightarrow> 0 < fdCap f \<and> length (fdBuf f) = fdCap f \<and> fdN f \<le> fdCap f \<and>
     unat (fdStart f) + fdN f = unat (fdNext f) \<and>
     (\<forall>k. unat (fdStart f) \<le> k \<and> k < unat (fdNext f) \<longrightarrow> unat (enSeq (fdBuf f ! (k mod fdCap f))) = k)"

definition window :: "Feed \<Rightarrow> nat \<Rightarrow> nat \<Rightarrow> Entry list" where
  "window f a b = map (\<lambda>k. fdBuf f ! (k mod fdCap f)) [a..<b]"

lemma entries_loop_window:
  "entries_loop f s e = window f (unat s) (unat e)"
proof (induction f s e rule: entries_loop.induct)
  case (1 f s e)
  show ?case
  proof (cases "s < e")
    case True
    then have "unat (s + 1) = Suc (unat s)" "unat s < unat e"
      by (rule unat_next_less) (use True in \<open>simp add: word_less_nat_alt\<close>)
    then show ?thesis
      using 1 [OF True] True by (simp add: entries_loop.simps [of f s e] window_def slot_def upt_conv_Cons del: upt_Suc)
  qed (simp add: entries_loop.simps [of f s e] window_def word_less_nat_alt)
qed

lemma since_loop_window:
  "since_loop f lo s = rev (window f (unat lo) (unat s))"
proof (induction f lo s rule: since_loop.induct)
  case (1 f lo s)
  show ?case
  proof (cases "lo < s")
    case True
    then have "s \<noteq> 0" by auto
    then have "unat s = Suc (unat (s - 1))" by (simp add: unat_minus_one unat_gt_0)
    moreover have "unat lo < unat s" using True by (simp add: word_less_nat_alt)
    ultimately show ?thesis
      using 1 [OF True] True by (simp add: since_loop.simps [of f lo s] window_def slot_def)
  qed (simp add: since_loop.simps [of f lo s] window_def word_less_nat_alt)
qed

lemma feed_ok_end:
  assumes "feed_ok f"
  shows "fdStart f + of_nat (fdN f) = fdNext f"
proof -
  have "of_nat (unat (fdStart f) + fdN f) = fdNext f" using assms by (simp add: feed_ok_def)
  then show ?thesis by simp
qed

lemma Snapshot_window: "feed_ok f \<Longrightarrow> Feed_Snapshot f = rev (window f (unat (fdStart f)) (unat (fdNext f)))"
  by (simp add: Feed_Snapshot_def entriesLocked_def feed_ok_end entries_loop_window)

lemma window_seq:
  "feed_ok f \<Longrightarrow> unat (fdStart f) \<le> a \<Longrightarrow> b \<le> unat (fdNext f) \<Longrightarrow> map (unat \<circ> enSeq) (window f a b) = [a..<b]"
  by (auto simp: window_def feed_ok_def intro!: map_idI)

lemma NewFeed_ok: "feed_ok (NewFeed c)"
  by (auto simp: feed_ok_def NewFeed_def Let_def defaultCap_def)

lemma Clear_ok: "feed_ok f \<Longrightarrow> feed_ok (Clear f) \<and> Feed_Snapshot (Clear f) = []"
  by (auto simp: feed_ok_def Clear_def Feed_Snapshot_def entriesLocked_def entries_loop.simps)

end
