(* ===== verification/Log_Props.thy ===== *)
theory Log_Props
  imports Log_Feed
begin

text \<open>
  The log buffer against a plain list, and what its two readers make of it.
\<close>

section \<open>Adding an entry\<close>

lemma mod_other: "(k :: nat) < n \<Longrightarrow> n < k + c \<Longrightarrow> k mod c \<noteq> n mod c"
  using mod_eq_dvd_iff_nat [of k n c] by (auto dest: dvd_imp_le)

lemma Add_fields:
  "fdCap (Add e f) = fdCap f" "fdNext (Add e f) = fdNext f + 1"
  "fdBuf (Add e f) = (fdBuf f)[slot f (fdNext f) := e\<lparr>enSeq := fdNext f\<rparr>]"
  "fdN (Add e f) = (if fdN f < fdCap f then fdN f + 1 else fdN f)"
  "fdStart (Add e f) = (if fdN f < fdCap f then fdStart f else fdStart f + 1)"
  by (simp_all add: Add_def Let_def)

lemma Add_start:
  assumes "feed_ok f" "Suc (unat (fdNext f)) < 2 ^ 64"
  shows "unat (fdNext (Add e f)) = Suc (unat (fdNext f))"
    "unat (fdStart (Add e f)) = (if fdN f < fdCap f then unat (fdStart f) else Suc (unat (fdStart f)))"
proof -
  show "unat (fdNext (Add e f)) = Suc (unat (fdNext f))"
    using unat_next [of "fdNext f" "Suc (unat (fdNext f))"] assms(2) by (simp add: Add_fields)
  have "unat (fdStart f) < Suc (unat (fdNext f))" using assms(1) by (simp add: feed_ok_def)
  then show "unat (fdStart (Add e f)) = (if fdN f < fdCap f then unat (fdStart f) else Suc (unat (fdStart f)))"
    using unat_next [of "fdStart f" "Suc (unat (fdNext f))"] assms(2) by (simp add: Add_fields)
qed

lemma Add_entry:
  assumes "feed_ok f" "Suc (unat (fdNext f)) < 2 ^ 64" "unat (fdStart (Add e f)) \<le> k" "k \<le> unat (fdNext f)"
  shows "fdBuf (Add e f) ! (k mod fdCap f) =
    (if k = unat (fdNext f) then e\<lparr>enSeq := fdNext f\<rparr> else fdBuf f ! (k mod fdCap f))"
proof (cases "k = unat (fdNext f)")
  case True
  then show ?thesis using assms(1) by (simp add: Add_fields slot_def feed_ok_def)
next
  case False
  then have "k mod fdCap f \<noteq> unat (fdNext f) mod fdCap f"
    using assms(3,4) Add_start(2) [OF assms(1,2), of e] assms(1) by (intro mod_other) (auto simp: feed_ok_def split: if_splits)
  then show ?thesis using False by (simp add: Add_fields slot_def)
qed

lemma Add_ok:
  assumes "feed_ok f" "Suc (unat (fdNext f)) < 2 ^ 64"
  shows "feed_ok (Add e f)"
  using assms(1) Add_start [OF assms, of e] Add_entry [OF assms, of e]
  by (auto simp: feed_ok_def Add_fields(1,4) Add_fields(3) [THEN arg_cong [where f = length]] split: if_splits)

lemma Add_Snapshot:
  assumes "feed_ok f" "Suc (unat (fdNext f)) < 2 ^ 64"
  shows "Feed_Snapshot (Add e f) = take (fdCap f) (e\<lparr>enSeq := fdNext f\<rparr> # Feed_Snapshot f)"
proof -
  let ?a = "unat (fdStart f)" and ?b = "unat (fdNext f)" and ?a' = "unat (fdStart (Add e f))"
  have le: "?a' \<le> ?b" "?a \<le> ?b" using Add_start(2) [OF assms, of e] assms(1) by (auto simp: feed_ok_def split: if_splits)
  have old: "window (Add e f) ?a' ?b = window f ?a' ?b"
    using Add_entry [OF assms, of e] by (auto simp: window_def Add_fields(1))
  have new: "window (Add e f) ?a' (Suc ?b) = window f ?a' ?b @ [e\<lparr>enSeq := fdNext f\<rparr>]"
    using Add_entry [OF assms, of e ?b] le old by (simp add: window_def Add_fields(1))
  have s: "Feed_Snapshot (Add e f) = e\<lparr>enSeq := fdNext f\<rparr> # rev (window f ?a' ?b)"
    by (simp add: Snapshot_window [OF Add_ok [OF assms]] Add_start(1) [OF assms] new)
  show ?thesis
  proof (cases "fdN f < fdCap f")
    case True
    then show ?thesis using s Add_start(2) [OF assms, of e] assms(1)
      by (auto simp: Snapshot_window [OF assms(1)] window_def feed_ok_def take_Cons' )
  next
    case False
    then have n: "?b - ?a = fdCap f" "0 < fdCap f" "?a < ?b" using assms(1) by (auto simp: feed_ok_def)
    have "window f ?a ?b = fdBuf f ! (?a mod fdCap f) # window f (Suc ?a) ?b"
      using n(3) by (simp add: window_def upt_conv_Cons del: upt_Suc)
    moreover have "length (window f (Suc ?a) ?b) = fdCap f - 1" using n by (simp add: window_def)
    ultimately show ?thesis using s False Add_start(2) [OF assms, of e] n(2)
      by (simp add: Snapshot_window [OF assms(1)] take_Cons')
  qed
qed

section \<open>The buffer is the newest part of the log\<close>

datatype feed_op = FAdd Entry | FClear

definition feed_step :: "feed_op \<Rightarrow> Feed \<Rightarrow> Feed" where
  "feed_step p f = (case p of FAdd e \<Rightarrow> Add e f | FClear \<Rightarrow> Clear f)"

text \<open>The same operations on an unbounded log: the entries since the last clearing, newest first, and their number.\<close>

definition log_step :: "feed_op \<Rightarrow> Entry list \<times> nat \<Rightarrow> Entry list \<times> nat" where
  "log_step p l = (case p of FAdd e \<Rightarrow> (e\<lparr>enSeq := of_nat (snd l)\<rparr> # fst l, Suc (snd l)) | FClear \<Rightarrow> ([], snd l))"

definition feed_rel :: "nat \<Rightarrow> Feed \<Rightarrow> Entry list \<times> nat \<Rightarrow> bool" where
  "feed_rel n f l \<longleftrightarrow> feed_ok f \<and> fdCap f = n \<and> Feed_Snapshot f = take n (fst l) \<and> unat (fdNext f) = snd l"

lemma feed_rel_step:
  assumes "feed_rel n f l" "Suc (snd l) < 2 ^ 64"
  shows "feed_rel n (feed_step p f) (log_step p l)"
proof (cases p)
  case FClear
  then show ?thesis using assms Clear_ok [of f]
    by (simp add: feed_rel_def feed_step_def log_step_def) (simp add: Clear_def)
next
  case (FAdd e)
  have l: "snd l = unat (fdNext f)" using assms by (simp add: feed_rel_def)
  have f: "feed_ok f" "Suc (unat (fdNext f)) < 2 ^ 64" and n: "of_nat (snd l) = fdNext f" "0 < n"
    unfolding l using assms l by (auto simp: feed_rel_def feed_ok_def)
  have "take n (e\<lparr>enSeq := fdNext f\<rparr> # take n (fst l)) = take n (e\<lparr>enSeq := fdNext f\<rparr> # fst l)"
    using n(2) by (cases n) (simp_all add: min_def)
  then show ?thesis
    using FAdd assms n Add_ok [OF f] Add_Snapshot [OF f] Add_start(1) [OF f]
    by (simp add: feed_rel_def feed_step_def log_step_def Add_fields)
qed

lemma feed_rel_run:
  "feed_rel n f l \<Longrightarrow> snd l + length ps < 2 ^ 64 \<Longrightarrow> feed_rel n (fold feed_step ps f) (fold log_step ps l)"
proof (induction ps arbitrary: f l)
  case (Cons p ps)
  have "snd (log_step p l) \<le> Suc (snd l)" by (simp add: log_step_def split: feed_op.splits)
  then show ?case using Cons.IH [OF feed_rel_step [OF Cons.prems(1)]] Cons.prems(2) by simp
qed simp

text \<open>C32. The ring buffer is the newest part of the log. After any sequence of entries and clearings
  the snapshot is the newest entries since the last clearing, newest first and at most as many as the
  buffer holds, and every entry carries the number of entries before it, also across clearings.\<close>

theorem feed_refines_log:
  assumes "length ps < 2 ^ 64"
  shows "Feed_Snapshot (fold feed_step ps (NewFeed c)) = take (fdCap (NewFeed c)) (fst (fold log_step ps ([], 0))) \<and>
    unat (Seq (fold feed_step ps (NewFeed c))) = snd (fold log_step ps ([], 0))"
proof -
  have "Feed_Snapshot (NewFeed c) = []"
    by (simp add: Snapshot_window [OF NewFeed_ok] window_def) (simp add: NewFeed_def Let_def)
  then have "feed_rel (fdCap (NewFeed c)) (NewFeed c) ([], 0)"
    by (simp add: feed_rel_def NewFeed_ok) (simp add: NewFeed_def Let_def)
  from feed_rel_run [OF this, of ps] assms show ?thesis by (simp add: feed_rel_def Seq_def)
qed

theorem feed_refines_log_witness:
  "map enMsg (Feed_Snapshot (fold feed_step
      (map (\<lambda>m. FAdd (zero_Entry\<lparr>enMsg := m\<rparr>)) [''m0'', ''m1'', ''m2'', ''m3'', ''m4'']) (NewFeed 3))) = [''m4'', ''m3'', ''m2'']"
proof -
  let ?ps = "map (\<lambda>m. FAdd (zero_Entry\<lparr>enMsg := m\<rparr>)) [''m0'', ''m1'', ''m2'', ''m3'', ''m4'']"
  have "length ?ps < 2 ^ 64" by simp
  from feed_refines_log [OF this, of 3]
  have "Feed_Snapshot (fold feed_step ?ps (NewFeed 3)) = take (fdCap (NewFeed 3)) (fst (fold log_step ?ps ([], 0)))" by simp
  moreover have "fdCap (NewFeed 3) = 3" by (simp add: NewFeed_def Let_def)
  ultimately show ?thesis by (simp add: log_step_def)
qed

section \<open>Reading on from a number\<close>

lemma filter_upt_from: "filter (\<lambda>k. m \<le> k) [a..<b] = [max a m..<b]"
  by (induction b) auto

text \<open>What a reader gets when it asks for the entries after a number: the newer ones, newest first, and in
  addition the entry with that very number when it is the oldest one kept.\<close>

theorem Since_exact:
  assumes "feed_ok f"
  shows "Since n f = filter (\<lambda>e. n < enSeq e \<or> n = enSeq e \<and> n = fdStart f) (Feed_Snapshot f)"
proof -
  let ?a = "unat (fdStart f)" and ?b = "unat (fdNext f)"
  have ent: "unat (enSeq (fdBuf f ! (k mod fdCap f))) = k" if "?a \<le> k" "k < ?b" for k
    using assms that by (simp add: feed_ok_def)
  let ?m = "if ?a < unat n then Suc (unat n) else ?a"
  have flt: "filter (\<lambda>e. n < enSeq e \<or> n = enSeq e \<and> n = fdStart f) (window f ?a ?b) = window f ?m ?b"
  proof -
    have "filter (\<lambda>e. n < enSeq e \<or> n = enSeq e \<and> n = fdStart f) (window f ?a ?b) =
        map (\<lambda>k. fdBuf f ! (k mod fdCap f)) (filter (\<lambda>k. ?m \<le> k) [?a..<?b])"
      unfolding window_def filter_map comp_def
      by (rule arg_cong [where f = "map _"], rule filter_cong [OF refl])
         (use ent in \<open>auto simp: word_less_nat_alt word_unat_eq_iff split: if_splits\<close>)
    also have "filter (\<lambda>k. ?m \<le> k) [?a..<?b] = [max ?a ?m..<?b]"
      by (rule filter_upt_from)
    finally show ?thesis by (simp add: window_def max_def)
  qed
  show ?thesis
  proof (cases "fdN f = 0 \<or> n \<ge> fdNext f")
    case True
    then have "?b \<le> ?m" using assms by (auto simp: feed_ok_def word_le_nat_alt)
    then show ?thesis using True flt by (simp add: Since_def Snapshot_window [OF assms] rev_filter [symmetric] window_def)
  next
    case False
    then have "unat (n + 1) = Suc (unat n)" by (intro unat_next_less [of n "fdNext f"]) (simp add: not_le)
    then show ?thesis
      using False flt by (simp add: Since_def since_loop_window Snapshot_window [OF assms] rev_filter [symmetric] word_less_nat_alt)
  qed
qed

theorem Since_exact_witness:
  "map enMsg (Since 1 (fold feed_step (map (\<lambda>m. FAdd (zero_Entry\<lparr>enMsg := m\<rparr>)) [''m0'', ''m1'', ''m2'', ''m3'']) (NewFeed 3))) =
    [''m3'', ''m2'', ''m1'']"
proof -
  let ?f = "fold feed_step (map (\<lambda>m. FAdd (zero_Entry\<lparr>enMsg := m\<rparr>)) [''m0'', ''m1'', ''m2'', ''m3'']) (NewFeed 3)"
  have "feed_ok ?f"
    using feed_rel_run [of "fdCap (NewFeed 3)" "NewFeed 3" "([], 0)" "map (\<lambda>m. FAdd (zero_Entry\<lparr>enMsg := m\<rparr>)) [''m0'', ''m1'', ''m2'', ''m3'']"]
    by (simp add: feed_rel_def NewFeed_ok) (simp add: NewFeed_def Let_def Feed_Snapshot_def entriesLocked_def entries_loop.simps)
  from Since_exact [OF this, of 1] show ?thesis
    by code_simp
qed

section \<open>The event stream\<close>

text \<open>A connected reader: after each new entry the feed signals, and the handler sends a frame.\<close>

fun frames :: "Entry list \<Rightarrow> Feed \<Rightarrow> u64 \<Rightarrow> logsMsg list" where
  "frames [] f lastSeq = []"
| "frames (e # es) f lastSeq =
     (case events_kick (Add e f) (Add e f) lastSeq of (fr, lastSeq') \<Rightarrow> fr # frames es (Add e f) lastSeq')"

lemma length_frames: "length (frames es f l) = length es"
  by (induction es f l rule: frames.induct) (auto split: prod.splits)

lemma Since_newest:
  assumes "feed_ok f" "Suc (unat (fdNext f)) < 2 ^ 64" "0 < fdN f" "1 < fdCap f"
  shows "Since (fdNext f) (Add e f) = []"
proof -
  let ?f = "Add e f"
  have st: "unat (fdStart ?f) < unat (fdNext f)"
    using Add_start(2) [OF assms(1,2), of e] assms(1,3,4) by (auto simp: feed_ok_def split: if_splits)
  have "enSeq x \<le> fdNext f" if "x \<in> set (Feed_Snapshot ?f)" for x
  proof -
    have ok: "feed_ok ?f" by (rule Add_ok [OF assms(1,2)])
    from that have "unat (enSeq x) \<in> set (map (unat \<circ> enSeq) (window ?f (unat (fdStart ?f)) (unat (fdNext ?f))))"
      by (auto simp: Snapshot_window [OF ok])
    then have "unat (enSeq x) < unat (fdNext ?f)"
      using window_seq [OF ok, of "unat (fdStart ?f)" "unat (fdNext ?f)"] by simp
    then show ?thesis using Add_start(1) [OF assms(1,2), of e] by (simp add: word_le_nat_alt)
  qed
  then show ?thesis using st by (auto simp: Since_exact [OF Add_ok [OF assms(1,2)]] filter_empty_conv not_less)
qed

text \<open>C40. The event stream goes silent. Once a reader has had one frame, its position is the number the next
  entry will get, and reading on from there skips that entry: however many entries arrive one
  after the other, every later frame is empty, though each of them is in the buffer when its frame is sent.\<close>

theorem stream_goes_silent:
  assumes "feed_ok f" "0 < fdN f" "1 < fdCap f" "unat (fdNext f) + length es < 2 ^ 64"
  shows "\<forall>fr \<in> set (frames es f (snd (events_kick f f lastSeq))). lmLogs fr = [] \<and> \<not> lmFull fr"
  using assms
proof (induction es arbitrary: f lastSeq)
  case (Cons e es)
  have f: "Suc (unat (fdNext f)) < 2 ^ 64" using Cons.prems(4) by simp
  have "0 < fdN (Add e f)" "1 < fdCap (Add e f)" using Cons.prems(2,3) by (simp_all add: Add_fields)
  moreover have "unat (fdNext (Add e f)) + length es < 2 ^ 64"
    using Cons.prems(4) Add_start(1) [OF Cons.prems(1) f, of e] by simp
  ultimately show ?case
    using Cons.IH [OF Add_ok [OF Cons.prems(1) f]] Since_newest [OF Cons.prems(1) f Cons.prems(2,3)]
    by (simp add: events_kick_def Seq_def)
qed simp

theorem stream_goes_silent_witness:
  "map (map enMsg \<circ> lmLogs) (frames (map (\<lambda>m. zero_Entry\<lparr>enMsg := m\<rparr>) [''m1'', ''m2''])
      (Add (zero_Entry\<lparr>enMsg := ''m0''\<rparr>) (NewFeed 0)) (snd (events_kick (Add (zero_Entry\<lparr>enMsg := ''m0''\<rparr>) (NewFeed 0))
        (Add (zero_Entry\<lparr>enMsg := ''m0''\<rparr>) (NewFeed 0)) 0))) = [[], []]"
proof -
  let ?f = "Add (zero_Entry\<lparr>enMsg := ''m0''\<rparr>) (NewFeed 0)" and ?es = "map (\<lambda>m. zero_Entry\<lparr>enMsg := m\<rparr>) [''m1'', ''m2'']"
  have n: "fdNext (NewFeed 0) = 0" "fdN (NewFeed 0) = 0" "fdCap (NewFeed 0) = 300"
    by (simp_all add: NewFeed_def Let_def defaultCap_def)
  have "feed_ok ?f" by (rule Add_ok [OF NewFeed_ok]) (simp add: n)
  moreover have "0 < fdN ?f" "1 < fdCap ?f" "unat (fdNext ?f) + length ?es < 2 ^ 64" by (simp_all add: Add_fields n)
  ultimately have "\<forall>fr \<in> set (frames ?es ?f (snd (events_kick ?f ?f 0))). lmLogs fr = [] \<and> \<not> lmFull fr"
    by (rule stream_goes_silent)
  then have "map (map enMsg \<circ> lmLogs) (frames ?es ?f (snd (events_kick ?f ?f 0))) = replicate 2 []"
    by (intro replicate_eqI) (auto simp: length_frames simp del: frames.simps list.map(2))
  then show ?thesis by (simp only: numeral_2_eq_2 replicate.simps)
qed

end
