(* ===== verification/Torrent.thy ===== *)
theory Torrent
  imports Go_Base
begin

text \<open>
  \<open>internal/drive/torrent.go\<close>: the bencode reader that takes the info hash and the name out of a torrent
  file. Positions are indices into the bytes, as in the code; an out-of-range slice is a
  \<^const>\<open>Panic\<close>. \<open>skipValue\<close> recurses on nested values and takes fuel; \<open>skip_fuel\<close> is enough for every
  input (\<open>skip_terminates\<close>). The SHA-1 sum is a parameter.
\<close>

section \<open>Reading strings and skipping values\<close>

text \<open>
  \<open>readBString\<close>: the string and the position after it. The end position is computed in an int64 and
  can wrap around to a negative number, which passes the range check and makes the slice panic.
\<close>

definition readBString :: "string \<Rightarrow> nat \<Rightarrow> (unit, string \<times> nat) outcome" where
  "readBString data pos =
     (case index_byte (CHR '':'') (drop pos data) of
        None \<Rightarrow> Err ()
      | Some i \<Rightarrow>
          let colon = pos + i in
          (case parse_int (take i (drop pos data)) of
             None \<Rightarrow> Err ()
           | Some n \<Rightarrow>
               if n < 0 then Err ()
               else
                 let en = sint (word_of_int (int colon + 1 + n) :: i64) in
                 if en > int (length data) then Err ()
                 else if en < int colon + 1 then Panic
                 else Ok (take (nat en - (colon + 1)) (drop (colon + 1) data), nat en)))"

text \<open>An integer: up to and with its \<open>e\<close>.\<close>

definition skip_int :: "string \<Rightarrow> nat \<Rightarrow> nat option" where
  "skip_int data pos = map_option (\<lambda>i. pos + i + 1) (index_byte (CHR ''e'') (drop pos data))"

fun skipValue :: "nat \<Rightarrow> string \<Rightarrow> nat \<Rightarrow> (unit, nat) outcome option"
  and skip_items :: "nat \<Rightarrow> string \<Rightarrow> nat \<Rightarrow> (unit, nat) outcome option" where
  "skipValue 0 data pos = None"
| "skipValue (Suc n) data pos =
     (if pos \<ge> length data then Some (Ok pos)
      else if data ! pos = CHR ''i'' then
        Some (Ok (case skip_int data pos of None \<Rightarrow> length data | Some p \<Rightarrow> p))
      else if data ! pos = CHR ''l'' \<or> data ! pos = CHR ''d'' then skip_items n data (pos + 1)
      else
        (case readBString data pos of
           Err _ \<Rightarrow> Some (Ok (length data))
         | Panic \<Rightarrow> Some Panic
         | Ok (_, nxt) \<Rightarrow> Some (Ok nxt)))"
| "skip_items 0 data pos = None"
| "skip_items (Suc n) data pos =
     (if pos \<ge> length data then Some (Ok (length data))
      else if data ! pos = CHR ''e'' then Some (Ok (pos + 1))
      else if data ! pos = CHR ''i'' then
        (case skip_int data pos of None \<Rightarrow> Some (Ok (length data)) | Some p \<Rightarrow> skip_items n data p)
      else if data ! pos = CHR ''l'' \<or> data ! pos = CHR ''d'' then
        (case skipValue n data pos of Some (Ok p) \<Rightarrow> skip_items n data p | r \<Rightarrow> r)
      else
        (case readBString data pos of
           Err _ \<Rightarrow> Some (Ok (length data))
         | Panic \<Rightarrow> Some Panic
         | Ok (_, nxt) \<Rightarrow> skip_items n data nxt))"

definition skip_fuel :: "string \<Rightarrow> nat" where
  "skip_fuel data = 2 * length data + 2"

section \<open>The torrent file\<close>

datatype torrent_error = NotADict | BadKey | NoInfo

text \<open>
  The loop over the top-level keys, up to the key \<open>info\<close>: the range of its value, or \<open>None\<close> when
  there is no such key. The fuel bounds the number of keys.
\<close>

fun info_range :: "nat \<Rightarrow> string \<Rightarrow> nat \<Rightarrow> (torrent_error, (nat \<times> nat) option) outcome option" where
  "info_range 0 data pos = None"
| "info_range (Suc n) data pos =
     (if pos \<ge> length data \<or> data ! pos = CHR ''e'' then Some (Ok None)
      else
        (case readBString data pos of
           Err _ \<Rightarrow> Some (Err BadKey)
         | Panic \<Rightarrow> Some Panic
         | Ok (key, nxt) \<Rightarrow>
             (case skipValue (skip_fuel data) data nxt of
                None \<Rightarrow> None
              | Some Panic \<Rightarrow> Some Panic
              | Some (Err _) \<Rightarrow> Some Panic
              | Some (Ok p) \<Rightarrow> if key = ''info'' then Some (Ok (Some (nxt, p))) else info_range n data p)))"

text \<open>\<open>parseInfoName\<close>: the loop over the keys of the info dictionary.\<close>

fun info_name :: "nat \<Rightarrow> string \<Rightarrow> nat \<Rightarrow> (unit, string) outcome option" where
  "info_name 0 data pos = None"
| "info_name (Suc n) data pos =
     (if pos \<ge> length data then Some (Ok [])
      else
        (case readBString data pos of
           Err _ \<Rightarrow> Some (Ok [])
         | Panic \<Rightarrow> Some Panic
         | Ok (key, nxt) \<Rightarrow>
             if key = ''name'' then
               (case readBString data nxt of Ok (v, _) \<Rightarrow> Some (Ok v) | Err _ \<Rightarrow> Some (Ok []) | Panic \<Rightarrow> Some Panic)
             else
               (case skipValue (skip_fuel data) data nxt of
                  None \<Rightarrow> None
                | Some Panic \<Rightarrow> Some Panic
                | Some (Err _) \<Rightarrow> Some Panic
                | Some (Ok p) \<Rightarrow>
                    if p \<ge> length data \<or> data ! p = CHR ''e'' then Some (Ok []) else info_name n data p)))"

definition parseInfoName :: "string \<Rightarrow> (unit, string) outcome option" where
  "parseInfoName infoData =
     (if infoData = [] \<or> hd infoData \<noteq> CHR ''d'' then Some (Ok []) else info_name (length infoData + 1) infoData 1)"

definition hex_upper :: "string \<Rightarrow> string" where
  "hex_upper s = concat (map (\<lambda>c. let n = (of_char c :: nat); d = (\<lambda>k. if k < 10 then char_of (48 + k) else char_of (55 + k))
     in [d (n div 16), d (n mod 16)]) s)"

definition sha1Hex :: "(string \<Rightarrow> string) \<Rightarrow> string \<Rightarrow> string" where
  "sha1Hex sha1 b = hex_upper (sha1 b)"

definition slice :: "string \<Rightarrow> nat \<Rightarrow> nat \<Rightarrow> string" where
  "slice data a b = take (b - a) (drop a data)"

definition parseTorrent :: "(string \<Rightarrow> string) \<Rightarrow> string \<Rightarrow> (torrent_error, string \<times> string) outcome option" where
  "parseTorrent sha1 data =
     (if data = [] \<or> hd data \<noteq> CHR ''d'' then Some (Err NotADict)
      else
        (case info_range (length data + 1) data 1 of
           None \<Rightarrow> None
         | Some Panic \<Rightarrow> Some Panic
         | Some (Err e) \<Rightarrow> Some (Err e)
         | Some (Ok None) \<Rightarrow> Some (Err NoInfo)
         | Some (Ok (Some (a, b))) \<Rightarrow>
             if b \<le> a then Some (Err NoInfo)
             else
               let info = slice data a b in
               (case parseInfoName info of
                  None \<Rightarrow> None
                | Some (Ok name) \<Rightarrow> Some (Ok (sha1Hex sha1 info, name))
                | Some _ \<Rightarrow> Some Panic)))"

section \<open>Every input gives an answer\<close>

lemma readBString_Ok:
  assumes "readBString data pos = Ok (s, nxt)"
  shows "pos < nxt \<and> nxt \<le> length data"
proof -
  obtain i n where i: "index_byte (CHR '':'') (drop pos data) = Some i"
    "\<not> int (length data) < sint (word_of_int (int (pos + i) + 1 + n) :: i64)"
    "\<not> sint (word_of_int (int (pos + i) + 1 + n) :: i64) < int (pos + i) + 1"
    "nxt = nat (sint (word_of_int (int (pos + i) + 1 + n) :: i64))"
    using assms by (auto simp: readBString_def Let_def split: option.splits if_splits)
  then show ?thesis by linarith
qed

lemma skip_int_Some: "skip_int data pos = Some p \<Longrightarrow> pos < p \<and> p \<le> length data"
  by (auto simp: skip_int_def dest: index_byte_Some)

lemma skip_bounds:
  "(skipValue n data pos = Some (Ok p) \<longrightarrow> pos < length data \<longrightarrow> pos < p \<and> p \<le> length data) \<and>
   (skip_items n data pos = Some (Ok p) \<longrightarrow> pos \<le> length data \<longrightarrow> pos \<le> p \<and> p \<le> length data)"
proof (induction n arbitrary: pos p)
  case (Suc n)
  have V: "pos < p \<and> p \<le> length data" if "skipValue n data pos = Some (Ok p)" "pos < length data" for pos p
    using Suc that by blast
  have I: "pos \<le> p \<and> p \<le> length data" if "skip_items n data pos = Some (Ok p)" "pos \<le> length data" for pos p
    using Suc that by blast
  have "pos < p \<and> p \<le> length data" if v: "skipValue (Suc n) data pos = Some (Ok p)" "pos < length data"
  proof (cases "data ! pos = CHR ''l'' \<or> data ! pos = CHR ''d''")
    case True
    then have "skip_items n data (pos + 1) = Some (Ok p)" using v by (auto split: if_splits)
    then show ?thesis using I [of "pos + 1" p] v(2) by simp
  next
    case False
    then show ?thesis using v
      by (auto split: if_splits option.splits outcome.splits dest: readBString_Ok skip_int_Some)
  qed
  moreover have "pos \<le> p \<and> p \<le> length data" if it: "skip_items (Suc n) data pos = Some (Ok p)" "pos \<le> length data"
  proof (cases "pos = length data \<or> data ! pos = CHR ''e''")
    case True
    then show ?thesis using it by (auto split: if_splits)
  next
    case False
    then have lt: "pos < length data" using it(2) by simp
    consider "skip_int data pos = None" "p = length data" | q where "skip_int data pos = Some q" "skip_items n data q = Some (Ok p)"
      | q where "skipValue n data pos = Some (Ok q)" "skip_items n data q = Some (Ok p)"
      | "p = length data" | st q where "readBString data pos = Ok (st, q)" "skip_items n data q = Some (Ok p)"
      using it(1) False lt by (auto split: if_splits option.splits outcome.splits)
    then show ?thesis
    proof cases
      case (2 q)
      then show ?thesis using skip_int_Some [OF 2(1)] I [OF 2(2)] by simp
    next
      case (3 q)
      then show ?thesis using V [OF 3(1) lt] I [OF 3(2)] by simp
    next
      case (5 st q)
      then show ?thesis using readBString_Ok [OF 5(1)] I [OF 5(2)] by simp
    qed (use it(2) in simp_all)
  qed
  ultimately show ?case by blast
qed simp

lemma skipValue_bounds: "skipValue n data pos = Some (Ok p) \<Longrightarrow> pos < length data \<Longrightarrow> pos < p \<and> p \<le> length data"
  using skip_bounds by blast

lemma skipValue_bounds_le: "skipValue n data pos = Some (Ok p) \<Longrightarrow> pos \<le> length data \<Longrightarrow> pos \<le> p \<and> p \<le> length data"
  using skipValue_bounds [of n data pos p] by (cases n) (auto simp: le_less)

lemma skip_enough:
  "(2 * (length data - pos) \<le> n \<longrightarrow> 0 < n \<longrightarrow> skipValue n data pos \<noteq> None) \<and>
   (2 * (length data - pos) + 1 \<le> n \<longrightarrow> skip_items n data pos \<noteq> None)"
proof (induction n arbitrary: pos)
  case (Suc n)
  have V: "skipValue n data pos \<noteq> None" if "2 * (length data - pos) \<le> n" "0 < n" for pos
    using Suc that by blast
  have I: "skip_items n data pos \<noteq> None" if "2 * (length data - pos) + 1 \<le> n" for pos
    using Suc that by blast
  have "skipValue (Suc n) data pos \<noteq> None" if "2 * (length data - pos) \<le> Suc n"
  proof (cases "pos < length data")
    case True
    then show ?thesis using I [of "pos + 1"] that by (auto split: outcome.splits)
  qed simp
  moreover have "skip_items (Suc n) data pos \<noteq> None" if f: "2 * (length data - pos) + 1 \<le> Suc n"
  proof (cases "pos < length data")
    case True
    have after: "skip_items n data q \<noteq> None" if "pos < q" for q
      using that f True by (intro I) linarith
    have v: "skipValue n data pos \<noteq> None" using f True by (intro V) linarith+
    show ?thesis
      using v after True skip_int_Some [of data pos] readBString_Ok [of data pos] skipValue_bounds [of n data pos, OF _ True]
      by (auto split: outcome.splits option.splits)
  qed simp
  ultimately show ?case by blast
qed simp

lemma skip_terminates: "skipValue (skip_fuel data) data pos \<noteq> None"
  using skip_enough [of data pos "skip_fuel data"] by (simp add: skip_fuel_def)

lemma info_range_terminates: "length data - pos < n \<Longrightarrow> info_range n data pos \<noteq> None"
proof (induction n arbitrary: pos)
  case (Suc n)
  show ?case
  proof (cases "readBString data pos")
    case (Ok r)
    obtain key nxt where r: "r = (key, nxt)" by fastforce
    note b = readBString_Ok [OF Ok [unfolded r]]
    obtain o' where o': "skipValue (skip_fuel data) data nxt = Some o'" using skip_terminates by fastforce
    have "info_range n data q \<noteq> None" if "o' = Ok q" for q
      using that o' skipValue_bounds_le [of "skip_fuel data" data nxt q] b Suc.prems by (intro Suc.IH) auto
    then show ?thesis using Ok r o' by (auto split: outcome.splits)
  qed auto
qed simp

lemma info_name_terminates: "length data - pos < n \<Longrightarrow> info_name n data pos \<noteq> None"
proof (induction n arbitrary: pos)
  case (Suc n)
  show ?case
  proof (cases "readBString data pos")
    case (Ok r)
    obtain key nxt where r: "r = (key, nxt)" by fastforce
    note b = readBString_Ok [OF Ok [unfolded r]]
    obtain o' where o': "skipValue (skip_fuel data) data nxt = Some o'" using skip_terminates by fastforce
    have "info_name n data q \<noteq> None" if "o' = Ok q" for q
      using that o' skipValue_bounds_le [of "skip_fuel data" data nxt q] b Suc.prems by (intro Suc.IH) auto
    then show ?thesis using Ok r o' by (auto split: outcome.splits)
  qed auto
qed simp

lemma parse_terminates: "parseTorrent sha1 data \<noteq> None"
proof -
  have "info_range (length data + 1) data 1 \<noteq> None" by (rule info_range_terminates) simp
  then obtain r where r: "info_range (length data + 1) data 1 = Some r" by blast
  have n: "(parseInfoName d = None) = False" for d
    using info_name_terminates [of d 1 "length d + 1"] by (simp add: parseInfoName_def)
  show ?thesis
    unfolding parseTorrent_def r Let_def by (auto simp: n split: outcome.splits option.splits prod.splits)
qed

end
