(* ===== verification/Torrent_Props.thy ===== *)
theory Torrent_Props
  imports Torrent
begin

text \<open>
  The torrent reader on well-formed files: the bencode of a value is defined from the format,
  and reading it back gives the range of the info dictionary and its name.
\<close>

section \<open>Bencode\<close>

datatype benc = BInt int | BStr string | BList "benc list" | BDict "(string \<times> benc) list"

definition bstr :: "string \<Rightarrow> string" where
  "bstr s = format_uint 10 (length s) @ CHR '':'' # s"

fun bencode :: "benc \<Rightarrow> string" where
  "bencode (BInt z) = CHR ''i'' # format_int z @ ''e''"
| "bencode (BStr s) = bstr s"
| "bencode (BList vs) = CHR ''l'' # concat (map bencode vs) @ ''e''"
| "bencode (BDict kvs) = CHR ''d'' # concat (map (\<lambda>(k, v). bstr k @ bencode v) kvs) @ ''e''"

definition flat :: "(string \<times> benc) list \<Rightarrow> benc list" where
  "flat kvs = concat (map (\<lambda>(k, v). [BStr k, v]) kvs)"

lemma bencode_flat: "concat (map (\<lambda>(k, v). bstr k @ bencode v) kvs) = concat (map bencode (flat kvs))"
  by (induction kvs) (auto simp: flat_def)

section \<open>Digits\<close>

definition is_digit :: "char \<Rightarrow> bool" where
  "is_digit c \<longleftrightarrow> 48 \<le> (of_char c :: nat) \<and> (of_char c :: nat) \<le> 57"

lemma digit_char_10: "d < 10 \<Longrightarrow> is_digit (digit_char d)"
  by (simp add: is_digit_def of_char_digit_char)

lemma format_uint_is_digit: "c \<in> set (format_uint 10 n) \<Longrightarrow> is_digit c"
  using format_uint_digits [of 10 c n] digit_char_10 by auto

lemma digit_not: "is_digit c \<Longrightarrow> c \<notin> set ''e:ild-+''"
  by (auto simp: is_digit_def)

lemma format_uint_hd: "format_uint 10 n = c # cs \<Longrightarrow> is_digit c"
  using format_uint_is_digit [of c n] by simp

lemma parse_int_format: "n < 2 ^ 63 \<Longrightarrow> parse_int (format_uint 10 n) = Some (int n)"
proof -
  assume n: "n < 2 ^ 63"
  obtain c cs where c: "format_uint 10 n = c # cs" by (cases "format_uint 10 n") simp_all
  then have "c \<noteq> CHR ''-''" "c \<noteq> CHR ''+''" using format_uint_hd [OF c] digit_not [of c] by auto
  then show ?thesis using n c digits_value_format_uint [of 10 n] by (simp add: parse_int_def Let_def)
qed

lemma format_int_no_e: "CHR ''e'' \<notin> set (format_int z)"
  using format_uint_is_digit [of "CHR ''e''"] digit_not [of "CHR ''e''"] by (auto simp: format_int_def)

section \<open>Reading encoded values\<close>

lemma sint_small: "0 \<le> z \<Longrightarrow> z < 2 ^ 63 \<Longrightarrow> sint (word_of_int z :: i64) = z"
  using wrap64_small [of z] by (simp add: wrap64_def)

lemma read_encoded_string:
  assumes "drop pos data = bstr s @ rest" "length data < 2 ^ 62"
  shows "readBString data pos = Ok (s, pos + length (bstr s))"
proof -
  let ?d = "format_uint 10 (length s)"
  have drop: "drop pos data = ?d @ CHR '':'' # s @ rest" using assms(1) by (simp add: bstr_def)
  have len: "pos + length ?d + 1 + length s \<le> length data"
    using arg_cong [OF drop, of length] by (auto simp: not_le split: if_splits)
  have i: "index_byte (CHR '':'') (drop pos data) = Some (length ?d)"
    unfolding drop by (rule index_byte_append) (use format_uint_is_digit [of "CHR '':''"] digit_not [of "CHR '':''"] in auto)
  have p: "parse_int (take (length ?d) (drop pos data)) = Some (int (length s))"
    unfolding drop using parse_int_format [of "length s"] len assms(2) by simp
  have en: "sint (word_of_int (int (pos + length ?d) + 1 + int (length s)) :: i64) = int (pos + length ?d + 1 + length s)"
    using len assms(2) by (subst sint_small) auto
  have "drop (pos + length ?d + 1) data = s @ rest"
    using arg_cong [OF drop, of "drop (length ?d + 1)"] by (simp add: add.commute add.left_commute)
  then show ?thesis
    using i p len en by (simp add: readBString_def Let_def bstr_def)
qed

lemma read_not_string:
  assumes "drop pos data = c # xs" "c \<in> set ''ild''"
  shows "readBString data pos = Err ()"
proof (cases "index_byte (CHR '':'') (drop pos data)")
  case (Some i)
  then have "i \<noteq> 0" using assms by (cases i) (auto split: if_splits)
  then obtain j where j: "i = Suc j" by (cases i) auto
  have c: "c \<noteq> CHR ''-''" "c \<noteq> CHR ''+''" "digit_val c \<in> {Some 18, Some 21, Some 13}"
    using assms(2) by (auto simp: digit_val_def)
  then have "digits_value 10 0 (c # take j xs) = None" by auto
  then have "parse_int (take i (drop pos data)) = None"
    using c(1,2) assms(1) j by (simp add: parse_int_def Let_def)
  then show ?thesis using Some by (simp add: readBString_def Let_def)
qed (simp add: readBString_def)

lemma skip_encoded_int:
  assumes "drop pos data = bencode (BInt z) @ rest"
  shows "skip_int data pos = Some (pos + length (bencode (BInt z)))"
proof -
  have "drop pos data = (CHR ''i'' # format_int z) @ CHR ''e'' # rest" using assms by simp
  then have "index_byte (CHR ''e'') (drop pos data) = Some (length (CHR ''i'' # format_int z))"
    using index_byte_append [of "CHR ''e''" "CHR ''i'' # format_int z" rest] format_int_no_e by simp
  then show ?thesis by (simp add: skip_int_def)
qed

lemma bstr_hd: "bstr s = c # cs \<Longrightarrow> is_digit c"
  by (cases "format_uint 10 (length s)") (auto simp: bstr_def dest: format_uint_hd)

lemma bencode_nonempty [simp]: "bencode v \<noteq> []"
  by (cases v) (simp_all add: bstr_def)

lemma nth_drop: "drop pos data = c # xs \<Longrightarrow> pos < length data \<and> data ! pos = c"
  by (metis drop_all hd_drop_conv_nth leI list.distinct(1) list.sel(1))

lemma drop_more: "drop pos data = xs @ ys \<Longrightarrow> drop (pos + length xs) data = ys"
  by (metis add.commute append_eq_conv_conj drop_drop)

lemma skip_encoded_step:
  "length data < 2 ^ 62 \<Longrightarrow>
    (\<forall>pos v rest r. drop pos data = bencode v @ rest \<longrightarrow> skipValue n data pos = Some r \<longrightarrow> r = Ok (pos + length (bencode v))) \<and>
    (\<forall>pos vs rest r. drop pos data = concat (map bencode vs) @ CHR ''e'' # rest \<longrightarrow> skip_items n data pos = Some r \<longrightarrow>
       r = Ok (pos + length (concat (map bencode vs)) + 1))"
proof (induction n)
  case (Suc n)
  have V: "r = Ok (pos + length (bencode v))" if "drop pos data = bencode v @ rest" "skipValue n data pos = Some r" for pos v rest r
    using Suc that by blast
  have I: "r = Ok (pos + length (concat (map bencode vs)) + 1)"
    if "drop pos data = concat (map bencode vs) @ CHR ''e'' # rest" "skip_items n data pos = Some r" for pos vs rest r
    using Suc that by blast
  have str: "data ! pos \<notin> set ''eild''" "pos < length data" if "drop pos data = bstr s @ rest" for pos s rest
  proof -
    obtain c cs where c: "bstr s = c # cs" by (cases "bstr s") (simp_all add: bstr_def)
    then have "is_digit c" by (rule bstr_hd)
    then show "data ! pos \<notin> set ''eild''" "pos < length data"
      using that nth_drop [of pos data c "cs @ rest"] c digit_not [of c] by auto
  qed
  have "r = Ok (pos + length (bencode v))" if v: "drop pos data = bencode v @ rest" "skipValue (Suc n) data pos = Some r" for pos v rest r
  proof (cases v)
    case (BInt z)
    then show ?thesis using v nth_drop [of pos data "CHR ''i''"] skip_encoded_int [of pos data z rest] by simp
  next
    case (BStr s)
    then show ?thesis using v str [of pos s rest] read_encoded_string [of pos data s rest] Suc.prems by simp
  next
    case (BList vs)
    have d: "drop pos data = CHR ''l'' # concat (map bencode vs) @ CHR ''e'' # rest" using v(1) BList by simp
    have "drop (pos + 1) data = concat (map bencode vs) @ CHR ''e'' # rest"
      using drop_more [of pos data "''l''"] d by simp
    then show ?thesis using v(2) nth_drop [OF d] I [of "pos + 1" vs rest r] BList by simp
  next
    case (BDict kvs)
    have d: "drop pos data = CHR ''d'' # concat (map bencode (flat kvs)) @ CHR ''e'' # rest"
      using v(1) BDict bencode_flat by simp
    have "drop (pos + 1) data = concat (map bencode (flat kvs)) @ CHR ''e'' # rest"
      using drop_more [of pos data "''d''"] d by simp
    then show ?thesis using v(2) nth_drop [OF d] I [of "pos + 1" "flat kvs" rest r] BDict bencode_flat by simp
  qed
  moreover have "r = Ok (pos + length (concat (map bencode vs)) + 1)"
    if it: "drop pos data = concat (map bencode vs) @ CHR ''e'' # rest" "skip_items (Suc n) data pos = Some r" for pos vs rest r
  proof (cases vs)
    case Nil
    then show ?thesis using it nth_drop [of pos data "CHR ''e''" rest] by simp
  next
    case (Cons v ws)
    let ?p = "pos + length (bencode v)"
    have d: "drop pos data = bencode v @ concat (map bencode ws) @ CHR ''e'' # rest" using it(1) Cons by simp
    have d': "drop ?p data = concat (map bencode ws) @ CHR ''e'' # rest" by (rule drop_more [OF d])
    have "skip_items n data ?p = Some r"
    proof (cases v)
      case (BInt z)
      then show ?thesis using it(2) d nth_drop [of pos data "CHR ''i''"] skip_encoded_int [of pos data z] by simp
    next
      case (BStr s)
      then show ?thesis using it(2) d str [of pos s] read_encoded_string [of pos data s] Suc.prems by simp
    next
      case (BList us)
      then have c: "pos < length data \<and> data ! pos = CHR ''l''" using d nth_drop [of pos data "CHR ''l''"] by simp
      show ?thesis
        using it(2) c V [OF d] by (auto split: option.splits outcome.splits)
    next
      case (BDict kvs)
      then have c: "pos < length data \<and> data ! pos = CHR ''d''" using d nth_drop [of pos data "CHR ''d''"] by simp
      show ?thesis
        using it(2) c V [OF d] by (auto split: option.splits outcome.splits)
    qed
    from I [OF d' this] show ?thesis using Cons by simp
  qed
  ultimately show ?case by blast
qed simp

lemma skip_encoded:
  assumes "drop pos data = bencode v @ rest" "length data < 2 ^ 62"
  shows "skipValue (skip_fuel data) data pos = Some (Ok (pos + length (bencode v)))"
proof -
  obtain r where "skipValue (skip_fuel data) data pos = Some r" using skip_terminates by fastforce
  then show ?thesis using skip_encoded_step [OF assms(2)] assms(1) by blast
qed

section \<open>The info dictionary\<close>

lemma info_range_encoded:
  assumes "length data < 2 ^ 62" "map_of kvs ''info'' = Some v"
  shows "drop pos data = concat (map (\<lambda>(k, v). bstr k @ bencode v) kvs) @ rest \<Longrightarrow> length data - pos < n \<Longrightarrow>
    \<exists>a. info_range n data pos = Some (Ok (Some (a, a + length (bencode v)))) \<and>
        slice data a (a + length (bencode v)) = bencode v"
  using assms(2)
proof (induction kvs arbitrary: pos n)
  case (Cons kv kvs)
  obtain k u where kv: "kv = (k, u)" by fastforce
  obtain m where m: "n = Suc m" using Cons.prems(2) by (cases n) auto
  let ?p = "pos + length (bstr k)" and ?q = "pos + length (bstr k) + length (bencode u)"
  let ?tl = "concat (map (\<lambda>(k, v). bstr k @ bencode v) kvs) @ rest"
  have d: "drop pos data = bstr k @ bencode u @ ?tl" using Cons.prems(1) kv by simp
  have d1: "drop ?p data = bencode u @ ?tl" by (rule drop_more [OF d])
  have d2: "drop ?q data = ?tl" by (rule drop_more [OF d1])
  obtain c cs where c: "bstr k = c # cs" by (cases "bstr k") (simp_all add: bstr_def)
  have pos: "pos < length data" "data ! pos \<noteq> CHR ''e''"
    using nth_drop [of pos data c "cs @ bencode u @ ?tl"] d c digit_not [OF bstr_hd [OF c]] by auto
  have step: "info_range n data pos = (if k = ''info'' then Some (Ok (Some (?p, ?q))) else info_range m data ?q)"
    using m pos read_encoded_string [OF d assms(1)] skip_encoded [OF d1 assms(1)] by simp
  show ?case
  proof (cases "k = ''info''")
    case True
    then have "u = v" using Cons.prems(3) kv by simp
    then show ?thesis using step True d1 by (auto simp: slice_def)
  next
    case False
    have "length data - ?q < m" using Cons.prems(2) m pos c by simp
    from Cons.IH [OF d2 this] False Cons.prems(3) kv step show ?thesis by auto
  qed
qed simp

definition name_in :: "(string \<times> benc) list \<Rightarrow> string" where
  "name_in kvs = (case map_of kvs ''name'' of Some (BStr s) \<Rightarrow> s | _ \<Rightarrow> [])"

lemma info_name_encoded:
  assumes "length data < 2 ^ 62"
  shows "drop pos data = concat (map (\<lambda>(k, v). bstr k @ bencode v) kvs) @ ''e'' \<Longrightarrow> length data - pos < n \<Longrightarrow>
    info_name n data pos = Some (Ok (name_in kvs))"
proof (induction kvs arbitrary: pos n)
  case Nil
  obtain m where m: "n = Suc m" using Nil.prems(2) by (cases n) auto
  have d: "drop pos data = [CHR ''e'']" using Nil.prems(1) by simp
  then have "readBString data pos = Err ()" by (simp add: readBString_def)
  then show ?case using m nth_drop [OF d] by (simp add: name_in_def)
next
  case (Cons kv kvs)
  obtain k u where kv: "kv = (k, u)" by fastforce
  obtain m where m: "n = Suc m" using Cons.prems(2) by (cases n) auto
  let ?p = "pos + length (bstr k)" and ?q = "pos + length (bstr k) + length (bencode u)"
  let ?tl = "concat (map (\<lambda>(k, v). bstr k @ bencode v) kvs) @ ''e''"
  have d: "drop pos data = bstr k @ bencode u @ ?tl" using Cons.prems(1) kv by simp
  have d1: "drop ?p data = bencode u @ ?tl" by (rule drop_more [OF d])
  have d2: "drop ?q data = ?tl" by (rule drop_more [OF d1])
  obtain c cs where c: "bstr k = c # cs" by (cases "bstr k") (simp_all add: bstr_def)
  have pos: "pos < length data" using nth_drop [of pos data c "cs @ bencode u @ ?tl"] d c by auto
  note k = read_encoded_string [OF d assms]
  show ?case
  proof (cases "k = ''name''")
    case True
    have "(case readBString data ?p of Ok (v, _) \<Rightarrow> Some (Ok v) | Err _ \<Rightarrow> Some (Ok []) | Panic \<Rightarrow> Some Panic) =
        Some (Ok (case u of BStr s \<Rightarrow> s | _ \<Rightarrow> []))"
    proof (cases u)
      case (BStr s)
      then show ?thesis using read_encoded_string [of ?p data s ?tl] d1 assms by simp
    qed (use d1 in \<open>auto dest!: read_not_string\<close>)
    then show ?thesis using m pos k True kv by (simp add: name_in_def)
  next
    case False
    have e: "?q \<ge> length data \<or> data ! ?q = CHR ''e'' \<longleftrightarrow> kvs = []"
    proof (cases kvs)
      case Nil
      then show ?thesis using nth_drop [of ?q data "CHR ''e''" "[]"] d2 by simp
    next
      case (Cons kv' kvs')
      obtain c' cs' where c': "bstr (fst kv') = c' # cs'" by (cases "bstr (fst kv')") (simp_all add: bstr_def)
      then have "\<exists>xs. drop ?q data = c' # xs" using d2 Cons by (cases kv') simp
      then show ?thesis using nth_drop [of ?q data c'] digit_not [OF bstr_hd [OF c']] Cons by auto
    qed
    have "length data - ?q < m" using Cons.prems(2) m pos c by simp
    from Cons.IH [OF d2 this] show ?thesis
      using m pos k False kv skip_encoded [OF d1 assms] e by (cases "kvs = []") (simp_all add: name_in_def)
  qed
qed

lemma parse_encoded:
  assumes "map_of kvs ''info'' = Some (BDict info)" "length (bencode (BDict kvs) @ rest) < 2 ^ 62"
  shows "parseTorrent sha1 (bencode (BDict kvs) @ rest) =
    Some (Ok (hex_upper (sha1 (bencode (BDict info))), name_in info))"
proof -
  let ?data = "bencode (BDict kvs) @ rest" and ?info = "bencode (BDict info)"
  have "drop 1 ?data = concat (map (\<lambda>(k, v). bstr k @ bencode v) kvs) @ CHR ''e'' # rest" by simp
  from info_range_encoded [OF assms(2,1) this, of "length ?data + 1"]
  obtain a where a: "info_range (length ?data + 1) ?data 1 = Some (Ok (Some (a, a + length ?info)))"
    "slice ?data a (a + length ?info) = ?info" by auto
  have "length ?info < 2 ^ 62"
  proof -
    have "length ?info \<le> length ?data"
      using arg_cong [OF a(2), of length] by (simp add: slice_def)
    then show ?thesis using assms(2) by linarith
  qed
  moreover have "drop 1 ?info = concat (map (\<lambda>(k, v). bstr k @ bencode v) info) @ ''e''" by simp
  ultimately have n: "parseInfoName ?info = Some (Ok (name_in info))"
    using info_name_encoded [of ?info 1 info "length ?info + 1"] by (simp add: parseInfoName_def)
  show ?thesis
    unfolding parseTorrent_def a(1) using a(2) n by (simp add: Let_def sha1Hex_def)
qed

text \<open>C30. The reader on well-formed torrents. For the encoding of a dictionary whose first entry \<open>info\<close> is a
  dictionary, whatever surrounds it, the result is the SHA-1 sum of exactly the encoded bytes of that
  dictionary, in upper case hexadecimal, and its \<open>name\<close>, empty when that is missing or not a string.\<close>

theorem parseTorrent_encoded:
  assumes "map_of kvs ''info'' = Some (BDict info)" "length (bencode (BDict kvs) @ rest) < 2 ^ 62"
  shows "parseTorrent sha1 (bencode (BDict kvs) @ rest) =
    Some (Ok (hex_upper (sha1 (bencode (BDict info))), name_in info))"
  using assms by (rule parse_encoded)

definition sample_torrent :: "(string \<times> benc) list" where
  "sample_torrent = [(''announce'', BStr ''d4:infoe''), (''info'', BDict [(''length'', BInt 5), (''name'', BStr ''a.mkv'')])]"

theorem parseTorrent_encoded_witness:
  "parseTorrent (\<lambda>b. take 2 b) (bencode (BDict sample_torrent)) = Some (Ok (''6436'', ''a.mkv''))"
proof -
  have "map_of sample_torrent ''info'' = Some (BDict [(''length'', BInt 5), (''name'', BStr ''a.mkv'')])"
    by (simp add: sample_torrent_def)
  moreover have "length (bencode (BDict sample_torrent) @ []) < 2 ^ 62"
  proof -
    have "length (bencode (BDict sample_torrent) @ []) < 100" by code_simp
    then show ?thesis by simp
  qed
  ultimately have "parseTorrent (\<lambda>b. take 2 b) (bencode (BDict sample_torrent) @ []) =
    Some (Ok (hex_upper (take 2 (bencode (BDict [(''length'', BInt 5), (''name'', BStr ''a.mkv'')]))),
      name_in [(''length'', BInt 5), (''name'', BStr ''a.mkv'')]))"
    by (rule parseTorrent_encoded)
  moreover have "hex_upper (take 2 (bencode (BDict [(''length'', BInt 5), (''name'', BStr ''a.mkv'')]))) = ''6436''" by code_simp
  ultimately show ?thesis by (simp add: name_in_def)
qed

text \<open>A torrent of 22 bytes makes the reader panic: a string length close to the largest int64 wraps the end
  position around to a negative number, which passes the range check.\<close>

theorem torrent_length_panics: "parseTorrent sha1 ''d9223372036854775807:e'' = Some Panic"
proof -
  have "index_byte (CHR '':'') (drop 1 ''d9223372036854775807:e'') = Some 19" by code_simp
  moreover have "parse_int (take 19 (drop 1 ''d9223372036854775807:e'')) = Some 9223372036854775807"
    by (simp add: parse_int_def Let_def digit_val_def)
  moreover have "sint (word_of_int 9223372036854775828 :: i64) = -9223372036854775788" by simp
  ultimately have "readBString ''d9223372036854775807:e'' 1 = Panic" by (simp add: readBString_def Let_def)
  then have "info_range (length ''d9223372036854775807:e'' + 1) ''d9223372036854775807:e'' 1 = Some Panic" by simp
  then show ?thesis by (simp add: parseTorrent_def)
qed

text \<open>The reader always returns: every file, well-formed or not, is read to an answer (a result, an error or a
  panic) within the fuel of the model, so no input makes it loop.\<close>

theorem parseTorrent_returns: "\<exists>r. parseTorrent sha1 data = Some r"
  using parse_terminates [of sha1 data] by auto

end
