(* ===== verification/Drive_Upload.thy ===== *)
theory Drive_Upload
  imports Pickcode Go_Path "HOL-Library.Signed_Division"
begin

text \<open>
  \<open>internal/drive/upload.go\<close>: uploading a local file. First the server is asked whether it knows the file by
  its SHA-1 sum (and may ask for the sum of a range of it), then the contents go to the object store, in one piece
  or in parts. The object store's SDK, the two server calls, the local file and the clock are
  the record \<open>upenv\<close> on a world \<open>'w\<close>. Sizes are int64 values, written as \<^typ>\<open>int\<close> with \<open>wrap64\<close> where a sum could leave the range.
\<close>

section \<open>Types\<close>

record OssCallback =
  cbCallback :: string
  cbCallbackVar :: string

record UploadInitReq =
  urFileName :: string
  urFileSize :: int
  urCid :: string
  urFileSha1 :: string
  urPreSha1 :: string
  urSignKey :: string
  urSignVal :: string

record UploadInitInfo =
  uiStatus :: int
  uiFid :: string
  uiPickCode :: string
  uiSignKey :: string
  uiSignCheck :: string
  uiBucket :: string
  uiObject :: string
  uiCallback :: OssCallback

datatype upload_error = UpCancelled | StatFailed | ShaFailed | InitFailed | NoData | PickcodeBad pickcode_error
  | BadRange string | BadRangeStart | BadRangeEnd | TokenFailed | OpenFailed | SizeChanged | InitMultipart | PartFailed int
  | CompleteFailed | PutFailed | CallbackBad | CallbackMissing | NoMoreRetries

text \<open>
  A part to send: its number, its offset and its size. The callback's result is what the reply says of the
  new file (id and pickcode), or \<open>None\<close> when it cannot be read.
\<close>

type_synonym part = "int \<times> int \<times> int"
type_synonym callback_result = "(string \<times> string) option"

record 'w upenv =
  upStat :: "'w \<Rightarrow> string \<Rightarrow> int option"
  upOpen :: "'w \<Rightarrow> string \<Rightarrow> bool"
  upSha1 :: "'w \<Rightarrow> string \<Rightarrow> (string \<times> string) option"
  upPartial :: "'w \<Rightarrow> string \<Rightarrow> int \<Rightarrow> int \<Rightarrow> string"
  upInit :: "'w \<Rightarrow> (string \<times> string) list \<Rightarrow> UploadInitInfo option option \<times> 'w"
  upToken :: "'w \<Rightarrow> bool \<times> 'w"
  upPut :: "'w \<Rightarrow> int \<Rightarrow> OssCallback \<Rightarrow> callback_result option \<times> 'w"
  upBegin :: "'w \<Rightarrow> string option \<times> 'w"
  upPart :: "'w \<Rightarrow> string \<Rightarrow> part \<Rightarrow> string option \<times> 'w"
  upComplete :: "'w \<Rightarrow> string \<Rightarrow> (int \<times> string) list \<Rightarrow> OssCallback \<Rightarrow> callback_result option \<times> 'w"
  upSleep :: "'w \<Rightarrow> nat \<Rightarrow> bool \<times> 'w"
  upCancelled :: "'w \<Rightarrow> bool"

section \<open>Parts\<close>

definition ossMultipartThreshold :: int where "ossMultipartThreshold = 20 * 1024 * 1024"

definition calcPartSize :: "int \<Rightarrow> int" where
  "calcPartSize fileSize =
     (let mb = 1024 * 1024; gb = 1024 * 1024 * 1024; tb = 1024 * 1024 * 1024 * 1024 in
      if fileSize > 1 * tb then 5 * gb
      else if fileSize > 768 * gb then 109951163
      else if fileSize > 512 * gb then 82463373
      else if fileSize > 384 * gb then 54975582
      else if fileSize > 256 * gb then 41231687
      else if fileSize > 128 * gb then 27487791
      else 20 * mb)"

definition total_parts :: "int \<Rightarrow> int" where
  "total_parts fileSize =
     (let partSize = calcPartSize fileSize in wrap64 (wrap64 (fileSize + partSize) - 1) sdiv partSize)"

text \<open>Sending one part: up to three attempts, waiting one and two seconds between them.\<close>

fun send_part :: "'w upenv \<Rightarrow> string \<Rightarrow> part \<Rightarrow> nat \<Rightarrow> nat \<Rightarrow> 'w \<Rightarrow> (upload_error + string) \<times> 'w" where
  "send_part ev uploadID p attempt 0 w =
     (case upPart ev w uploadID p of
        (Some etag, w1) \<Rightarrow> (Inr etag, w1)
      | (None, w1) \<Rightarrow> (Inl (PartFailed (fst p)), w1))"
| "send_part ev uploadID p attempt (Suc left) w =
     (case upPart ev w uploadID p of
        (Some etag, w1) \<Rightarrow> (Inr etag, w1)
      | (None, w1) \<Rightarrow>
          (case upSleep ev w1 (2 ^ (attempt - 1)) of
             (False, w2) \<Rightarrow> (Inl UpCancelled, w2)
           | (True, w2) \<Rightarrow> send_part ev uploadID p (attempt + 1) left w2))"

text \<open>The loop over the parts: \<open>left\<close> are to come, \<open>i\<close> is the index, \<open>parts\<close> what was sent.\<close>

fun send_parts :: "'w upenv \<Rightarrow> string \<Rightarrow> int \<Rightarrow> int \<Rightarrow> nat \<Rightarrow> int \<Rightarrow> int \<Rightarrow> (part \<times> string) list \<Rightarrow> 'w \<Rightarrow>
    (upload_error + (part \<times> string) list) \<times> 'w" where
  "send_parts ev uploadID fileSize partSize 0 i offset parts w = (Inr parts, w)"
| "send_parts ev uploadID fileSize partSize (Suc left) i offset parts w =
     (if upCancelled ev w then (Inl UpCancelled, w)
      else
        let curSize = min partSize (fileSize - offset); p = (i + 1, offset, curSize) in
        case send_part ev uploadID p 1 2 w of
          (Inl e, w1) \<Rightarrow> (Inl e, w1)
        | (Inr etag, w1) \<Rightarrow>
            send_parts ev uploadID fileSize partSize left (i + 1) (offset + curSize) (parts @ [(p, etag)]) w1)"

definition multipartUpload :: "'w upenv \<Rightarrow> OssCallback \<Rightarrow> int \<Rightarrow> 'w \<Rightarrow> (upload_error + callback_result) \<times> 'w" where
  "multipartUpload ev cb fileSize w =
     (case upBegin ev w of
        (None, w1) \<Rightarrow> (Inl InitMultipart, w1)
      | (Some uploadID, w1) \<Rightarrow>
          (case send_parts ev uploadID fileSize (calcPartSize fileSize) (nat (total_parts fileSize)) 0 0 [] w1 of
             (Inl e, w2) \<Rightarrow> (Inl e, w2)
           | (Inr parts, w2) \<Rightarrow>
               (case upComplete ev w2 uploadID (map (\<lambda>(p, etag). (fst p, etag)) parts) cb of
                  (None, w3) \<Rightarrow> (Inl CompleteFailed, w3)
                | (Some r, w3) \<Rightarrow> (Inr r, w3))))"

definition singleUpload :: "'w upenv \<Rightarrow> OssCallback \<Rightarrow> int \<Rightarrow> 'w \<Rightarrow> (upload_error + callback_result) \<times> 'w" where
  "singleUpload ev cb fileSize w =
     (case upPut ev w fileSize cb of (None, w1) \<Rightarrow> (Inl PutFailed, w1) | (Some r, w1) \<Rightarrow> (Inr r, w1))"

definition ossUpload :: "'w upenv \<Rightarrow> OssCallback \<Rightarrow> int \<Rightarrow> 'w \<Rightarrow> (upload_error + callback_result) \<times> 'w" where
  "ossUpload ev cb fileSize w =
     (if upCancelled ev w then (Inl UpCancelled, w)
      else if fileSize > ossMultipartThreshold then multipartUpload ev cb fileSize w
      else singleUpload ev cb fileSize w)"

section \<open>The upload\<close>

text \<open>The form of the initialisation; the signature is added only when both halves are there.\<close>

definition init_form :: "UploadInitReq \<Rightarrow> (string \<times> string) list" where
  "init_form r =
     [(''file_name'', urFileName r), (''file_size'', format_int (urFileSize r)), (''target'', ''U_1_'' @ urCid r),
      (''fileid'', urFileSha1 r), (''preid'', urPreSha1 r), (''topupload'', ''0'')] @
     (if urSignKey r \<noteq> [] \<and> urSignVal r \<noteq> []
      then [(''sign_key'', urSignKey r), (''sign_val'', urSignVal r)] else [])"

definition initUpload :: "'w upenv \<Rightarrow> UploadInitReq \<Rightarrow> 'w \<Rightarrow> (upload_error + UploadInitInfo) \<times> 'w" where
  "initUpload ev req w =
     (case upInit ev w (init_form req) of
        (None, w1) \<Rightarrow> (Inl InitFailed, w1)
      | (Some None, w1) \<Rightarrow> (Inl NoData, w1)
      | (Some (Some info), w1) \<Rightarrow> (Inr info, w1))"

definition parseRange :: "string \<Rightarrow> upload_error + int \<times> int" where
  "parseRange s =
     (case split_on (CHR ''-'') s of
        [a, b] \<Rightarrow>
          (case parse_int a of
             None \<Rightarrow> Inl BadRangeStart
           | Some st \<Rightarrow> (case parse_int b of None \<Rightarrow> Inl BadRangeEnd | Some en \<Rightarrow> Inr (st, en)))
      | _ \<Rightarrow> Inl (BadRange s))"

text \<open>\<open>strings.ReplaceAll\<close> of a non-empty pattern.\<close>

function replace_all :: "string \<Rightarrow> string \<Rightarrow> string \<Rightarrow> string" where
  "replace_all old new s =
     (if old = [] then s
      else case s of
        [] \<Rightarrow> []
      | c # cs \<Rightarrow> if has_prefix s old then new @ replace_all old new (drop (length old) s) else c # replace_all old new cs)"
  by pat_completeness auto
termination by (relation "measure (\<lambda>(old, new, s). length s)") auto

declare replace_all.simps [simp del]

definition fill_sha1 :: "string \<Rightarrow> OssCallback \<Rightarrow> OssCallback" where
  "fill_sha1 sha cb =
     \<lparr>cbCallback = replace_all ''${sha1}'' sha (cbCallback cb), cbCallbackVar = replace_all ''${sha1}'' sha (cbCallbackVar cb)\<rparr>"

definition uploadByOSS :: "'w upenv \<Rightarrow> string \<Rightarrow> int \<Rightarrow> UploadInitInfo \<Rightarrow> string \<Rightarrow> 'w \<Rightarrow>
    (upload_error + string \<times> string) \<times> 'w" where
  "uploadByOSS ev path fileSize init fileSha1 w =
     (case upToken ev w of
        (False, w1) \<Rightarrow> (Inl TokenFailed, w1)
      | (True, w1) \<Rightarrow>
          if \<not> upOpen ev w1 path then (Inl OpenFailed, w1)
          else if (case upStat ev w1 path of None \<Rightarrow> False | Some n \<Rightarrow> n \<noteq> fileSize) then (Inl SizeChanged, w1)
          else
            (case ossUpload ev (fill_sha1 fileSha1 (uiCallback init)) fileSize w1 of
               (Inl e, w2) \<Rightarrow> (Inl e, w2)
             | (Inr None, w2) \<Rightarrow> (Inl CallbackBad, w2)
             | (Inr (Some (fid, pc)), w2) \<Rightarrow>
                 (if fid = [] \<or> pc = [] then Inl CallbackMissing else Inr (fid, pc), w2)))"

definition maxUploadRetries :: nat where "maxUploadRetries = 3"

text \<open>The loop of \<open>UploadHelper\<close> over the answers of the server: \<open>left\<close> initialisations are allowed.\<close>

fun upload_loop :: "'w upenv \<Rightarrow> string \<Rightarrow> UploadInitReq \<Rightarrow> nat \<Rightarrow> 'w \<Rightarrow> (upload_error + string \<times> string) \<times> 'w" where
  "upload_loop ev path req 0 w = (Inl NoMoreRetries, w)"
| "upload_loop ev path req (Suc left) w =
     (if upCancelled ev w then (Inl UpCancelled, w)
      else
        (case initUpload ev req w of
           (Inl e, w1) \<Rightarrow> (Inl e, w1)
         | (Inr init, w1) \<Rightarrow>
             if uiStatus init = 2 then
               (if uiFid init \<noteq> [] then (Inr (uiFid init, uiPickCode init), w1)
                else (case PickcodeToID (uiPickCode init) of
                        Inl e \<Rightarrow> (Inl (PickcodeBad e), w1)
                      | Inr fid \<Rightarrow> (Inr (fid, uiPickCode init), w1)))
             else if uiStatus init \<in> {6, 7, 8} then
               (case parseRange (uiSignCheck init) of
                  Inl e \<Rightarrow> (Inl e, w1)
                | Inr (st, en) \<Rightarrow>
                    upload_loop ev path
                      (req\<lparr>urSignKey := uiSignKey init, urSignVal := upPartial ev w1 path st en\<rparr>) left w1)
             else uploadByOSS ev path (urFileSize req) init (urFileSha1 req) w1))"

definition UploadHelper :: "'w upenv \<Rightarrow> string \<Rightarrow> string \<Rightarrow> string \<Rightarrow> string \<Rightarrow> 'w \<Rightarrow>
    (upload_error + string \<times> string) \<times> 'w" where
  "UploadHelper ev path cid signKey signVal w =
     (if upCancelled ev w then (Inl UpCancelled, w)
      else
        (case upStat ev w path of
           None \<Rightarrow> (Inl StatFailed, w)
         | Some fileSize \<Rightarrow>
             (case upSha1 ev w path of
                None \<Rightarrow> (Inl ShaFailed, w)
              | Some (fileSha1, preSha1) \<Rightarrow>
                  upload_loop ev path
                    \<lparr>urFileName = path_base path, urFileSize = fileSize, urCid = cid, urFileSha1 = fileSha1, urPreSha1 = preSha1,
                     urSignKey = signKey, urSignVal = signVal\<rparr> maxUploadRetries w)))"

end
