(* ===== verification/Upload_Props.thy ===== *)
theory Upload_Props
  imports Drive_Upload
begin

text \<open>
  The parts of an upload make up the file, and what a successful upload returns.
\<close>

section \<open>The parts\<close>

lemma calcPartSize_range: "20971520 \<le> calcPartSize n \<and> calcPartSize n \<le> 5368709120"
  by (simp add: calcPartSize_def Let_def)

lemma calcPartSize_enough:
  "0 < n \<Longrightarrow> n \<le> 53687091200000 \<Longrightarrow> n \<le> 10000 * calcPartSize n"
  by (auto simp: calcPartSize_def Let_def)

lemma total_parts_eq:
  assumes "0 < n" "n \<le> 53687091200000"
  shows "total_parts n = (n + calcPartSize n - 1) div calcPartSize n"
proof -
  note p = calcPartSize_range [of n]
  have "wrap64 (n + calcPartSize n) = n + calcPartSize n" using assms p by (intro wrap64_small) auto
  moreover have "wrap64 (n + calcPartSize n - 1) = n + calcPartSize n - 1" using assms p by (intro wrap64_small) auto
  ultimately show ?thesis using assms p
    by (simp add: total_parts_def Let_def signed_divide_int_def)
qed

lemma total_parts_bounds:
  assumes "0 < n" "n \<le> 53687091200000"
  shows "0 < total_parts n" "total_parts n \<le> 10000" "(total_parts n - 1) * calcPartSize n < n" "n \<le> total_parts n * calcPartSize n"
proof -
  let ?p = "calcPartSize n" and ?q = "(n + calcPartSize n - 1) div calcPartSize n"
  note p = calcPartSize_range [of n]
  have m: "n + ?p - 1 = ?q * ?p + (n + ?p - 1) mod ?p" by (rule div_mult_mod_eq [symmetric])
  have r: "0 \<le> (n + ?p - 1) mod ?p" "(n + ?p - 1) mod ?p < ?p" using p by simp_all
  show b: "(total_parts n - 1) * ?p < n" "n \<le> total_parts n * ?p"
    unfolding total_parts_eq [OF assms] left_diff_distrib using m r by linarith+
  show "0 < total_parts n" using b(2) assms p by (smt (verit) mult_nonpos_nonneg)
  have "(total_parts n - 1) * ?p < 10000 * ?p" using b(1) calcPartSize_enough [OF assms] by linarith
  then show "total_parts n \<le> 10000" using p by (simp add: mult_less_cancel_right)
qed

definition part_data :: "'a list \<Rightarrow> part \<times> string \<Rightarrow> 'a list" where
  "part_data data s = (case s of ((k, off, sz), etag) \<Rightarrow> take (nat sz) (drop (nat off) data))"

lemma send_parts_slices:
  assumes "int (length data) = n" "0 < ps"
  shows "send_parts ev uploadID n ps left i off parts w = (Inr out, w') \<Longrightarrow> 0 \<le> off \<Longrightarrow> 0 < left \<Longrightarrow>
    int (left - 1) * ps < n - off \<Longrightarrow> n - off \<le> int left * ps \<Longrightarrow>
    \<exists>sent. out = parts @ sent \<and> length sent = left \<and> concat (map (part_data data) sent) = drop (nat off) data \<and>
      map (\<lambda>s. fst (fst s)) sent = map (\<lambda>k. i + 1 + int k) [0..<left] \<and> (\<forall>s \<in> set sent. snd (snd (fst s)) \<le> ps)"
proof (induction left arbitrary: i off parts w)
  case (Suc m)
  let ?cur = "min ps (n - off)" and ?p = "(i + 1, off, min ps (n - off))"
  obtain etag w1 where e: "send_part ev uploadID ?p 1 2 w = (Inr etag, w1)"
    "send_parts ev uploadID n ps m (i + 1) (off + ?cur) (parts @ [(?p, etag)]) w1 = (Inr out, w')"
    using Suc.prems(1) by (auto simp: Let_def split: if_splits prod.splits sum.splits)
  show ?case
  proof (cases m)
    case 0
    have "n - off \<le> ps" "0 < n - off" using Suc.prems 0 by simp_all
    then have "part_data data (?p, etag) = drop (nat off) data"
      using assms(1) Suc.prems(2) by (simp add: part_data_def min_def nat_diff_distrib)
    then show ?thesis using e(2) 0 by (intro exI [of _ "[(?p, etag)]"]) auto
  next
    case (Suc k)
    have big: "ps \<le> int m * ps" using Suc assms(2) by (simp add: mult_le_cancel_right1)
    then have cur: "?cur = ps" using Suc.prems(4) by simp
    have "int (m - 1) * ps < n - (off + ps)" "n - (off + ps) \<le> int m * ps"
      using Suc.prems(4,5) Suc assms(2) by (simp_all add: algebra_simps of_nat_diff)
    then obtain sent where s: "out = (parts @ [(?p, etag)]) @ sent" "length sent = m"
      "concat (map (part_data data) sent) = drop (nat (off + ps)) data"
      "map (\<lambda>s. fst (fst s)) sent = map (\<lambda>k. i + 1 + 1 + int k) [0..<m]" "\<forall>s \<in> set sent. snd (snd (fst s)) \<le> ps"
      using Suc.IH [OF e(2)] cur Suc.prems(2) assms(2) Suc by auto
    have "part_data data (?p, etag) @ drop (nat (off + ps)) data = drop (nat off) data"
    proof -
      have "nat (off + ps) = nat ps + nat off" using Suc.prems(2) assms(2) by simp
      then have "drop (nat (off + ps)) data = drop (nat ps) (drop (nat off) data)" by simp
      then show ?thesis using cur by (simp only: part_data_def prod.case append_take_drop_id)
    qed
    moreover have "map (\<lambda>k. i + 1 + int k) [0..<Suc m] = (i + 1) # map (\<lambda>k. i + 1 + 1 + int k) [0..<m]"
      by (simp add: upt_conv_Cons map_Suc_upt [symmetric] comp_def add.assoc del: upt_Suc map_Suc_upt)
    ultimately show ?thesis using s cur by (intro exI [of _ "(?p, etag) # sent"]) simp
  qed
qed simp

text \<open>C28. An upload in parts sends the file. For a file of up to 50000 GB, when all parts are sent their contents,
  put together in the order sent, are the file; they are numbered from 1 without gaps, as the object store
  demands, are at most 10000, its limit, and none is larger than the chosen size.\<close>

theorem parts_make_file:
  assumes "int (length data) = n" "0 < n" "n \<le> 53687091200000"
    and "send_parts ev uploadID n (calcPartSize n) (nat (total_parts n)) 0 0 [] w = (Inr sent, w')"
  shows "concat (map (part_data data) sent) = data \<and> map (\<lambda>s. fst (fst s)) sent = map int [1..<Suc (length sent)] \<and>
    length sent \<le> 10000 \<and> (\<forall>s \<in> set sent. snd (snd (fst s)) \<le> calcPartSize n)"
proof -
  note b = total_parts_bounds [OF assms(2,3)]
  have "0 < nat (total_parts n)" "int (nat (total_parts n) - 1) * calcPartSize n < n - 0"
    "n - 0 \<le> int (nat (total_parts n)) * calcPartSize n" using b by (simp_all add: of_nat_diff)
  from send_parts_slices [OF assms(1) _ assms(4) _ this] calcPartSize_range [of n]
  have s: "length sent = nat (total_parts n)" "concat (map (part_data data) sent) = data"
    "map (\<lambda>s. fst (fst s)) sent = map (\<lambda>k. 1 + int k) [0..<nat (total_parts n)]" "\<forall>s \<in> set sent. snd (snd (fst s)) \<le> calcPartSize n"
    by auto
  moreover have "map (\<lambda>k. 1 + int k) [0..<nat (total_parts n)] = map int [1..<Suc (nat (total_parts n))]"
    by (simp add: map_Suc_upt [symmetric] del: upt_Suc map_Suc_upt)
  ultimately show ?thesis using b(2) by simp
qed

definition steady_upload :: "unit upenv" where
  "steady_upload =
     \<lparr>upStat = (\<lambda>w p. Some 0), upOpen = (\<lambda>w p. True), upSha1 = (\<lambda>w p. Some ([], [])), upPartial = (\<lambda>w p a b. []),
      upInit = (\<lambda>w f. (Some (Some \<lparr>uiStatus = 2, uiFid = ''7'', uiPickCode = [], uiSignKey = [], uiSignCheck = [],
         uiBucket = [], uiObject = [], uiCallback = \<lparr>cbCallback = [], cbCallbackVar = []\<rparr>\<rparr>), w)),
      upToken = (\<lambda>w. (True, w)), upPut = (\<lambda>w n cb. (Some (Some (''7'', ''p'')), w)), upBegin = (\<lambda>w. (Some ''u'', w)),
      upPart = (\<lambda>w u p. (Some ''t'', w)), upComplete = (\<lambda>w u ps cb. (Some (Some (''7'', ''p'')), w)),
      upSleep = (\<lambda>w n. (True, w)), upCancelled = (\<lambda>w. False)\<rparr>"

theorem parts_make_file_witness:
  "\<exists>sent. map fst sent = [(1, 0, 20971520), (2, 20971520, 1)] \<and>
    concat (map (part_data (replicate 20971521 True)) sent) = replicate 20971521 True"
proof -
  let ?data = "replicate 20971521 True" and ?n = "20971521 :: int"
  let ?sent = "[((1, 0, 20971520), ''t''), ((2, 20971520, 1), ''t'')]"
  have p: "calcPartSize ?n = 20971520" by (simp add: calcPartSize_def Let_def)
  have "total_parts ?n = 2" using total_parts_eq [of ?n] p by simp
  then have "send_parts steady_upload ''u'' ?n (calcPartSize ?n) (nat (total_parts ?n)) 0 0 [] () = (Inr ?sent, ())"
    by (simp add: p numeral_2_eq_2 steady_upload_def Let_def)
  from parts_make_file [OF _ _ _ this, of ?data] show ?thesis
    by (intro exI [of _ ?sent]) simp
qed

section \<open>The result\<close>

lemma PickcodeToID_nonempty: "PickcodeToID pc = Inr fid \<Longrightarrow> fid \<noteq> []"
  by (auto simp: PickcodeToID_def Let_def split: if_splits option.splits)

text \<open>A successful upload has a file id, but not always a pickcode: a file the server knew already is
  accepted on its id alone.\<close>

lemma upload_has_id:
  "upload_loop ev path req left w = (Inr (fid, pc), w') \<Longrightarrow> fid \<noteq> []"
proof (induction left arbitrary: req w)
  case (Suc left)
  show ?case
  proof (cases "initUpload ev req w")
    case (Pair r w1)
    then obtain init where i: "r = Inr init" "\<not> upCancelled ev w"
      using Suc.prems by (cases r) (auto split: if_splits)
    consider "uiStatus init = 2" | "uiStatus init \<in> {6, 7, 8}" | "uiStatus init \<notin> {2, 6, 7, 8}" by blast
    then show ?thesis
    proof cases
      case 1
      then show ?thesis using Suc.prems Pair i PickcodeToID_nonempty by (auto split: if_splits sum.splits)
    next
      case 2
      then show ?thesis using Suc.prems Suc.IH Pair i by (auto split: sum.splits)
    next
      case 3
      then have "uploadByOSS ev path (urFileSize req) init (urFileSha1 req) w1 = (Inr (fid, pc), w')"
        using Suc.prems Pair i by simp
      then show ?thesis by (auto simp: uploadByOSS_def split: prod.splits bool.splits if_splits sum.splits option.splits)
    qed
  qed
qed simp

lemma instant_upload_without_pickcode:
  "UploadHelper steady_upload ''/m/a.mkv'' ''10'' [] [] () = (Inr (''7'', []), ())"
  by (simp add: UploadHelper_def steady_upload_def initUpload_def maxUploadRetries_def numeral_3_eq_3)

end
