(* ===== verification/Local_Cache.thy ===== *)
theory Local_Cache
  imports Go_Path "HOL-Library.AList" "HOL-Library.Signed_Division"
begin

text \<open>
  \<open>internal/cache/cache.go\<close>: uploaded videos kept for a while under \<open><dir>/<pickcode>/<name>\<close>. The
  disk is a record: for each cache directory its entries, and the other files by path. Times are
  nanoseconds; the retention is an int64 duration. The background loop calls \<open>sweep\<close> at
  every tick.
\<close>

section \<open>The disk\<close>

text \<open>
  An entry of a cache directory is a stray file or a directory with the time of its last change and its own
  entries, as \<open>os.ReadDir\<close> lists them: sorted by name, \<open>None\<close> for a subdirectory.
\<close>

record cdir =
  cdMtime :: int
  cdEntries :: "(string \<times> string option) list"

datatype centry = CFile | CDir cdir

text \<open>
  \<open>dkSameDevice\<close>: a rename out of the library works; \<open>dkCreateOk\<close>, \<open>dkCopyOk\<close>, \<open>dkRemoveOk\<close>: whether creating
  a file in the cache, copying into it and removing files succeed; \<open>dkCopied\<close>: the bytes that a failing copy has written.
\<close>

record disk =
  dkRoots :: "(string \<times> (string \<times> centry) list) list"
  dkFiles :: "(string \<times> string) list"
  dkSameDevice :: bool
  dkCreateOk :: bool
  dkCopyOk :: bool
  dkCopied :: nat
  dkRemoveOk :: bool

record cache =
  caDir :: string
  caRetention :: int

definition New_cache :: "string \<Rightarrow> int \<Rightarrow> cache" where
  "New_cache dir retention = \<lparr>caDir = dir, caRetention = retention\<rparr>"

definition SetRetention :: "int \<Rightarrow> cache \<Rightarrow> cache" where
  "SetRetention d c = c\<lparr>caRetention := d\<rparr>"

text \<open>\<open>SetDir\<close>: the directory is created first; an empty path cannot be.\<close>

definition make_root :: "string \<Rightarrow> disk \<Rightarrow> disk" where
  "make_root dir k = (if map_of (dkRoots k) dir = None then k\<lparr>dkRoots := (dir, []) # dkRoots k\<rparr> else k)"

definition SetDir :: "string \<Rightarrow> cache \<Rightarrow> disk \<Rightarrow> bool \<times> cache \<times> disk" where
  "SetDir dir c k = (if dir = [] then (False, c, k) else (True, c\<lparr>caDir := dir\<rparr>, make_root dir k))"

section \<open>Looking up\<close>

definition validPickCode :: "string \<Rightarrow> bool" where
  "validPickCode pc \<longleftrightarrow> pc \<noteq> [] \<and> pc \<noteq> ''.'' \<and> pc \<noteq> ''..'' \<and> CHR ''/'' \<notin> set pc \<and> CHR 0x5C \<notin> set pc"

definition root_entries :: "disk \<Rightarrow> string \<Rightarrow> (string \<times> centry) list" where
  "root_entries k dir = (case map_of (dkRoots k) dir of None \<Rightarrow> [] | Some es \<Rightarrow> es)"

definition read_dir :: "disk \<Rightarrow> string \<Rightarrow> string \<Rightarrow> cdir option" where
  "read_dir k dir pc = (case map_of (root_entries k dir) pc of Some (CDir d) \<Rightarrow> Some d | _ \<Rightarrow> None)"

definition firstFileEntry :: "cdir option \<Rightarrow> (string \<times> int) option" where
  "firstFileEntry d =
     (case d of
        None \<Rightarrow> None
      | Some cd \<Rightarrow>
          (case List.map_filter (\<lambda>(n, e). map_option (\<lambda>content. (n, int (length content))) e) (cdEntries cd) of
             [] \<Rightarrow> None
           | x # _ \<Rightarrow> Some x))"

definition LocalPath :: "cache \<Rightarrow> disk \<Rightarrow> string \<Rightarrow> string option" where
  "LocalPath c k pc =
     (if \<not> validPickCode pc then None
      else map_option (\<lambda>(name, _). path_join (path_join (caDir c) pc) name) (firstFileEntry (read_dir k (caDir c) pc)))"

record Item =
  imPickCode :: string
  imName :: string
  imSize :: int
  imCachedAt :: int
  imExpiresAt :: int

definition List_items :: "cache \<Rightarrow> disk \<Rightarrow> Item list" where
  "List_items c k =
     (if caDir c = [] then []
      else sort_key imName (List.map_filter (\<lambda>(pc, e).
        case e of
          CFile \<Rightarrow> None
        | CDir d \<Rightarrow> map_option (\<lambda>(name, sz).
            \<lparr>imPickCode = pc, imName = name, imSize = sz, imCachedAt = cdMtime d, imExpiresAt = cdMtime d + caRetention c\<rparr>)
            (firstFileEntry (Some d))) (root_entries k (caDir c))))"

section \<open>Changing\<close>

definition set_root :: "string \<Rightarrow> (string \<times> centry) list \<Rightarrow> disk \<Rightarrow> disk" where
  "set_root dir es k = k\<lparr>dkRoots := AList.update dir es (dkRoots k)\<rparr>"

text \<open>Insertion into a sorted list of entries, replacing an entry of the same name.\<close>

fun put_entry :: "string \<Rightarrow> 'a \<Rightarrow> (string \<times> 'a) list \<Rightarrow> (string \<times> 'a) list" where
  "put_entry n x [] = [(n, x)]"
| "put_entry n x ((m, y) # es) =
     (if n < m then (n, x) # (m, y) # es else if n = m then (n, x) # es else (m, y) # put_entry n x es)"

definition put_file :: "int \<Rightarrow> string \<Rightarrow> string \<Rightarrow> string \<Rightarrow> string \<Rightarrow> disk \<Rightarrow> disk" where
  "put_file now dir pc name content k =
     (let es = root_entries k dir;
          d = (case map_of es pc of Some (CDir d) \<Rightarrow> d | _ \<Rightarrow> \<lparr>cdMtime = now, cdEntries = []\<rparr>)
      in set_root dir (put_entry pc (CDir (d\<lparr>cdMtime := now, cdEntries := put_entry name (Some content) (cdEntries d)\<rparr>)) es) k)"

text \<open>Making the directory of a pickcode fails on a stray file of that name.\<close>

definition mkdir_pickcode :: "int \<Rightarrow> string \<Rightarrow> string \<Rightarrow> disk \<Rightarrow> disk option" where
  "mkdir_pickcode now dir pc k =
     (case map_of (root_entries k dir) pc of
        Some CFile \<Rightarrow> None
      | Some (CDir _) \<Rightarrow> Some k
      | None \<Rightarrow> Some (set_root dir (put_entry pc (CDir \<lparr>cdMtime = now, cdEntries = []\<rparr>) (root_entries k dir)) k))"

datatype cache_error = InvalidPickCode | MkdirFailed | CopyFailed

definition is_subdir :: "disk \<Rightarrow> string \<Rightarrow> string \<Rightarrow> string \<Rightarrow> bool" where
  "is_subdir k dir pc name \<longleftrightarrow>
     (case read_dir k dir pc of None \<Rightarrow> False | Some d \<Rightarrow> map_of (cdEntries d) name = Some None)"

text \<open>
  \<open>copyFile\<close>: a target that cannot be created is left as it is. A copy that fails half way is removed again, and with it
  what the target held before; if that fails too, the part stays. Writing into a file that is already there does not
  change the time of its directory.
\<close>

definition create_time :: "int \<Rightarrow> string \<Rightarrow> string \<Rightarrow> string \<Rightarrow> disk \<Rightarrow> int" where
  "create_time now dir pc name k =
     (case read_dir k dir pc of
        None \<Rightarrow> now
      | Some d \<Rightarrow> if map_of (cdEntries d) name = None then now else cdMtime d)"

definition drop_file :: "int \<Rightarrow> string \<Rightarrow> string \<Rightarrow> string \<Rightarrow> disk \<Rightarrow> disk" where
  "drop_file now dir pc name k =
     (case read_dir k dir pc of
        None \<Rightarrow> k
      | Some d \<Rightarrow> set_root dir (put_entry pc (CDir (d\<lparr>cdMtime := now, cdEntries := AList.delete name (cdEntries d)\<rparr>))
                     (root_entries k dir)) k)"

definition copyFile :: "int \<Rightarrow> string \<Rightarrow> string \<Rightarrow> string \<Rightarrow> string \<Rightarrow> disk \<Rightarrow> bool \<times> disk" where
  "copyFile now src dir pc name k =
     (case map_of (dkFiles k) src of
        None \<Rightarrow> (False, k)
      | Some content \<Rightarrow>
          if is_subdir k dir pc name then (False, k)
          else if \<not> dkCreateOk k then (False, k)
          else if dkCopyOk k then (True, put_file (create_time now dir pc name k) dir pc name content k)
          else (False, if dkRemoveOk k then drop_file now dir pc name k
                       else put_file (create_time now dir pc name k) dir pc name (take (dkCopied k) content) k))"

definition Move :: "int \<Rightarrow> string \<Rightarrow> string \<Rightarrow> cache \<Rightarrow> disk \<Rightarrow> (cache_error + string) \<times> disk" where
  "Move now srcPath pc c k =
     (if \<not> validPickCode pc then (Inl InvalidPickCode, k)
      else
        (case mkdir_pickcode now (caDir c) pc k of
           None \<Rightarrow> (Inl MkdirFailed, k)
         | Some k1 \<Rightarrow>
             let name = path_base srcPath; dst = path_join (path_join (caDir c) pc) name in
             (case map_of (dkFiles k1) srcPath of
                Some content \<Rightarrow>
                  if dkSameDevice k1 \<and> \<not> is_subdir k1 (caDir c) pc name then
                    (Inr dst, (put_file now (caDir c) pc name content k1)\<lparr>dkFiles := AList.delete srcPath (dkFiles k1)\<rparr>)
                  else
                    (case copyFile now srcPath (caDir c) pc name k1 of
                       (False, k2) \<Rightarrow> (Inl CopyFailed, k2)
                     | (True, k2) \<Rightarrow>
                         (Inr dst, if dkRemoveOk k2 then k2\<lparr>dkFiles := AList.delete srcPath (dkFiles k2)\<rparr> else k2))
              | None \<Rightarrow> (case copyFile now srcPath (caDir c) pc name k1 of (_, k2) \<Rightarrow> (Inl CopyFailed, k2)))))"

text \<open>\<open>Delete\<close>: the number of entries removed.\<close>

fun Delete :: "string list \<Rightarrow> cache \<Rightarrow> disk \<Rightarrow> nat \<times> disk" where
  "Delete [] c k = (0, k)"
| "Delete (pc # pcs) c k =
     (if \<not> validPickCode pc \<or> map_of (root_entries k (caDir c)) pc = None \<or> \<not> dkRemoveOk k then Delete pcs c k
      else (case Delete pcs c (set_root (caDir c) (AList.delete pc (root_entries k (caDir c))) k) of
              (n, k1) \<Rightarrow> (Suc n, k1)))"

text \<open>\<open>sweep\<close>: stray files go, and directories not changed since the cutoff.\<close>

definition kept_entry :: "int \<Rightarrow> string \<times> centry \<Rightarrow> bool" where
  "kept_entry cutoff e = (case snd e of CFile \<Rightarrow> False | CDir d \<Rightarrow> \<not> cdMtime d < cutoff)"

definition sweep :: "int \<Rightarrow> cache \<Rightarrow> disk \<Rightarrow> disk" where
  "sweep now c k =
     (if caDir c = [] \<or> map_of (dkRoots k) (caDir c) = None \<or> \<not> dkRemoveOk k then k
      else set_root (caDir c) (filter (kept_entry (now - caRetention c)) (root_entries k (caDir c))) k)"

text \<open>
  \<open>StartCleaner\<close>: a sweep when the program starts and one at each tick of the timer, until the program ends.
  Times are those of the sweeps.
\<close>

definition StartCleaner :: "int \<Rightarrow> int list \<Rightarrow> cache \<Rightarrow> disk \<Rightarrow> disk" where
  "StartCleaner start ticks c k = fold (\<lambda>now. sweep now c) ticks (sweep start c k)"

end
