(* ===== verification/Cache_Props.thy ===== *)
theory Cache_Props
  imports Local_Cache
begin

text \<open>
  The life of a cached video: moving it in makes it readable and loses nothing, and it stays until its
  retention has passed.
\<close>

section \<open>Sorted directories\<close>

definition dir_ok :: "(string \<times> 'a) list \<Rightarrow> bool" where
  "dir_ok es \<longleftrightarrow> sorted_wrt (<) (map fst es)"

lemma map_of_put_entry: "map_of (put_entry n x es) = (map_of es)(n \<mapsto> x)"
  by (induction n x es rule: put_entry.induct) (auto simp: fun_eq_iff)

lemma set_put_entry: "set (map fst (put_entry n x es)) = insert n (set (map fst es))"
  by (induction n x es rule: put_entry.induct) auto

lemma dir_ok_put: "dir_ok es \<Longrightarrow> dir_ok (put_entry n x es)"
proof (induction n x es rule: put_entry.induct)
  case (2 n x m y es)
  show ?case
  proof (cases "n < m \<or> n = m")
    case True
    then show ?thesis using "2.prems" by (fastforce simp: dir_ok_def)
  next
    case False
    then have "\<forall>k \<in> set (map fst (put_entry n x es)). m < k"
      using "2.prems" by (simp only: set_put_entry) (auto simp: dir_ok_def)
    then show ?thesis using False 2 by (auto simp: dir_ok_def)
  qed
qed (simp add: dir_ok_def)

lemma dir_ok_distinct: "dir_ok es \<Longrightarrow> distinct (map fst es)"
  by (simp add: dir_ok_def strict_sorted_iff)

lemma map_of_filter_value:
  "distinct (map fst es) \<Longrightarrow> map_of (filter P es) n =
    (case map_of es n of None \<Rightarrow> None | Some x \<Rightarrow> if P (n, x) then Some x else None)"
  by (induction es) (auto split: option.splits simp: map_of_eq_None_iff dest: map_of_SomeD intro: rev_image_eqI)

lemma map_of_set_root: "root_entries (set_root dir es k) d = (if d = dir then es else root_entries k d)"
  by (simp add: root_entries_def set_root_def update_conv')

lemma set_root_files [simp]: "dkFiles (set_root dir es k) = dkFiles k" "dkSameDevice (set_root dir es k) = dkSameDevice k"
  "dkCopyOk (set_root dir es k) = dkCopyOk k" "dkRemoveOk (set_root dir es k) = dkRemoveOk k"
  by (simp_all add: set_root_def)

lemma root_entries_files [simp]: "root_entries (k\<lparr>dkFiles := fs\<rparr>) d = root_entries k d"
  by (simp add: root_entries_def)

lemma read_dir_files [simp]: "read_dir (k\<lparr>dkFiles := fs\<rparr>) d pc = read_dir k d pc"
  by (simp add: read_dir_def)

lemma put_file_files [simp]: "dkFiles (put_file now dir pc name content k) = dkFiles k"
  by (simp add: put_file_def Let_def)

lemma drop_file_files [simp]: "dkFiles (drop_file now dir pc name k) = dkFiles k"
  by (simp add: drop_file_def split: option.splits)

section \<open>Moving a video in\<close>

lemma copyFile_files: "dkFiles (snd (copyFile now src dir pc name k)) = dkFiles k"
  by (auto simp: copyFile_def split: option.splits)

lemma mkdir_files: "mkdir_pickcode now dir pc k = Some k1 \<Longrightarrow> dkFiles k1 = dkFiles k"
  by (auto simp: mkdir_pickcode_def split: option.splits centry.splits)

text \<open>A failed move leaves the original where it was.\<close>

lemma Move_failed: "Move now src pc c k = (Inl e, k') \<Longrightarrow> dkFiles k' = dkFiles k"
  using mkdir_files [of now "caDir c" pc k] copyFile_files [of now src "caDir c" pc "path_base src"]
  by (auto simp: Move_def Let_def split: if_splits option.splits prod.splits bool.splits) (metis snd_conv)+

lemma mkdir_fresh:
  assumes "map_of (root_entries k dir) pc = None" "mkdir_pickcode now dir pc k = Some k1"
  shows "root_entries k1 dir = put_entry pc (CDir \<lparr>cdMtime = now, cdEntries = []\<rparr>) (root_entries k dir)"
    "read_dir k1 dir pc = Some \<lparr>cdMtime = now, cdEntries = []\<rparr>"
  using assms by (auto simp: mkdir_pickcode_def map_of_set_root read_dir_def map_of_put_entry)

lemma Move_ok:
  assumes "map_of (root_entries k (caDir c)) pc = None" "dir_ok (root_entries k (caDir c))"
    and "map_of (dkFiles k) src = Some content" "Move now src pc c k = (Inr dst, k')"
  shows "validPickCode pc \<and> dst = path_join (path_join (caDir c) pc) (path_base src) \<and>
    dir_ok (root_entries k' (caDir c)) \<and>
    read_dir k' (caDir c) pc = Some \<lparr>cdMtime = now, cdEntries = [(path_base src, Some content)]\<rparr> \<and>
    (\<forall>q. q \<noteq> pc \<longrightarrow> read_dir k' (caDir c) q = read_dir k (caDir c) q) \<and> (\<forall>p. p \<noteq> src \<longrightarrow> map_of (dkFiles k') p = map_of (dkFiles k) p)"
proof -
  let ?dir = "caDir c" and ?name = "path_base src"
  have v: "validPickCode pc" using assms(4) by (auto simp: Move_def split: if_splits)
  obtain k1 where k1: "mkdir_pickcode now ?dir pc k = Some k1"
    using assms(4) v by (auto simp: Move_def split: option.splits)
  note r = mkdir_fresh [OF assms(1) k1]
  let ?k2 = "put_file now ?dir pc ?name content k1"
  have sub: "\<not> is_subdir k1 ?dir pc ?name" using r(2) by (simp add: is_subdir_def)
  have ct: "create_time now ?dir pc ?name k1 = now" using r(2) by (simp add: create_time_def)
  have f: "map_of (dkFiles k1) src = Some content" "dkFiles k1 = dkFiles k" using mkdir_files [OF k1] assms(3) by simp_all
  have k': "dst = path_join (path_join ?dir pc) ?name \<and> (k' = ?k2 \<or> k' = ?k2\<lparr>dkFiles := AList.delete src (dkFiles k)\<rparr>)"
    using assms(4) v k1 f sub ct by (auto simp: Move_def Let_def copyFile_def split: if_splits)
  have d: "(case map_of (root_entries k1 ?dir) pc of Some (CDir d) \<Rightarrow> d | _ \<Rightarrow> \<lparr>cdMtime = now, cdEntries = []\<rparr>) = \<lparr>cdMtime = now, cdEntries = []\<rparr>"
    by (simp add: r(1) map_of_put_entry)
  have e: "root_entries ?k2 ?dir = put_entry pc (CDir \<lparr>cdMtime = now, cdEntries = [(?name, Some content)]\<rparr>) (root_entries k1 ?dir)"
    unfolding put_file_def Let_def d by (simp add: map_of_set_root)
  have e': "root_entries k' ?dir = root_entries ?k2 ?dir" "\<And>q. read_dir k' ?dir q = read_dir ?k2 ?dir q" using k' by auto
  have "\<forall>p. p \<noteq> src \<longrightarrow> map_of (dkFiles k') p = map_of (dkFiles k) p"
    using k' f(2) by (auto simp: delete_conv')
  moreover have "dir_ok (root_entries k' ?dir)" using e e' r(1) assms(2) by (simp add: dir_ok_put)
  ultimately show ?thesis
    using v k' e e' r(1) by (auto simp: read_dir_def map_of_put_entry)
qed

lemma sweep_read:
  assumes "dir_ok (root_entries k (caDir c))" "caDir c \<noteq> []" "dkRemoveOk k"
  shows "read_dir (sweep now c k) (caDir c) pc =
    (case read_dir k (caDir c) pc of None \<Rightarrow> None | Some d \<Rightarrow> if cdMtime d < now - caRetention c then None else Some d)"
proof (cases "map_of (dkRoots k) (caDir c)")
  case None
  then show ?thesis by (simp add: sweep_def read_dir_def root_entries_def)
next
  case (Some es)
  then show ?thesis using assms dir_ok_distinct [OF assms(1)]
    by (auto simp: sweep_def read_dir_def map_of_set_root map_of_filter_value kept_entry_def split: option.splits centry.splits)
qed

lemma sweep_keeps [simp]: "dkRemoveOk (sweep now c k) = dkRemoveOk k" "dir_ok (root_entries k (caDir c)) \<Longrightarrow> dir_ok (root_entries (sweep now c k) (caDir c))"
  by (auto simp: sweep_def dir_ok_def set_root_def map_of_set_root root_entries_def update_conv' sorted_wrt_map sorted_wrt_filter)

lemma sweeps_read:
  assumes "dir_ok (root_entries k (caDir c))" "caDir c \<noteq> []" "dkRemoveOk k"
  shows "read_dir (fold (\<lambda>now. sweep now c) ts k) (caDir c) pc =
    (case read_dir k (caDir c) pc of None \<Rightarrow> None | Some d \<Rightarrow> if \<exists>t \<in> set ts. cdMtime d < t - caRetention c then None else Some d)"
  using assms
proof (induction ts arbitrary: k)
  case (Cons t ts)
  then show ?case by (simp add: sweep_read split: option.splits)
qed (simp split: option.splits)

lemma cleaner_read:
  assumes "dir_ok (root_entries k (caDir c))" "caDir c \<noteq> []" "dkRemoveOk k"
  shows "read_dir (StartCleaner start ticks c k) (caDir c) pc =
    (case read_dir k (caDir c) pc of None \<Rightarrow> None | Some d \<Rightarrow> if \<forall>t \<in> set (start # ticks). t \<le> cdMtime d + caRetention c then Some d else None)"
  using sweeps_read [OF assms, of "start # ticks" pc] by (auto simp: StartCleaner_def algebra_simps split: option.splits)

lemma valid_pickcode_child:
  "validPickCode pc \<Longrightarrow> \<forall>n \<in> set cs. good_name n \<Longrightarrow> path_join (abs_path cs) pc = abs_path (cs @ [pc])"
  by (simp add: validPickCode_def good_name_def)

text \<open>C31. The life of a cached video. Once a video was moved into the cache under a new pickcode, a request
  for that pickcode finds exactly its contents below the cache directory, other files and other cached
  videos are untouched, and the cleaner keeps it, whenever and however often it sweeps, precisely until a sweep
  comes after the retention has passed since the move.\<close>

theorem cached_until_retention:
  assumes "map_of (root_entries k (caDir c)) pc = None" "dir_ok (root_entries k (caDir c))"
    and "map_of (dkFiles k) src = Some content" "Move now src pc c k = (Inr dst, k')"
    and "caDir c = abs_path cs" "\<forall>n \<in> set cs. good_name n" "dkRemoveOk k'"
  shows "dst = path_join (abs_path (cs @ [pc])) (path_base src) \<and>
    (\<forall>p. p \<noteq> src \<longrightarrow> map_of (dkFiles k') p = map_of (dkFiles k) p) \<and>
    (\<forall>q. q \<noteq> pc \<longrightarrow> LocalPath c k' q = LocalPath c k q) \<and>
    (\<forall>d. read_dir k' (caDir c) pc = Some d \<longrightarrow> map_of (cdEntries d) (path_base src) = Some (Some content)) \<and>
    (\<forall>start ticks. LocalPath c (StartCleaner start ticks c k') pc =
       (if \<forall>t \<in> set (start # ticks). t \<le> now + caRetention c then Some dst else None))"
proof -
  note m = Move_ok [OF assms(1-4)]
  have "caDir c \<noteq> []" using assms(5) by (simp add: abs_path_def tail_path_def)
  then have "LocalPath c (StartCleaner start ticks c k') pc =
      (if \<forall>t \<in> set (start # ticks). t \<le> now + caRetention c then Some dst else None)" for start ticks
    using m cleaner_read [of k' c start ticks pc] assms(7)
    by (auto simp: LocalPath_def firstFileEntry_def List.map_filter_simps)
  then show ?thesis
    using m valid_pickcode_child [OF _ assms(6)] assms(5) by (simp add: LocalPath_def)
qed

definition sample_disk :: disk where
  "sample_disk = \<lparr>dkRoots = [(''/app/cache'', [])], dkFiles = [(''/m/a.mkv'', ''x'')],
     dkSameDevice = False, dkCreateOk = True, dkCopyOk = True, dkCopied = 0, dkRemoveOk = True\<rparr>"

theorem cached_until_retention_witness:
  "LocalPath (New_cache ''/app/cache'' 100) (StartCleaner 60 [100, 150] (New_cache ''/app/cache'' 100)
     (snd (Move 50 ''/m/a.mkv'' ''abc1'' (New_cache ''/app/cache'' 100) sample_disk))) ''abc1'' = Some ''/app/cache/abc1/a.mkv''"
proof -
  let ?c = "New_cache ''/app/cache'' 100" and ?r = "Move 50 ''/m/a.mkv'' ''abc1'' (New_cache ''/app/cache'' 100) sample_disk"
  have r: "fst ?r = Inr ''/app/cache/abc1/a.mkv''" "dkRemoveOk (snd ?r)" by code_simp+
  then have "?r = (Inr ''/app/cache/abc1/a.mkv'', snd ?r)" by (metis prod.collapse)
  moreover have "caDir ?c = abs_path [''app'', ''cache'']" "\<forall>n \<in> set [''app'', ''cache'']. good_name n"
    by (simp_all add: New_cache_def abs_path_def tail_path_def good_name_def)
  moreover have "map_of (root_entries sample_disk (caDir ?c)) ''abc1'' = None" "dir_ok (root_entries sample_disk (caDir ?c))"
    "map_of (dkFiles sample_disk) ''/m/a.mkv'' = Some ''x''"
    by (simp_all add: root_entries_def sample_disk_def New_cache_def dir_ok_def)
  ultimately have "\<forall>start ticks. LocalPath ?c (StartCleaner start ticks ?c (snd ?r)) ''abc1'' =
      (if \<forall>t \<in> set (start # ticks). t \<le> 50 + caRetention ?c then Some ''/app/cache/abc1/a.mkv'' else None)"
    using cached_until_retention [of sample_disk ?c "''abc1''" "''/m/a.mkv''" "''x''" 50 _ "snd ?r" "[''app'', ''cache'']"] r(2) by blast
  then show ?thesis by (simp add: New_cache_def)
qed

end
