(* ===== verification/Relay.thy ===== *)
theory Relay
  imports Go_Text "HOL-Library.AList"
begin

text \<open>
  \<open>internal/relay/redirect.go\<close>: the endpoint that turns a pickcode into a link. Links are cached per
  pickcode and user agent until shortly before they expire; players that identify as Lavf (or
  not at all) get the contents passed through, everyone else a redirect. The 115 client, the upstream
  server, the local cache and the clock are the record \<open>relayenv\<close> on a world \<open>'w\<close>. Times are nanoseconds.
  Requests that ask for the same link at the same time share one query in the code; here requests follow each other.
\<close>

section \<open>The link cache\<close>

text \<open>An item has a number, so that its own timer can tell it from a later item under the same key.\<close>

record cacheItem =
  ciUrl :: string
  ciName :: string
  ciExpireAt :: int
  ciNumber :: nat

record redirector =
  rdCache :: "(string \<times> cacheItem) list"
  rdNumber :: nat

record 'w relayenv =
  reNow :: "'w \<Rightarrow> int"
  reLink :: "'w \<Rightarrow> string \<Rightarrow> string \<Rightarrow> (string \<times> string) option \<times> 'w"
  reLocal :: "'w \<Rightarrow> string \<Rightarrow> string option"
  reOpen :: "'w \<Rightarrow> string \<Rightarrow> bool option"
  reUpstream :: "'w \<Rightarrow> string \<Rightarrow> string \<Rightarrow> int option \<times> 'w"
  reAuth :: "string \<Rightarrow> bool"

definition second :: int where "second = 1000000000"

definition NewRedirector :: redirector where
  "NewRedirector = \<lparr>rdCache = [], rdNumber = 0\<rparr>"

definition loadCache :: "string \<Rightarrow> redirector \<Rightarrow> cacheItem option" where
  "loadCache key s = map_of (rdCache s) key"

definition storeCache :: "int \<Rightarrow> string \<Rightarrow> string \<Rightarrow> string \<Rightarrow> int \<Rightarrow> redirector \<Rightarrow> redirector" where
  "storeCache now key url name expiration s =
     s\<lparr>rdCache := AList.update key \<lparr>ciUrl = url, ciName = name, ciExpireAt = now + expiration, ciNumber = rdNumber s\<rparr> (rdCache s),
       rdNumber := rdNumber s + 1\<rparr>"

text \<open>The timer of an item: it removes the item if it is still the one under its key.\<close>

definition item_timer :: "string \<Rightarrow> nat \<Rightarrow> redirector \<Rightarrow> redirector" where
  "item_timer key n s =
     (case map_of (rdCache s) key of
        Some p \<Rightarrow> if ciNumber p = n then s\<lparr>rdCache := AList.delete key (rdCache s)\<rparr> else s
      | None \<Rightarrow> s)"

text \<open>
  How long a link is kept: until five minutes before the time in its parameter \<open>t\<close>, or half an hour
  when that is missing, malformed or not in the future. \<open>time.Unix\<close> counts its seconds from year 1 in an int64
  that wraps around; \<open>time.Until\<close> is limited to the int64 durations.
\<close>

definition unix_to_internal :: int where "unix_to_internal = 62135596800"

definition unix_seconds :: "int \<Rightarrow> int" where
  "unix_seconds t = wrap64 (t + unix_to_internal) - unix_to_internal"

definition link_expiration :: "(string \<Rightarrow> bool) \<Rightarrow> int \<Rightarrow> string \<Rightarrow> int" where
  "link_expiration auth_ok now url =
     (case url_raw_query auth_ok url of
        None \<Rightarrow> 1800 * second
      | Some q \<Rightarrow>
          let tStr = query_get q ''t'' in
          if tStr = [] then 1800 * second
          else
            (case parse_int tStr of
               None \<Rightarrow> 1800 * second
             | Some t \<Rightarrow>
                 let remaining = min (2 ^ 63 - 1) (unix_seconds (t - 300) * second - now) in
                 if remaining > 0 then remaining else 1800 * second))"

definition fetch_link :: "'w relayenv \<Rightarrow> string \<Rightarrow> string \<Rightarrow> redirector \<Rightarrow> 'w \<Rightarrow> cacheItem option \<times> redirector \<times> 'w" where
  "fetch_link ev pickCode ua s w =
     (case reLink ev w pickCode ua of
        (None, w1) \<Rightarrow> (None, s, w1)
      | (Some (url, name), w1) \<Rightarrow>
          if url = [] then (None, s, w1)
          else
            let key = pickCode @ ''|'' @ ua; now = reNow ev w1;
                s1 = storeCache now key url name (link_expiration (reAuth ev) now url) s
            in (loadCache key s1, s1, w1))"

definition resolveURL :: "'w relayenv \<Rightarrow> string \<Rightarrow> string \<Rightarrow> redirector \<Rightarrow> 'w \<Rightarrow> cacheItem option \<times> redirector \<times> 'w" where
  "resolveURL ev pickCode ua s w =
     (case loadCache (pickCode @ ''|'' @ ua) s of
        Some item \<Rightarrow> if \<not> reNow ev w > ciExpireAt item then (Some item, s, w) else fetch_link ev pickCode ua s w
      | None \<Rightarrow> fetch_link ev pickCode ua s w)"

section \<open>Serving\<close>

definition passthroughUA :: string where "passthroughUA = ''Fuck115''"

definition isPassthrough :: "string \<Rightarrow> bool" where
  "isPassthrough ua = (let u = trim_space ua in u = [] \<or> has_prefix u ''Lavf'')"

text \<open>
  What a request is answered with. \<open>Streamed\<close> carries the status and the contents' link, \<open>LocalFile\<close> the path.
  Requests aborted by the client are left out.
\<close>

datatype response = BadRequest | NotFound | BadGateway | ServerError | Redirect string "int option" | Streamed int string | LocalFile string

definition serveRedirect :: "'w relayenv \<Rightarrow> string \<Rightarrow> string \<Rightarrow> redirector \<Rightarrow> 'w \<Rightarrow> response \<times> redirector \<times> 'w" where
  "serveRedirect ev ua pickCode s w =
     (case resolveURL ev pickCode (trim_space ua) s w of
        (None, s1, w1) \<Rightarrow> (NotFound, s1, w1)
      | (Some item, s1, w1) \<Rightarrow>
          let age = ciExpireAt item - reNow ev w1 in
          (Redirect (ciUrl item) (if age > 0 then Some (age div second) else None), s1, w1))"

text \<open>The attempts of \<open>serveProxy\<close>: \<open>left\<close> more may follow a refusal.\<close>

fun proxy_attempts :: "'w relayenv \<Rightarrow> (string \<Rightarrow> string) \<Rightarrow> string \<Rightarrow> string \<Rightarrow> bool \<Rightarrow> nat \<Rightarrow> redirector \<Rightarrow> 'w \<Rightarrow> response \<times> redirector \<times> 'w" where
  "proxy_attempts ev downgrade pickCode rng again left s w =
     (let s0 = (if again then s\<lparr>rdCache := AList.delete (pickCode @ ''|'' @ passthroughUA) (rdCache s)\<rparr> else s) in
      case resolveURL ev pickCode passthroughUA s0 w of
        (None, s1, w1) \<Rightarrow> (NotFound, s1, w1)
      | (Some item, s1, w1) \<Rightarrow>
          (case reUpstream ev w1 (downgrade (ciUrl item)) rng of
             (None, w2) \<Rightarrow> (BadGateway, s1, w2)
           | (Some status, w2) \<Rightarrow>
               if status < 200 \<or> status \<ge> 300 then
                 (case left of 0 \<Rightarrow> (BadGateway, s1, w2) | Suc n \<Rightarrow> proxy_attempts ev downgrade pickCode rng True n s1 w2)
               else (Streamed status (ciUrl item), s1, w2)))"

text \<open>\<open>serveLocalFile\<close>: \<open>None\<close> when the file is gone; \<open>reOpen\<close> covers opening it and reading its size and time.\<close>

definition serveLocalFile :: "'w relayenv \<Rightarrow> string \<Rightarrow> 'w \<Rightarrow> response option" where
  "serveLocalFile ev path w =
     (case reOpen ev w path of
        None \<Rightarrow> None
      | Some False \<Rightarrow> Some ServerError
      | Some True \<Rightarrow> Some (LocalFile path))"

text \<open>\<open>serveProxy\<close>: a local copy first; a copy that has gone in the meantime is no answer.\<close>

definition serveProxy :: "'w relayenv \<Rightarrow> (string \<Rightarrow> string) \<Rightarrow> string \<Rightarrow> string \<Rightarrow> redirector \<Rightarrow> 'w \<Rightarrow> response \<times> redirector \<times> 'w" where
  "serveProxy ev downgrade pickCode rng s w =
     (case reLocal ev w pickCode of
        Some path \<Rightarrow>
          (case serveLocalFile ev path w of
             Some answer \<Rightarrow> (answer, s, w)
           | None \<Rightarrow> proxy_attempts ev downgrade pickCode rng False 2 s w)
      | None \<Rightarrow> proxy_attempts ev downgrade pickCode rng False 2 s w)"

definition RedirectToRealURL :: "'w relayenv \<Rightarrow> (string \<Rightarrow> string) \<Rightarrow> string \<Rightarrow> string \<Rightarrow> string \<Rightarrow> redirector \<Rightarrow> 'w \<Rightarrow> response \<times> redirector \<times> 'w" where
  "RedirectToRealURL ev downgrade ua pickCode rng s w =
     (if pickCode = [] then (BadRequest, s, w)
      else if isPassthrough ua then serveProxy ev downgrade pickCode rng s w
      else serveRedirect ev ua pickCode s w)"

section \<open>How long a link is served\<close>

lemma link_expiration_t:
  assumes "url_raw_query ok url = Some q" "parse_int (query_get q ''t'') = Some t" "\<bar>t * second - 300 * second - now\<bar> < 2 ^ 63" "0 \<le> t" "t < 2 ^ 62"
  shows "now + link_expiration ok now url =
    (if now < (t - 300) * second then (t - 300) * second else now + 1800 * second)"
proof -
  have "query_get q ''t'' \<noteq> []" using assms(2) by (auto simp: parse_int_def)
  moreover have "unix_seconds (t - 300) = t - 300"
    using assms(4,5) by (simp add: unix_seconds_def unix_to_internal_def wrap64_small)
  then have "min (2 ^ 63 - 1) (unix_seconds (t - 300) * second - now) = t * second - 300 * second - now"
    using assms(3) by (auto simp: left_diff_distrib)
  ultimately show ?thesis using assms(1,2) by (simp add: link_expiration_def Let_def left_diff_distrib)
qed

text \<open>How long a link is served without asking again. A link fetched at some time whose parameter \<open>t\<close> says when it
  expires is served from the cache, unchanged, until five minutes before that time; but when it
  expires within five minutes of being fetched, it is served for half an hour, past its expiry. After that
  the next request fetches anew.\<close>

theorem link_cached_until:
  assumes "resolveURL ev pickCode ua s w = (Some item, s1, w1)" "loadCache (pickCode @ ''|'' @ ua) s = None"
    and "url_raw_query (reAuth ev) (ciUrl item) = Some q" "parse_int (query_get q ''t'') = Some t"
    and "\<bar>t * second - 300 * second - reNow ev w1\<bar> < 2 ^ 63" "0 \<le> t" "t < 2 ^ 62"
  shows "resolveURL ev pickCode ua s1 w2 =
    (if reNow ev w2 \<le> (if reNow ev w1 < (t - 300) * second then (t - 300) * second else reNow ev w1 + 1800 * second)
     then (Some item, s1, w2) else fetch_link ev pickCode ua s1 w2)"
proof -
  have f: "fetch_link ev pickCode ua s w = (Some item, s1, w1)" using assms(1,2) by (simp add: resolveURL_def)
  then obtain url name where l: "reLink ev w pickCode ua = (Some (url, name), w1)" "url \<noteq> []"
    by (auto simp: fetch_link_def Let_def split: prod.splits option.splits if_splits)
  have i: "loadCache (pickCode @ ''|'' @ ua) s1 = Some item" "ciUrl item = url"
    "ciExpireAt item = reNow ev w1 + link_expiration (reAuth ev) (reNow ev w1) url"
    using f l by (auto simp: fetch_link_def Let_def loadCache_def storeCache_def update_conv')
  show ?thesis
    using i link_expiration_t [OF assms(3)[unfolded i(2)] assms(4,5,6,7)] by (simp add: resolveURL_def not_less)
qed

definition clock_env :: "int relayenv" where
  "clock_env = \<lparr>reNow = (\<lambda>w. w * second), reLink = (\<lambda>w pc ua. (Some (''http://h/f?t=1240'', ''f''), w)), reLocal = (\<lambda>w pc. None),
     reOpen = (\<lambda>w p. None), reUpstream = (\<lambda>w u r. (None, w)), reAuth = (\<lambda>a. True)\<rparr>"

theorem link_cached_until_witness:
  "\<exists>s1 item. resolveURL clock_env ''abc1'' ''ua'' NewRedirector 1000 = (Some item, s1, 1000) \<and>
     ciUrl item = ''http://h/f?t=1240'' \<and> resolveURL clock_env ''abc1'' ''ua'' s1 2400 = (Some item, s1, 2400)"
proof -
  have u: "url_raw_query (\<lambda>a. True) ''http://h/f?t=1240'' = Some ''t=1240''" "query_get ''t=1240'' ''t'' = ''1240''" by code_simp+
  have t: "parse_int ''1240'' = Some 1240" by (simp add: parse_int_def Let_def digit_val_def)
  obtain item s1 where r: "resolveURL clock_env ''abc1'' ''ua'' NewRedirector 1000 = (Some item, s1, 1000)" "ciUrl item = ''http://h/f?t=1240''"
    by (simp add: resolveURL_def fetch_link_def loadCache_def NewRedirector_def storeCache_def clock_env_def Let_def)
  have n: "loadCache (''abc1'' @ ''|'' @ ''ua'') NewRedirector = None" by (simp add: loadCache_def NewRedirector_def)
  from link_cached_until [OF r(1) n, of "''t=1240''" 1240 2400] show ?thesis
    using r u t by (auto simp: clock_env_def second_def)
qed

end
