(* ===== verification/Drive_Client.thy ===== *)
theory Drive_Client
  imports Task_Conf
begin

text \<open>
  \<open>internal/drive/client.go\<close>, \<open>auth.go\<close> and \<open>user.go\<close>: one request to the 115 platform with its retries, and the
  lazy refreshing of the access token. The rate limiter, the clock, the waiting and the two HTTP round trips are the
  record \<open>net\<close> on a world \<open>'w\<close>. Times are seconds. Requests run one after the other here; in the code a lock
  serialises the refreshes.
\<close>

section \<open>Replies\<close>

text \<open>The refresh endpoint: no answer, an unreadable one, malformed JSON, or its fields.\<close>

datatype refresh_reply = RefreshNet | RefreshRead | RefreshJson
  | RefreshReply (rrState: int) (rrCode: int) (rrMessage: string) (rrAccess: string) (rrExpiresIn: int) (rrRefresh: string)

text \<open>The platform: no answer, a malformed envelope, or status, envelope and data.\<close>

datatype api_reply = DoFailed | BadShell | ApiReply (arStatus: int) (arState: bool) (arCode: int) (arMessage: string) (arData: string)

datatype client_error = Aborted | RefreshTokenExpired | RefreshFailed | RequestFailed | ShellError
  | SaveTokenFailed | APIError int string int string

record 'w net =
  neNow :: "'w \<Rightarrow> int"
  neCancelled :: "'w \<Rightarrow> bool"
  neLimiter :: "'w \<Rightarrow> bool \<times> 'w"
  neSleep :: "'w \<Rightarrow> int \<Rightarrow> bool \<times> 'w"
  neRefresh :: "'w \<Rightarrow> string \<Rightarrow> refresh_reply \<times> 'w"
  neDo :: "'w \<Rightarrow> string \<Rightarrow> string \<Rightarrow> string \<Rightarrow> (string \<times> string) list \<Rightarrow> api_reply \<times> 'w"
  neSave :: "Config \<Rightarrow> bool"
  neLower :: "string \<Rightarrow> string"

text \<open>The state of the client: the configuration with the tokens, and the two package variables.\<close>

record client =
  clConf :: Config
  clNextAllowed :: "int option"
  clDeadReported :: bool

definition NewClient :: "Config \<Rightarrow> client" where
  "NewClient cf = \<lparr>clConf = cf, clNextAllowed = None, clDeadReported = False\<rparr>"

section \<open>Refreshing the token (auth.go)\<close>

text \<open>The UTF-8 bytes of the texts the code looks for: authorise again, expired, try again later, log in, authorise.\<close>

definition bytes :: "nat list \<Rightarrow> string" where "bytes ns = map char_of ns"

definition text_reauthorise :: string where
  "text_reauthorise = bytes [0xE9, 0x87, 0x8D, 0xE6, 0x96, 0xB0, 0xE6, 0x8E, 0x88, 0xE6, 0x9D, 0x83]"
definition text_expired :: string where
  "text_expired = bytes [0xE5, 0xB7, 0xB2, 0xE5, 0xA4, 0xB1, 0xE6, 0x95, 0x88]"
definition text_later :: string where
  "text_later = bytes [0xE7, 0xA8, 0x8D, 0xE5, 0x90, 0x8E, 0xE5, 0x86, 0x8D, 0xE8, 0xAF, 0x95]"
definition text_login :: string where
  "text_login = bytes [0xE7, 0x99, 0xBB, 0xE5, 0xBD, 0x95]"
definition text_authorise :: string where
  "text_authorise = bytes [0xE6, 0x8E, 0x88, 0xE6, 0x9D, 0x83]"

definition refreshTokenDeadCode :: int where "refreshTokenDeadCode = 40140137"
definition refreshAhead :: int where "refreshAhead = 600"
definition retryBackoff :: int where "retryBackoff = 60"
definition deadBackoff :: int where "deadBackoff = 600"

definition isRefreshTokenDead :: "(string \<Rightarrow> string) \<Rightarrow> int \<Rightarrow> string \<Rightarrow> bool" where
  "isRefreshTokenDead ul code msg \<longleftrightarrow>
     code = refreshTokenDeadCode \<or>
     (let m = to_lower ul msg in contains m text_reauthorise \<or> contains m text_expired)"

definition backoff :: "int \<Rightarrow> client \<Rightarrow> client" where
  "backoff t cl = cl\<lparr>clNextAllowed := Some t\<rparr>"

text \<open>The answer to a refresh with the token \<open>rt\<close>, at the time after it.\<close>

definition refresh_answer :: "'w net \<Rightarrow> string \<Rightarrow> client \<Rightarrow> refresh_reply \<times> 'w \<Rightarrow> (client_error + unit) \<times> client \<times> 'w" where
  "refresh_answer ne overrideRT cl rw =
     (case rw of (r, w1) \<Rightarrow>
       case r of
         RefreshReply st code msg access expires newRT \<Rightarrow>
           if st \<noteq> 1 then
             (if isRefreshTokenDead (neLower ne) code msg
              then (Inl RefreshTokenExpired, (backoff (neNow ne w1 + deadBackoff) cl)\<lparr>clDeadReported := True\<rparr>, w1)
              else (Inl RefreshFailed, backoff (neNow ne w1 + retryBackoff) cl, w1))
           else
             let cl1 = cl\<lparr>clNextAllowed := None, clDeadReported := False\<rparr>;
                 rt = (if newRT \<noteq> [] then newRT
                       else if overrideRT \<noteq> [] then overrideRT else tdRefreshToken (cfToken (clConf cl1)))
             in (case SaveToken (neSave ne) (neNow ne w1) access rt expires (clConf cl1) of
                   (Some _, cf) \<Rightarrow> (Inl SaveTokenFailed, cl1\<lparr>clConf := cf\<rparr>, w1)
                 | (None, cf) \<Rightarrow> (Inr (), cl1\<lparr>clConf := cf\<rparr>, w1))
       | _ \<Rightarrow> (Inl RefreshFailed, backoff (neNow ne w1 + retryBackoff) cl, w1))"

definition refreshToken :: "'w net \<Rightarrow> bool \<Rightarrow> string \<Rightarrow> client \<Rightarrow> 'w \<Rightarrow> (client_error + unit) \<times> client \<times> 'w" where
  "refreshToken ne force overrideRT cl w =
     (if neCancelled ne w then (Inl Aborted, cl, w)
      else
        let rt = (if overrideRT \<noteq> [] then overrideRT else tdRefreshToken (cfToken (clConf cl))) in
        if rt = [] then (Inr (), cl, w)
        else if \<not> force \<and> tdExpireAt (cfToken (clConf cl)) - neNow ne w > refreshAhead then (Inr (), cl, w)
        else if \<not> force \<and> (case clNextAllowed cl of None \<Rightarrow> False | Some t \<Rightarrow> \<not> neNow ne w > t) then (Inr (), cl, w)
        else refresh_answer ne overrideRT cl (neRefresh ne w rt))"

section \<open>Requests (client.go)\<close>

definition maxRetries :: nat where "maxRetries = 3"
definition retryWaitTime :: int where "retryWaitTime = 1"

definition removeEmpty :: "(string \<times> string) list \<Rightarrow> (string \<times> string) list" where
  "removeEmpty m = filter (\<lambda>kv. snd kv \<noteq> []) m"

definition isTokenExpired :: "(string \<Rightarrow> string) \<Rightarrow> int \<Rightarrow> bool \<Rightarrow> int \<Rightarrow> string \<Rightarrow> bool" where
  "isTokenExpired ul status state code message \<longleftrightarrow>
     status = 401 \<or> status = 403 \<or>
     (\<not> state \<and> (code = 401 \<or>
        (let msg = to_lower ul message in contains msg ''token'' \<or> contains msg text_login \<or> contains msg text_authorise)))"

text \<open>
  The loop of \<open>request\<close>: \<open>left\<close> is \<open>maxRetries - attempt\<close>. The result is the data of the reply.
\<close>

fun request_loop :: "'w net \<Rightarrow> string \<Rightarrow> string \<Rightarrow> (string \<times> string) list \<Rightarrow> bool \<Rightarrow> nat \<Rightarrow> client \<Rightarrow> 'w \<Rightarrow>
    (client_error + string) \<times> client \<times> 'w" where
  "request_loop ne meth path params refreshed left cl w =
     (case neLimiter ne w of
        (False, w1) \<Rightarrow> (Inl Aborted, cl, w1)
      | (True, w1) \<Rightarrow>
          (case refreshToken ne False [] cl w1 of
             (Inl e, cl1, w2) \<Rightarrow> (Inl e, cl1, w2)
           | (Inr _, cl1, w2) \<Rightarrow>
               (case neDo ne w2 (tdAccessToken (cfToken (clConf cl1))) meth path (removeEmpty params) of
                  (DoFailed, w3) \<Rightarrow> (Inl RequestFailed, cl1, w3)
                | (BadShell, w3) \<Rightarrow> (Inl ShellError, cl1, w3)
                | (ApiReply status state code message data, w3) \<Rightarrow>
                    let failed = Inl (APIError code message status data) in
                    (case left of
                       Suc n \<Rightarrow>
                         if status = 200 \<and> \<not> state \<and> contains message text_later then
                           (case neSleep ne w3 (retryWaitTime * int (maxRetries - n)) of
                              (False, w4) \<Rightarrow> (Inl Aborted, cl1, w4)
                            | (True, w4) \<Rightarrow> request_loop ne meth path params refreshed n cl1 w4)
                         else if \<not> refreshed \<and> isTokenExpired (neLower ne) status state code message then
                           (if clDeadReported cl1 then (failed, cl1, w3)
                            else (case refreshToken ne True [] cl1 w3 of
                                    (Inl e, cl2, w4) \<Rightarrow> (Inl e, cl2, w4)
                                  | (Inr _, cl2, w4) \<Rightarrow> request_loop ne meth path params True n cl2 w4))
                         else (if state then Inr data else failed, cl1, w3)
                     | 0 \<Rightarrow> (if state then Inr data else failed, cl1, w3)))))"

declare request_loop.simps [simp del]

definition request :: "'w net \<Rightarrow> string \<Rightarrow> string \<Rightarrow> (string \<times> string) list \<Rightarrow> client \<Rightarrow> 'w \<Rightarrow>
    (client_error + string) \<times> client \<times> 'w" where
  "request ne meth path params cl w = request_loop ne meth path params False maxRetries cl w"

text \<open>\<open>doRequest\<close>: the data decoded by \<open>decode\<close>; missing data and \<open>null\<close> give the zero value.\<close>

definition doRequest :: "'w net \<Rightarrow> (string \<Rightarrow> 'a option) \<Rightarrow> 'a \<Rightarrow> string \<Rightarrow> string \<Rightarrow> (string \<times> string) list \<Rightarrow> client \<Rightarrow> 'w \<Rightarrow>
    (client_error option + 'a) \<times> client \<times> 'w" where
  "doRequest ne decode zero meth path params cl w =
     (case request ne meth path params cl w of
        (Inl e, cl1, w1) \<Rightarrow> (Inl (Some e), cl1, w1)
      | (Inr data, cl1, w1) \<Rightarrow>
          (if data = [] \<or> data = ''null'' then Inr zero
           else (case decode data of None \<Rightarrow> Inl None | Some v \<Rightarrow> Inr v), cl1, w1))"

text \<open>\<open>GetUserInfo\<close> (\<open>user.go\<close>): the name and the sizes of the account, as texts.\<close>

record userInfoData =
  udUserName :: string
  udAllTotal :: string
  udAllRemain :: string
  udAllUse :: string

record UserInfo =
  uoUserName :: string
  uoUsedSize :: string
  uoTotalSize :: string
  uoRemainSize :: string

definition GetUserInfo :: "'w net \<Rightarrow> (string \<Rightarrow> userInfoData option) \<Rightarrow> client \<Rightarrow> 'w \<Rightarrow> (client_error option + UserInfo) \<times> client \<times> 'w" where
  "GetUserInfo ne decode cl w =
     (case doRequest ne decode \<lparr>udUserName = [], udAllTotal = [], udAllRemain = [], udAllUse = []\<rparr> ''GET'' ''/open/user/info'' [] cl w of
        (Inl e, cl1, w1) \<Rightarrow> (Inl e, cl1, w1)
      | (Inr d, cl1, w1) \<Rightarrow>
          (Inr \<lparr>uoUserName = udUserName d, uoUsedSize = udAllUse d, uoTotalSize = udAllTotal d, uoRemainSize = udAllRemain d\<rparr>, cl1, w1))"

text \<open>\<open>Verify\<close>: a new refresh token is tried out first; then the account is queried.\<close>

definition Verify :: "'w net \<Rightarrow> (string \<Rightarrow> userInfoData option) \<Rightarrow> string \<Rightarrow> client \<Rightarrow> 'w \<Rightarrow> (client_error option + UserInfo) \<times> client \<times> 'w" where
  "Verify ne decode overrideRT cl w =
     (if overrideRT \<noteq> [] then
        (case refreshToken ne True overrideRT cl w of
           (Inl e, cl1, w1) \<Rightarrow> (Inl (Some e), cl1, w1)
         | (Inr _, cl1, w1) \<Rightarrow> GetUserInfo ne decode cl1 w1)
      else GetUserInfo ne decode cl w)"

section \<open>Bounds on a request\<close>

text \<open>
  A count on the world: \<open>counts calls refreshes\<close> when a round trip to the platform adds one to the first, a
  round trip of the refresh adds one to the second, and nothing else adds to either.
\<close>

definition counts :: "'w net \<Rightarrow> ('w \<Rightarrow> nat) \<Rightarrow> ('w \<Rightarrow> nat) \<Rightarrow> bool" where
  "counts ne calls refreshes \<longleftrightarrow>
     (\<forall>w tok m p f. calls (snd (neDo ne w tok m p f)) = calls w + 1 \<and> refreshes (snd (neDo ne w tok m p f)) = refreshes w) \<and>
     (\<forall>w rt. calls (snd (neRefresh ne w rt)) = calls w \<and> refreshes (snd (neRefresh ne w rt)) = refreshes w + 1) \<and>
     (\<forall>w. calls (snd (neLimiter ne w)) = calls w \<and> refreshes (snd (neLimiter ne w)) = refreshes w) \<and>
     (\<forall>w n. calls (snd (neSleep ne w n)) = calls w \<and> refreshes (snd (neSleep ne w n)) = refreshes w)"

lemma counts_do: "counts ne ca re \<Longrightarrow> neDo ne w tok m p f = (r, w') \<Longrightarrow> ca w' = ca w + 1 \<and> re w' = re w"
  by (auto simp: counts_def dest: spec [of _ w]) (metis snd_conv)+

lemma counts_wait:
  "counts ne ca re \<Longrightarrow> neLimiter ne w = (b, w') \<Longrightarrow> ca w' = ca w \<and> re w' = re w"
  "counts ne ca re \<Longrightarrow> neSleep ne w n = (b, w') \<Longrightarrow> ca w' = ca w \<and> re w' = re w"
  by (metis counts_def snd_conv)+

lemma refresh_answer_world: "snd (snd (refresh_answer ne over cl rw)) = snd rw"
  by (cases rw; cases "fst rw")
     (auto simp: refresh_answer_def Let_def split: option.splits prod.splits)

lemma refreshToken_world:
  "snd (snd (refreshToken ne force over cl w)) = w \<or> (\<exists>rt. snd (snd (refreshToken ne force over cl w)) = snd (neRefresh ne w rt))"
  by (auto simp: refreshToken_def Let_def refresh_answer_world)

lemma counts_refresh:
  assumes "counts ne ca re" "refreshToken ne force over cl w = (r, cl', w')"
  shows "ca w' = ca w \<and> re w' \<le> re w + 1"
proof -
  have "w' = w \<or> (\<exists>rt. w' = snd (neRefresh ne w rt))"
    using refreshToken_world [of ne force over cl w] assms(2) by simp
  then show ?thesis using assms(1) by (auto simp: counts_def)
qed

lemma request_loop_counts:
  assumes "counts ne ca re"
  shows "request_loop ne meth path params refreshed left cl w = (r, cl', w') \<Longrightarrow>
    ca w' \<le> ca w + (left + 1) \<and> re w' \<le> re w + (left + 1) + (if refreshed then 0 else 1)"
proof (induction left arbitrary: refreshed cl w)
  case 0
  obtain b w1 where l: "neLimiter ne w = (b, w1)" by fastforce
  obtain q cl1 w2 where f: "refreshToken ne False [] cl w1 = (q, cl1, w2)" by (metis prod_cases3)
  obtain a w3 where d: "neDo ne w2 (tdAccessToken (cfToken (clConf cl1))) meth path (removeEmpty params) = (a, w3)" by fastforce
  have "w' = w1 \<or> w' = w2 \<or> w' = w3"
    using "0.prems" l f d
    by (subst (asm) request_loop.simps) (auto simp: Let_def split: bool.splits sum.splits api_reply.splits)
  then show ?case using counts_wait(1) [OF assms l] counts_refresh [OF assms f] counts_do [OF assms d] by auto
next
  case (Suc n)
  obtain b w1 where l: "neLimiter ne w = (b, w1)" by fastforce
  obtain q cl1 w2 where f: "refreshToken ne False [] cl w1 = (q, cl1, w2)" by (metis prod_cases3)
  obtain a w3 where d: "neDo ne w2 (tdAccessToken (cfToken (clConf cl1))) meth path (removeEmpty params) = (a, w3)" by fastforce
  note c = counts_wait(1) [OF assms l] counts_refresh [OF assms f] counts_do [OF assms d]
  consider "w' = w1" | "w' = w2" | "w' = w3"
    | s where "neSleep ne w3 s = (False, w')" | s w4 where "neSleep ne w3 s = (True, w4)" "request_loop ne meth path params refreshed n cl1 w4 = (r, cl', w')"
    | e cl2 where "\<not> refreshed" "refreshToken ne True [] cl1 w3 = (Inl e, cl2, w')"
    | cl2 w4 where "\<not> refreshed" "refreshToken ne True [] cl1 w3 = (Inr (), cl2, w4)" "request_loop ne meth path params True n cl2 w4 = (r, cl', w')"
    using Suc.prems l f d
    by (subst (asm) request_loop.simps) (auto simp: Let_def split: bool.splits sum.splits api_reply.splits if_splits prod.splits)
  then show ?case
  proof cases
    case (4 s)
    then show ?thesis using c counts_wait(2) [OF assms 4] by simp
  next
    case (5 s w4)
    then show ?thesis using c counts_wait(2) [OF assms 5(1)] Suc.IH [OF 5(2)] by simp
  next
    case (6 e cl2)
    then show ?thesis using c counts_refresh [OF assms 6(2)] by simp
  next
    case (7 cl2 w4)
    then show ?thesis using c counts_refresh [OF assms 7(2)] Suc.IH [OF 7(3)] by simp
  qed (use c in simp_all)
qed

text \<open>A request is bounded. Whatever the platform answers, one call of the client makes at most four round trips
  to it and at most five to refresh the token, one of them forced, and it always returns.\<close>

theorem request_bounded:
  assumes "counts ne calls refreshes"
  shows "\<exists>r cl' w'. request ne meth path params cl w = (r, cl', w') \<and> calls w' \<le> calls w + 4 \<and> refreshes w' \<le> refreshes w + 5"
proof -
  obtain r cl' w' where r: "request ne meth path params cl w = (r, cl', w')" by (metis prod_cases3)
  then show ?thesis using request_loop_counts [OF assms, of meth path params False maxRetries cl w r cl' w']
    by (simp add: request_def maxRetries_def)
qed

definition busy_net :: "(nat \<times> nat) net" where
  "busy_net =
     \<lparr>neNow = (\<lambda>w. 1000), neCancelled = (\<lambda>w. False), neLimiter = (\<lambda>w. (True, w)), neSleep = (\<lambda>w n. (True, w)),
      neRefresh = (\<lambda>w rt. (RefreshReply 1 0 [] ''a'' 0 [], (fst w, snd w + 1))),
      neDo = (\<lambda>w tok m p f. (ApiReply 200 False 990 text_later [], (fst w + 1, snd w))), neSave = (\<lambda>cf. True), neLower = (\<lambda>s. s)\<rparr>"

theorem request_bounded_witness:
  "\<exists>r cl' w'. request busy_net ''GET'' ''/open/user/info'' []
      (NewClient \<lparr>cfSettings = undefined, cfTasks = [], cfToken = \<lparr>tdAccessToken = ''a'', tdRefreshToken = ''r'', tdExpireAt = 0\<rparr>\<rparr>) (0, 0) =
      (r, cl', w') \<and> fst w' \<le> 4 \<and> snd w' \<le> 5"
proof -
  have "counts busy_net fst snd" by (auto simp: counts_def busy_net_def)
  from request_bounded [OF this, of "''GET''" "''/open/user/info''" "[]" _ "(0, 0)"] show ?thesis by simp
qed

section \<open>Backing off\<close>

text \<open>A failed refresh backs off. After a refresh that the platform did not answer well, no request refreshes again
  before a minute has passed, or ten minutes when the refresh token is no longer valid: until then
  the refresh before each request does nothing at all and lets the request through.\<close>

theorem failed_refresh_backs_off:
  assumes "refreshToken ne force overrideRT cl w = (Inl e, cl1, w1)" "e = RefreshFailed \<or> e = RefreshTokenExpired"
    and "neNow ne w2 \<le> neNow ne w1 + (if e = RefreshTokenExpired then deadBackoff else retryBackoff)" "\<not> neCancelled ne w2"
  shows "refreshToken ne False [] cl1 w2 = (Inr (), cl1, w2) \<and> (e = RefreshTokenExpired \<longrightarrow> clDeadReported cl1)"
proof -
  have "clNextAllowed cl1 = Some (neNow ne w1 + (if e = RefreshTokenExpired then deadBackoff else retryBackoff)) \<and>
      (e = RefreshTokenExpired \<longrightarrow> clDeadReported cl1)"
    using assms(1,2)
    by (auto simp: refreshToken_def refresh_answer_def backoff_def Let_def
        split: if_splits prod.splits refresh_reply.splits option.splits)
  then show ?thesis using assms(3,4) by (auto simp: refreshToken_def Let_def)
qed

theorem failed_refresh_backs_off_witness:
  "\<exists>cl1. refreshToken (busy_net\<lparr>neRefresh := \<lambda>w rt. (RefreshNet, w)\<rparr>) False []
      (NewClient \<lparr>cfSettings = undefined, cfTasks = [], cfToken = \<lparr>tdAccessToken = ''a'', tdRefreshToken = ''r'', tdExpireAt = 0\<rparr>\<rparr>) (0, 0) =
      (Inl RefreshFailed, cl1, (0, 0)) \<and>
    refreshToken (busy_net\<lparr>neRefresh := \<lambda>w rt. (RefreshNet, w)\<rparr>) False [] cl1 (7, 7) = (Inr (), cl1, (7, 7))"
proof -
  let ?ne = "busy_net\<lparr>neRefresh := \<lambda>w rt. (RefreshNet, w)\<rparr>"
  let ?cl = "NewClient \<lparr>cfSettings = undefined, cfTasks = [], cfToken = \<lparr>tdAccessToken = ''a'', tdRefreshToken = ''r'', tdExpireAt = 0\<rparr>\<rparr>"
  obtain cl1 where r: "refreshToken ?ne False [] ?cl (0, 0) = (Inl RefreshFailed, cl1, (0, 0))"
    by (simp add: refreshToken_def refresh_answer_def NewClient_def busy_net_def refreshAhead_def Let_def)
  from failed_refresh_backs_off [OF r, of "(7, 7)"] r show ?thesis by (simp add: busy_net_def retryBackoff_def)
qed

end
