(* ===== verification/Drive_Files.thy ===== *)
theory Drive_Files
  imports Mirror_Scan
begin

text \<open>
  \<open>internal/drive/files.go\<close>: the file calls of the 115 client. A request is its path and its form;
  the HTTP round trip (\<open>Get\<close> and \<open>Post\<close> of \<open>client.go\<close>, with the decoding of the reply's data) is
  the record \<open>api\<close> on a world \<open>'w\<close>. An error is the text of the reply.
\<close>

section \<open>Requests and replies\<close>

type_synonym form = "(string \<times> string) list"

text \<open>One entry of a file list, as the server sends it.\<close>

record fileListResponse =
  flFid :: string
  flName :: string
  flPickCode :: string
  flSize :: i64
  flIsVideo :: i64
  flAid :: string
  flIsDir :: string

record downItem =
  dnFileName :: string
  dnURL :: string

text \<open>
  The typed calls. \<open>acDir\<close> and \<open>acDown\<close> answer \<open>None\<close> inside when the data is not an object; the
  order of the items of \<open>acDown\<close> is Go's arbitrary order of a map.
\<close>

record 'w api =
  acList :: "'w \<Rightarrow> string \<Rightarrow> form \<Rightarrow> (string + fileListResponse list) \<times> 'w"
  acDown :: "'w \<Rightarrow> string \<Rightarrow> form \<Rightarrow> string \<Rightarrow> (string + (string \<times> downItem) list option) \<times> 'w"
  acFolder :: "'w \<Rightarrow> string \<Rightarrow> form \<Rightarrow> (string + string) \<times> 'w"
  acDir :: "'w \<Rightarrow> string \<Rightarrow> form \<Rightarrow> (string + DirInfo option) \<times> 'w"
  acRename :: "'w \<Rightarrow> string \<Rightarrow> form \<Rightarrow> (string + string) \<times> 'w"
  acUnit :: "'w \<Rightarrow> string \<Rightarrow> form \<Rightarrow> (string + unit) \<times> 'w"

datatype list_error = ListCancelled | ListFailed string

section \<open>Listing a directory\<close>

definition page_size :: nat where "page_size = 1150"

definition list_form :: "string \<Rightarrow> nat \<Rightarrow> form" where
  "list_form cid offset =
     [(''cid'', cid), (''show_dir'', ''1''), (''limit'', ''1150''), (''offset'', format_uint 10 offset)]"

definition to_FileInfo :: "fileListResponse \<Rightarrow> FileInfo" where
  "to_FileInfo r =
     \<lparr>fiFid = flFid r, fiName = flName r, fiPickCode = flPickCode r, fiSize = flSize r,
      fiIsDir = (flIsDir r = ''0''), fiIsVideo = (flIsVideo r = 1)\<rparr>"

definition kept_items :: "fileListResponse list \<Rightarrow> FileInfo list" where
  "kept_items rs = map to_FileInfo (filter (\<lambda>r. flAid r = ''1'') rs)"

text \<open>The pages from an offset on; a server that always sends full pages keeps it going forever.\<close>

partial_function (option) file_pages ::
  "'w api \<Rightarrow> string \<Rightarrow> nat \<Rightarrow> FileInfo list \<Rightarrow> ctx \<Rightarrow> 'w \<Rightarrow> ((list_error + FileInfo list) \<times> ctx \<times> 'w) option" where
  "file_pages ac cid offset acc c w =
     (case acList ac w ''/open/ufile/files'' (list_form cid offset) of
        (Inl e, w1) \<Rightarrow> Some (Inl (ListFailed e), c, w1)
      | (Inr rs, w1) \<Rightarrow>
          if rs = [] then Some (Inr acc, c, w1)
          else if length rs < page_size then Some (Inr (acc @ kept_items rs), c, w1)
          else
            (case ctx_check c of (stop, c1) \<Rightarrow>
               if stop then Some (Inl ListCancelled, c1, w1)
               else file_pages ac cid (offset + length rs) (acc @ kept_items rs) c1 w1))"

definition GetFileList :: "'w api \<Rightarrow> string \<Rightarrow> ctx \<Rightarrow> 'w \<Rightarrow> ((list_error + FileInfo list) \<times> ctx \<times> 'w) option" where
  "GetFileList ac cid c w =
     (case ctx_check c of (stop, c1) \<Rightarrow>
        if stop then Some (Inl ListCancelled, c1, w) else file_pages ac cid 0 [] c1 w)"

section \<open>Single calls\<close>

text \<open>The texts of the errors the code makes itself (in the source's Chinese) are only told apart by name.\<close>

datatype file_error = ApiFailed string | NoDownload | EmptyURL | NoDirInfo

definition GetDownloadURL :: "'w api \<Rightarrow> string \<Rightarrow> string \<Rightarrow> 'w \<Rightarrow> (file_error + string \<times> string) \<times> 'w" where
  "GetDownloadURL ac pickCode ua w =
     (case acDown ac w ''/open/ufile/downurl'' [(''pick_code'', pickCode)] ua of
        (Inl e, w1) \<Rightarrow> (Inl (ApiFailed e), w1)
      | (Inr None, w1) \<Rightarrow> (Inl NoDownload, w1)
      | (Inr (Some []), w1) \<Rightarrow> (Inl NoDownload, w1)
      | (Inr (Some ((_, item) # _)), w1) \<Rightarrow>
          (if dnURL item = [] then Inl EmptyURL else Inr (dnURL item, dnFileName item), w1))"

definition GetDirInfo :: "'w api \<Rightarrow> string \<Rightarrow> 'w \<Rightarrow> (file_error + DirInfo) \<times> 'w" where
  "GetDirInfo ac path w =
     (if path = [] \<or> trim_byte (CHR ''/'') path = []
      then (Inr \<lparr>diFid = ''0'', diName = [], diFileCount = 0, diFolderCount = 0\<rparr>, w)
      else
        (case acDir ac w ''/open/folder/get_info'' [(''path'', CHR ''/'' # trim_byte (CHR ''/'') path)] of
           (Inl e, w1) \<Rightarrow> (Inl (ApiFailed e), w1)
         | (Inr None, w1) \<Rightarrow> (Inl NoDirInfo, w1)
         | (Inr (Some info), w1) \<Rightarrow> (Inr info, w1)))"

text \<open>The UTF-8 bytes of the reply's text for a folder that exists already.\<close>

definition folder_exists_text :: string where
  "folder_exists_text = map char_of
     [0xE8, 0xAF, 0xA5, 0xE7, 0x9B, 0xAE, 0xE5, 0xBD, 0x95, 0xE5, 0x90, 0x8D, 0xE7, 0xA7, 0xB0,
      0xE5, 0xB7, 0xB2, 0xE5, 0xAD, 0x98, 0xE5, 0x9C, (0xA8 :: nat)]"

definition CreateFolder :: "'w api \<Rightarrow> string \<Rightarrow> string \<Rightarrow> string \<Rightarrow> 'w \<Rightarrow> (string + DirInfo) \<times> 'w" where
  "CreateFolder ac pid name path w =
     (case acFolder ac w ''/open/folder/add'' [(''pid'', pid), (''file_name'', name)] of
        (Inr fid, w1) \<Rightarrow> (Inr \<lparr>diFid = fid, diName = [], diFileCount = 0, diFolderCount = 0\<rparr>, w1)
      | (Inl e, w1) \<Rightarrow>
          if contains e folder_exists_text then
            (case GetDirInfo ac path w1 of (Inr info, w2) \<Rightarrow> (Inr info, w2) | (Inl _, w2) \<Rightarrow> (Inl e, w2))
          else (Inl e, w1))"

definition MoveFile :: "'w api \<Rightarrow> string \<Rightarrow> string \<Rightarrow> 'w \<Rightarrow> (string + unit) \<times> 'w" where
  "MoveFile ac fid cid w = acUnit ac w ''/open/ufile/move'' [(''file_ids'', fid), (''to_cid'', cid)]"

definition DeleteFile :: "'w api \<Rightarrow> string \<Rightarrow> 'w \<Rightarrow> (string + unit) \<times> 'w" where
  "DeleteFile ac fid w = acUnit ac w ''/open/ufile/delete'' [(''file_ids'', fid)]"

definition RenameFile :: "'w api \<Rightarrow> string \<Rightarrow> string \<Rightarrow> 'w \<Rightarrow> (string + string) \<times> 'w" where
  "RenameFile ac fid name w = acRename ac w ''/open/ufile/update'' [(''file_id'', fid), (''file_name'', name)]"

section \<open>All pages\<close>

text \<open>
  A server that keeps a list and answers each form with as many entries as its \<open>limit\<close> asks for, from its \<open>offset\<close> on.
  Nothing is assumed on the world.
\<close>

definition form_limit :: "form \<Rightarrow> nat" where
  "form_limit f = (case map_of f ''limit'' of None \<Rightarrow> 0 | Some t \<Rightarrow> (case digits_value 10 0 t of None \<Rightarrow> 0 | Some n \<Rightarrow> n))"

definition serves :: "'w api \<Rightarrow> string \<Rightarrow> fileListResponse list \<Rightarrow> bool" where
  "serves ac cid items \<longleftrightarrow>
     (\<forall>w offset. fst (acList ac w ''/open/ufile/files'' (list_form cid offset)) =
        Inr (take (form_limit (list_form cid offset)) (drop offset items)))"

text \<open>The limit of the program's forms is the threshold its loop compares with.\<close>

lemma list_form_limit: "form_limit (list_form cid offset) = page_size"
proof -
  have "digits_value 10 0 ''1150'' = Some 1150" by code_simp
  then show ?thesis by (simp add: form_limit_def list_form_def page_size_def)
qed

lemma file_pages_exact:
  assumes "serves ac cid items"
  shows "\<exists>w'. file_pages ac cid offset acc None w = Some (Inr (acc @ kept_items (drop offset items)), None, w')"
proof (induction "length items - offset" arbitrary: offset acc w rule: less_induct)
  case less
  obtain r w1 where r: "acList ac w ''/open/ufile/files'' (list_form cid offset) = (r, w1)" by fastforce
  then have page: "r = Inr (take page_size (drop offset items))" using assms unfolding serves_def list_form_limit by (metis fst_conv)
  let ?p = "take page_size (drop offset items)"
  show ?case
  proof (cases "length (drop offset items) < page_size")
    case True
    then have "?p = drop offset items" by simp
    then show ?thesis using r page True
      by (subst file_pages.simps) (auto simp: kept_items_def)
  next
    case False
    then have len: "length ?p = page_size" "?p \<noteq> []" by (auto simp: page_size_def)
    have "length items - (offset + page_size) < length items - offset" using False by (simp add: page_size_def)
    from less [OF this, of "acc @ kept_items ?p" w1] obtain w' where
      "file_pages ac cid (offset + page_size) (acc @ kept_items ?p) None w1 =
        Some (Inr ((acc @ kept_items ?p) @ kept_items (drop (offset + page_size) items)), None, w')" by blast
    moreover have "kept_items ?p @ kept_items (drop (offset + page_size) items) = kept_items (drop offset items)"
      by (simp add: kept_items_def add.commute flip: map_append filter_append drop_drop)
    ultimately show ?thesis using r page len by (subst file_pages.simps) simp
  qed
qed

text \<open>C29. A directory is listed completely. When the server answers every offset with the next page of a list,
  the listing returns, and its result is exactly the entries of the whole list that are neither deleted nor
  in the recycle bin, in order, however many pages there are.\<close>

theorem GetFileList_exact:
  assumes "serves ac cid items"
  shows "\<exists>w'. GetFileList ac cid None w = Some (Inr (kept_items items), None, w')"
  using file_pages_exact [OF assms, of 0 "[]" w] by (simp add: GetFileList_def)

definition paging_api :: "fileListResponse list \<Rightarrow> unit api" where
  "paging_api items =
     \<lparr>acList = (\<lambda>w p f. (Inr (take (form_limit f) (drop (the (digits_value 10 0 (the (map_of f ''offset'')))) items)), w)),
      acDown = (\<lambda>w p f ua. (Inr None, w)), acFolder = (\<lambda>w p f. (Inr ''1'', w)), acDir = (\<lambda>w p f. (Inr None, w)),
      acRename = (\<lambda>w p f. (Inr [], w)), acUnit = (\<lambda>w p f. (Inr (), w))\<rparr>"

theorem GetFileList_exact_witness:
  "\<exists>it w'. GetFileList (paging_api (replicate 2000 it)) ''7'' None () = Some (Inr (replicate 2000 (to_FileInfo it)), None, w')"
proof -
  let ?it = "\<lparr>flFid = ''9'', flName = ''a'', flPickCode = ''p'', flSize = 1, flIsVideo = 0, flAid = ''1'', flIsDir = ''1''\<rparr>"
  have "serves (paging_api (replicate 2000 ?it)) ''7'' (replicate 2000 ?it)"
    by (simp add: serves_def list_form_limit paging_api_def) (simp add: list_form_def digits_value_format_uint del: take_replicate drop_replicate)
  from GetFileList_exact [OF this, of "()"] show ?thesis
    by (intro exI [of _ ?it]) (simp add: kept_items_def)
qed

end
