(* ===== verification/Web_Panel.thy ===== *)
theory Web_Panel
  imports Engine_Core Drive_Files
begin

text \<open>
  The parts of \<open>internal/webui\<close> with a state or a rule of their own: sessions and login
  (\<open>handler_auth.go\<close>), the input of offline downloads (\<open>handler_offline.go\<close>), the directory browser
  (\<open>handler_fs.go\<close>), the broadcasting hub (\<open>hub.go\<close>), and the rebuild of the engine after the
  settings were saved (\<open>server.go\<close>, \<open>handler_config.go\<close>). Reading requests and writing responses is left out.
\<close>

section \<open>Sessions\<close>

text \<open>Tokens with the time they expire, in seconds.\<close>

type_synonym sessionStore = "(string \<times> int) list"

definition sessionTTL :: int where "sessionTTL = 604800"

text \<open>\<open>create\<close>: expired sessions are thrown out; the token is the hexadecimal form of 32 random bytes.\<close>

definition session_create :: "int \<Rightarrow> string \<Rightarrow> sessionStore \<Rightarrow> sessionStore" where
  "session_create now token s = AList.update token (now + sessionTTL) (filter (\<lambda>kv. \<not> now > snd kv) s)"

definition session_valid :: "int \<Rightarrow> string \<Rightarrow> sessionStore \<Rightarrow> bool \<times> sessionStore" where
  "session_valid now token s =
     (if token = [] then (False, s)
      else
        (case map_of s token of
           None \<Rightarrow> (False, s)
         | Some t \<Rightarrow> if now > t then (False, AList.delete token s) else (True, s)))"

definition session_remove :: "string \<Rightarrow> sessionStore \<Rightarrow> sessionStore" where
  "session_remove token s = AList.delete token s"

text \<open>A request without the cookie is \<open>None\<close>.\<close>

definition loggedIn :: "int \<Rightarrow> string option \<Rightarrow> sessionStore \<Rightarrow> bool \<times> sessionStore" where
  "loggedIn now cookie s = (case cookie of None \<Rightarrow> (False, s) | Some t \<Rightarrow> session_valid now t s)"

text \<open>\<open>protect\<close>: whether the handler runs.\<close>

definition protect :: "int \<Rightarrow> Config \<Rightarrow> string option \<Rightarrow> sessionStore \<Rightarrow> bool \<times> sessionStore" where
  "protect now cf cookie s =
     (if AuthRequired cf then loggedIn now cookie s else (True, s))"

datatype login_result = LoginOpen | LoginDenied | LoginOk string

text \<open>\<open>handleLogin\<close>: \<open>matches\<close> compares a password with a stored hash.\<close>

definition handleLogin :: "(string \<Rightarrow> string \<Rightarrow> bool) \<Rightarrow> int \<Rightarrow> string \<Rightarrow> Config \<Rightarrow> string \<Rightarrow> string \<Rightarrow> sessionStore \<Rightarrow> login_result \<times> sessionStore" where
  "handleLogin matches now token cf username password s =
     (case GetAuth cf of (user, passHash) \<Rightarrow>
        if user = [] then (LoginOpen, s)
        else if username \<noteq> user \<or> \<not> matches passHash password then (LoginDenied, s)
        else (LoginOk token, session_create now token s))"

definition handleLogout :: "string option \<Rightarrow> sessionStore \<Rightarrow> sessionStore" where
  "handleLogout cookie s = (case cookie of None \<Rightarrow> s | Some t \<Rightarrow> session_remove t s)"

section \<open>Offline downloads\<close>

definition isBTHash :: "string \<Rightarrow> bool" where
  "isBTHash s =
     (if length s = 40 then list_all (\<lambda>c. c \<in> set ''0123456789abcdefABCDEF'') s
      else if length s = 32 then
        list_all (\<lambda>c. c \<in> set ''0123456789abcdefghijklmnopqrstuvwxyzABCDEFGHIJKLMNOPQRSTUVWXYZ234567'') s
      else False)"

definition normalizeMagnetURL :: "string \<Rightarrow> string" where
  "normalizeMagnetURL line =
     (let s = trim_space line in
      if s = [] \<or> has_prefix s ''magnet:'' \<or> contains s ''://'' then s
      else
        let hash = trim_prefix (trim_prefix s ''btih:'') ''urn:btih:'' in
        if isBTHash hash then ''magnet:?xt=urn:btih:'' @ hash else s)"

text \<open>\<open>handleOfflineAdd\<close>: the links of the text, one per line.\<close>

definition offline_urls :: "string \<Rightarrow> string list" where
  "offline_urls text = filter (\<lambda>u. u \<noteq> []) (map normalizeMagnetURL (split_on (CHR 0x0A) text))"

definition normalizeSavePath :: "string \<Rightarrow> string \<Rightarrow> string" where
  "normalizeSavePath raw fallback =
     (let p0 = trim_byte (CHR ''/'') (trim_space raw);
          p1 = (if p0 = [] then fallback else p0);
          p2 = trim_byte (CHR ''/'') (trim_space p1)
      in if p2 = [] then ''/'' else p2)"

definition resolveCloudDir :: "'w api \<Rightarrow> Config \<Rightarrow> string \<Rightarrow> 'w \<Rightarrow> (file_error + string) \<times> string \<times> 'w" where
  "resolveCloudDir ac cf savePath w =
     (let p = normalizeSavePath savePath (seOfflineDir (cfSettings cf)) in
      case GetDirInfo ac p w of
        (Inl e, w1) \<Rightarrow> (Inl e, p, w1)
      | (Inr info, w1) \<Rightarrow> (Inr (diFid info), p, w1))"

text \<open>The validation of the flag of \<open>handleOfflineClear\<close>.\<close>

definition clear_flag_ok :: "int \<Rightarrow> bool" where
  "clear_flag_ok flag \<longleftrightarrow> \<not> (flag < 0 \<or> flag > 5)"

section \<open>The directory browser\<close>

datatype fs_result = NotAbsolute | NoSuchDir | ReadFailed | Listing string string "string list"

definition handleFS :: "FS \<Rightarrow> string \<Rightarrow> fs_result" where
  "handleFS fs p0 =
     (let p = (if p0 = [] then ''/'' else p0); clean = path_clean p in
      if \<not> is_abs clean then NotAbsolute
      else case fsStat fs clean of
        Inl _ \<Rightarrow> NoSuchDir
      | Inr _ \<Rightarrow>
          (case fsReadDir fs clean of
             Inl _ \<Rightarrow> ReadFailed
           | Inr es \<Rightarrow>
               let dirs = map deName (filter (\<lambda>e. deIsDir e \<and> \<not> has_prefix (deName e) ''.'') es);
                   parent = path_dir clean
               in Listing clean (if parent = clean then [] else parent) (sort_key id dirs)))"

section \<open>The hub\<close>

text \<open>Each subscriber's channel holds at most one signal.\<close>

definition Publish :: "(nat \<times> bool) list \<Rightarrow> (nat \<times> bool) list" where
  "Publish subs = map (\<lambda>(ch, _). (ch, True)) subs"

definition hub_subscribe :: "nat \<Rightarrow> (nat \<times> bool) list \<Rightarrow> (nat \<times> bool) list" where
  "hub_subscribe ch subs = (ch, False) # subs"

definition hub_unsubscribe :: "nat \<Rightarrow> (nat \<times> bool) list \<Rightarrow> (nat \<times> bool) list" where
  "hub_unsubscribe ch subs = filter (\<lambda>p. fst p \<noteq> ch) subs"

section \<open>The rebuild after saving the settings\<close>

text \<open>The body of the goroutine that \<open>startEngineAsync\<close> starts: start the engine, then rebuild all runners.\<close>

definition rebuild_round :: "'w host \<Rightarrow> shared \<Rightarrow> ctx \<Rightarrow> 'w engine \<Rightarrow> (bool \<times> 'w engine) option" where
  "rebuild_round ho sh c e =
     (case EnsureRunning ho sh c e of
        None \<Rightarrow> None
      | Some (False, e1) \<Rightarrow> Some (False, e1)
      | Some (True, e1) \<Rightarrow> ReloadAll ho sh c e1)"

text \<open>
  Which settings a rebuild works with. Saved settings are numbered; a round reads the ones in force
  when it begins its work. \<open>rsPending\<close> is the flag \<open>reloadPending\<close>, set when a round is started and reset when it ends.
\<close>

datatype round = NoRound | RoundStarted | RoundWorking nat

record rebuild_sys =
  rsSaved :: nat
  rsPending :: bool
  rsRound :: round
  rsApplied :: nat

definition init_rebuild :: rebuild_sys where
  "init_rebuild = \<lparr>rsSaved = 0, rsPending = False, rsRound = NoRound, rsApplied = 0\<rparr>"

definition startEngineAsync :: "rebuild_sys \<Rightarrow> rebuild_sys" where
  "startEngineAsync s = (if rsPending s then s else s\<lparr>rsPending := True, rsRound := RoundStarted\<rparr>)"

inductive rstep :: "rebuild_sys \<Rightarrow> rebuild_sys \<Rightarrow> bool" where
  r_save: "rstep s (startEngineAsync (s\<lparr>rsSaved := rsSaved s + 1\<rparr>))"
| r_begin: "rsRound s = RoundStarted \<Longrightarrow> rstep s (s\<lparr>rsRound := RoundWorking (rsSaved s)\<rparr>)"
| r_end: "rsRound s = RoundWorking n \<Longrightarrow> rstep s (s\<lparr>rsRound := NoRound, rsPending := False, rsApplied := n\<rparr>)"

inductive rreachable :: "rebuild_sys \<Rightarrow> bool" where
  rr_init: "rreachable init_rebuild"
| rr_step: "rreachable s \<Longrightarrow> rstep s t \<Longrightarrow> rreachable t"

inductive_cases rstepE: "rstep s t"

section \<open>Properties\<close>

text \<open>What happened to the sessions, with its time.\<close>

datatype session_op = SCreate int string | SCheck int string | SRemove int string

fun op_time :: "session_op \<Rightarrow> int" where
  "op_time (SCreate t _) = t" | "op_time (SCheck t _) = t" | "op_time (SRemove t _) = t"

fun session_step :: "session_op \<Rightarrow> sessionStore \<Rightarrow> sessionStore" where
  "session_step (SCreate t tok) s = session_create t tok s"
| "session_step (SCheck t tok) s = snd (session_valid t tok s)"
| "session_step (SRemove t tok) s = session_remove tok s"

text \<open>When a token was last granted and not taken back since.\<close>

fun granted :: "string \<Rightarrow> session_op \<Rightarrow> int option \<Rightarrow> int option" where
  "granted k (SCreate t tok) g = (if tok = k then Some t else g)"
| "granted k (SCheck t tok) g = g"
| "granted k (SRemove t tok) g = (if tok = k then None else g)"

text \<open>The store and the grants agree at a time: only expired grants may have been thrown out.\<close>

definition session_rel :: "int \<Rightarrow> sessionStore \<Rightarrow> (string \<Rightarrow> int option) \<Rightarrow> bool" where
  "session_rel now s g \<longleftrightarrow> distinct (map fst s) \<and>
     (\<forall>k. case map_of s k of Some e \<Rightarrow> g k = Some (e - sessionTTL) | None \<Rightarrow> (\<forall>t. g k = Some t \<longrightarrow> t + sessionTTL < now))"

lemma map_of_filter_snd:
  "distinct (map fst xs) \<Longrightarrow> map_of (filter (\<lambda>kv. P (snd kv)) xs) k =
    (case map_of xs k of None \<Rightarrow> None | Some v \<Rightarrow> if P v then Some v else None)"
  by (induction xs) (auto split: option.splits simp: map_of_eq_None_iff dest: map_of_SomeD intro: rev_image_eqI)

lemma session_rel_step:
  assumes "session_rel now s g" "now \<le> op_time p"
  shows "session_rel (op_time p) (session_step p s) (\<lambda>k. granted k p (g k))"
proof -
  have d: "distinct (map fst s)" using assms(1) by (simp add: session_rel_def)
  have st: "map_of s k = Some e \<Longrightarrow> g k = Some (e - sessionTTL)" "map_of s k = None \<Longrightarrow> g k = Some t \<Longrightarrow> t + sessionTTL < op_time p" for k e t
    using assms by (force simp: session_rel_def split: option.splits dest: spec [of _ k])+
  show ?thesis
  proof (cases p)
    case (SCreate t tok)
    have "distinct (map fst (filter (\<lambda>kv. \<not> t > snd kv) s))" using d by (simp add: distinct_map_filter)
    then show ?thesis using SCreate st d
      by (auto simp: session_rel_def session_create_def update_conv' map_of_filter_snd [OF d, where P = "\<lambda>e. \<not> t > e"]
          distinct_update split: option.splits)
  next
    case (SCheck t tok)
    then show ?thesis using st d
      by (auto simp: session_rel_def session_valid_def delete_conv' distinct_delete split: option.splits)
  next
    case (SRemove t tok)
    then show ?thesis using st d
      by (auto simp: session_rel_def session_remove_def delete_conv' distinct_delete split: option.splits)
  qed
qed

lemma session_rel_run:
  "session_rel now s g \<Longrightarrow> sorted (now # map op_time ps) \<Longrightarrow>
    session_rel (last (now # map op_time ps)) (fold session_step ps s) (\<lambda>k. fold (granted k) ps (g k))"
proof (induction ps arbitrary: now s g)
  case (Cons p ps)
  have "session_rel (op_time p) (session_step p s) (\<lambda>k. granted k p (g k))"
    using session_rel_step [OF Cons.prems(1)] Cons.prems(2) by simp
  from Cons.IH [OF this] Cons.prems(2) show ?case by simp
qed simp

text \<open>C34. Who is logged in. After any history of logins, checks and logouts in the order of their times, a request
  with a cookie is let through exactly when the cookie's token was granted at most seven days ago
  and not taken back since; expired tokens never come back.\<close>

theorem session_valid_exact:
  assumes "sorted (map op_time ps)" "\<forall>p \<in> set ps. op_time p \<le> now" "AuthRequired cf" "tok \<noteq> []"
  shows "fst (protect now cf (Some tok) (fold session_step ps [])) =
    (case fold (granted tok) ps None of None \<Rightarrow> False | Some t \<Rightarrow> now \<le> t + sessionTTL)"
proof -
  obtain t0 where t0: "sorted (t0 # map op_time ps)" "t0 \<le> now"
  proof (cases ps)
    case (Cons p qs)
    then show ?thesis using that [of "op_time p"] assms(1,2) by auto
  qed (use that [of now] in simp)
  have "session_rel t0 [] (\<lambda>_. None)" by (simp add: session_rel_def)
  from session_rel_run [OF this t0(1)] have r: "session_rel (last (t0 # map op_time ps)) (fold session_step ps []) (\<lambda>k. fold (granted k) ps None)" .
  have le: "last (t0 # map op_time ps) \<le> now" using assms(2) t0(2) last_in_set [of "t0 # map op_time ps"] by auto
  show ?thesis
    using r le assms(3,4)
    by (auto simp: session_rel_def protect_def loggedIn_def session_valid_def split: option.splits dest!: spec [of _ tok])
qed

theorem session_valid_exact_witness:
  "fst (protect 604800 \<lparr>cfSettings = undefined\<lparr>seAuth := \<lparr>auUsername = ''admin'', auPasswordHash = ''h''\<rparr>\<rparr>, cfTasks = [], cfToken = undefined\<rparr>
     (Some ''ab'') (fold session_step [SCreate 0 ''ab'', SCreate 1 ''cd'', SRemove 2 ''cd''] []))"
proof -
  let ?ps = "[SCreate 0 ''ab'', SCreate 1 ''cd'', SRemove 2 ''cd'']"
  let ?cf = "\<lparr>cfSettings = undefined\<lparr>seAuth := \<lparr>auUsername = ''admin'', auPasswordHash = ''h''\<rparr>\<rparr>, cfTasks = [], cfToken = undefined\<rparr>"
  have "sorted (map op_time ?ps)" "\<forall>p \<in> set ?ps. op_time p \<le> 604800" "AuthRequired ?cf" "''ab'' \<noteq> []"
    by (simp_all add: AuthRequired_def GetAuth_def)
  from session_valid_exact [OF this] show ?thesis by (simp add: sessionTTL_def)
qed

text \<open>Settings saved during a rebuild are not applied. The flag that merges rebuilds stays set while a round
  is working, so a save in that time starts no new round: afterwards nothing is pending or running,
  and the settings in force in the engine are not the saved ones.\<close>

theorem save_during_rebuild_lost:
  "\<exists>s. rreachable s \<and> \<not> rsPending s \<and> rsRound s = NoRound \<and> rsApplied s < rsSaved s"
proof -
  let ?s1 = "startEngineAsync (init_rebuild\<lparr>rsSaved := rsSaved init_rebuild + 1\<rparr>)"
  let ?s2 = "?s1\<lparr>rsRound := RoundWorking (rsSaved ?s1)\<rparr>"
  let ?s3 = "startEngineAsync (?s2\<lparr>rsSaved := rsSaved ?s2 + 1\<rparr>)"
  let ?s4 = "?s3\<lparr>rsRound := NoRound, rsPending := False, rsApplied := 1\<rparr>"
  have "rreachable ?s1" by (rule rr_step [OF rr_init r_save])
  then have "rreachable ?s2" by (rule rr_step) (rule r_begin, simp add: startEngineAsync_def init_rebuild_def)
  then have "rreachable ?s3" by (rule rr_step) (rule r_save)
  then have "rreachable ?s4" by (rule rr_step) (rule r_end, simp add: startEngineAsync_def init_rebuild_def)
  then show ?thesis by (rule_tac exI [of _ ?s4]) (simp add: startEngineAsync_def init_rebuild_def)
qed

end
