(* ===== verification/Offline_Tasks.thy ===== *)
theory Offline_Tasks
  imports Web_Panel Torrent
begin

text \<open>
  Offline downloads: \<open>internal/drive/offline.go\<close> on top of the torrent reader, the handlers of
  \<open>internal/webui/handler_offline.go\<close> that use it, and the file sums of \<open>internal/drive/sha1.go\<close>. The
  platform's typed calls are the record \<open>offline_api\<close>, beside the \<open>api\<close> of the file calls.
\<close>

section \<open>Results (offline.go)\<close>

record OfflineAddResult =
  oaState :: bool
  oaMessage :: string
  oaInfoHash :: string
  oaURL :: string

text \<open>The percentage of a task is passed on as it comes and kept as its text.\<close>

record OfflineTask =
  otInfoHash :: string
  otName :: string
  otSize :: i64
  otPercentDone :: string
  otStatus :: i64

record OfflineTaskPage =
  opPage :: int
  opPageCount :: int
  opCount :: int
  opTasks :: "OfflineTask list"

record OfflineQuota =
  oqCount :: int
  oqSurplus :: int
  oqUsed :: int

record 'w offline_api =
  ofAdd :: "'w \<Rightarrow> string \<Rightarrow> form \<Rightarrow> (string + OfflineAddResult list) \<times> 'w"
  ofList :: "'w \<Rightarrow> string \<Rightarrow> form \<Rightarrow> (string + OfflineTaskPage) \<times> 'w"
  ofQuota :: "'w \<Rightarrow> string \<Rightarrow> form \<Rightarrow> (string + OfflineQuota) \<times> 'w"

section \<open>Calls\<close>

definition AddOfflineTasks :: "'w offline_api \<Rightarrow> string list \<Rightarrow> string \<Rightarrow> 'w \<Rightarrow> (string + OfflineAddResult list) \<times> 'w" where
  "AddOfflineTasks oc urls saveDirID w =
     ofAdd oc w ''/open/offline/add_task_urls'' [(''urls'', join_with [CHR 0x0A] urls), (''wp_path_id'', saveDirID)]"

definition List_tasks :: "'w offline_api \<Rightarrow> int \<Rightarrow> 'w \<Rightarrow> (string + OfflineTaskPage) \<times> 'w" where
  "List_tasks oc page w = ofList oc w ''/open/offline/get_task_list'' [(''page'', format_int (max page 1))]"

definition Delete_task :: "'w api \<Rightarrow> string \<Rightarrow> bool \<Rightarrow> 'w \<Rightarrow> (string + unit) \<times> 'w" where
  "Delete_task ac infoHash deleteFiles w =
     acUnit ac w ''/open/offline/del_task''
       [(''info_hash'', infoHash), (''del_source_file'', if deleteFiles then ''1'' else ''0'')]"

definition ClearTasks :: "'w api \<Rightarrow> int \<Rightarrow> 'w \<Rightarrow> (string + unit) \<times> 'w" where
  "ClearTasks ac flag w = acUnit ac w ''/open/offline/clear_task'' [(''flag'', format_int flag)]"

definition GetQuota :: "'w offline_api \<Rightarrow> 'w \<Rightarrow> (string + OfflineQuota) \<times> 'w" where
  "GetQuota oc w = ofQuota oc w ''/open/offline/get_quota_info'' []"

datatype torrent_add_error = TorrentCancelled | TorrentBad torrent_error | TorrentDir file_error | TorrentAdd string | TorrentNoResult

definition magnet_link :: "string \<Rightarrow> string \<Rightarrow> string" where
  "magnet_link infoHash displayName = ''magnet:?xt=urn:btih:'' @ infoHash @ ''&dn='' @ query_escape displayName"

text \<open>
  \<open>AddTorrentFromData\<close>. The outer option is the fuel of the torrent reader; a panic of the reader is
  passed on (the HTTP server recovers from it).
\<close>

definition AddTorrentFromData :: "(string \<Rightarrow> string) \<Rightarrow> 'w api \<Rightarrow> 'w offline_api \<Rightarrow> bool \<Rightarrow> string \<Rightarrow> string \<Rightarrow> string \<Rightarrow> 'w \<Rightarrow>
    ((torrent_add_error, OfflineAddResult) outcome \<times> 'w) option" where
  "AddTorrentFromData sha1 ac oc cancelled torrentData torrentName savePath w =
     (if cancelled then Some (Err TorrentCancelled, w)
      else
        (case parseTorrent sha1 torrentData of
           None \<Rightarrow> None
         | Some Panic \<Rightarrow> Some (Panic, w)
         | Some (Err e) \<Rightarrow> Some (Err (TorrentBad e), w)
         | Some (Ok (infoHash, name)) \<Rightarrow>
             let displayName = (if name = [] then torrentName else name) in
             (case GetDirInfo ac savePath w of
                (Inl e, w1) \<Rightarrow> Some (Err (TorrentDir e), w1)
              | (Inr saveDir, w1) \<Rightarrow>
                  (case AddOfflineTasks oc [magnet_link infoHash displayName] (diFid saveDir) w1 of
                     (Inl e, w2) \<Rightarrow> Some (Err (TorrentAdd e), w2)
                   | (Inr [], w2) \<Rightarrow> Some (Err TorrentNoResult, w2)
                   | (Inr (r # _), w2) \<Rightarrow>
                       Some (Ok (if oaInfoHash r = [] then r\<lparr>oaInfoHash := infoHash\<rparr> else r), w2)))))"

section \<open>Handlers (handler_offline.go)\<close>

text \<open>An answer is an error status or what is sent back: how many links were accepted, and the results.\<close>

definition accepted :: "OfflineAddResult list \<Rightarrow> nat" where
  "accepted rs = length (filter oaState rs)"

definition handleOfflineAdd :: "'w api \<Rightarrow> 'w offline_api \<Rightarrow> Config \<Rightarrow> string \<Rightarrow> string \<Rightarrow> 'w \<Rightarrow>
    (int + nat \<times> OfflineAddResult list) \<times> 'w" where
  "handleOfflineAdd ac oc cf text savePath w =
     (let urls = offline_urls text in
      if urls = [] then (Inl 400, w)
      else
        (case resolveCloudDir ac cf savePath w of
           (Inl _, _, w1) \<Rightarrow> (Inl 400, w1)
         | (Inr dirID, _, w1) \<Rightarrow>
             (case AddOfflineTasks oc urls dirID w1 of
                (Inl _, w2) \<Rightarrow> (Inl 502, w2)
              | (Inr rs, w2) \<Rightarrow> (Inr (accepted rs, rs), w2))))"

definition handleOfflineTorrent :: "(string \<Rightarrow> string) \<Rightarrow> 'w api \<Rightarrow> 'w offline_api \<Rightarrow> Config \<Rightarrow> bool \<Rightarrow> string \<Rightarrow> string \<Rightarrow> string \<Rightarrow> 'w \<Rightarrow>
    ((int, nat \<times> OfflineAddResult list) outcome \<times> 'w) option" where
  "handleOfflineTorrent sha1 ac oc cf cancelled data filename savePath w =
     (if data = [] then Some (Err 400, w)
      else
        (case AddTorrentFromData sha1 ac oc cancelled data filename
                (normalizeSavePath savePath (seOfflineDir (cfSettings cf))) w of
           None \<Rightarrow> None
         | Some (Panic, w1) \<Rightarrow> Some (Panic, w1)
         | Some (Err _, w1) \<Rightarrow> Some (Err 502, w1)
         | Some (Ok r, w1) \<Rightarrow> Some (Ok (accepted [r], [r]), w1)))"

definition handleOfflineDelete :: "'w api \<Rightarrow> string \<Rightarrow> bool \<Rightarrow> 'w \<Rightarrow> int \<times> 'w" where
  "handleOfflineDelete ac infoHash deleteFiles w =
     (if infoHash = [] then (400, w)
      else (case Delete_task ac infoHash deleteFiles w of (Inl _, w1) \<Rightarrow> (502, w1) | (Inr _, w1) \<Rightarrow> (200, w1)))"

definition handleOfflineClear :: "'w api \<Rightarrow> int \<Rightarrow> 'w \<Rightarrow> int \<times> 'w" where
  "handleOfflineClear ac flag w =
     (if \<not> clear_flag_ok flag then (400, w)
      else (case ClearTasks ac flag w of (Inl _, w1) \<Rightarrow> (502, w1) | (Inr _, w1) \<Rightarrow> (200, w1)))"

text \<open>
  The two handlers that pass a reply on; the page comes as text, one that is no number counts as 0. \<open>None\<close>
  stands for the answer 502.
\<close>

definition handleOfflineTasks :: "'w offline_api \<Rightarrow> string \<Rightarrow> 'w \<Rightarrow> OfflineTaskPage option \<times> 'w" where
  "handleOfflineTasks oc page w =
     (case List_tasks oc (atoi_value page) w of (Inl _, w1) \<Rightarrow> (None, w1) | (Inr list, w1) \<Rightarrow> (Some list, w1))"

definition handleOfflineQuota :: "'w offline_api \<Rightarrow> 'w \<Rightarrow> OfflineQuota option \<times> 'w" where
  "handleOfflineQuota oc w = (case GetQuota oc w of (Inl _, w1) \<Rightarrow> (None, w1) | (Inr quota, w1) \<Rightarrow> (Some quota, w1))"

section \<open>Sums of a file (sha1.go)\<close>

text \<open>
  \<open>contents\<close> reads a file; \<open>None\<close> is any error on the way. A negative start cannot be sought; a range is
  limited to the end of the file, and empty when its length, an int64, is not positive.
\<close>

definition preid_size :: nat where "preid_size = 128 * 1024"

definition FileSHA1WithPreid :: "(string \<Rightarrow> string) \<Rightarrow> (string \<Rightarrow> string option) \<Rightarrow> string \<Rightarrow> (string \<times> string) option" where
  "FileSHA1WithPreid sha1 contents path =
     (case contents path of
        None \<Rightarrow> None
      | Some b \<Rightarrow> Some (hex_upper (sha1 b), hex_upper (sha1 (take preid_size b))))"

definition FileSHA1Partial :: "(string \<Rightarrow> string) \<Rightarrow> (string \<Rightarrow> string option) \<Rightarrow> string \<Rightarrow> int \<Rightarrow> int \<Rightarrow> string" where
  "FileSHA1Partial sha1 contents path st en =
     (case contents path of
        None \<Rightarrow> []
      | Some b \<Rightarrow>
          if st < 0 then []
          else hex_upper (sha1 (take (nat (wrap64 (wrap64 (en - st) + 1))) (drop (nat st) b))))"

text \<open>The sum of the whole range is the sum of the file.\<close>

lemma partial_of_all:
  assumes "FileSHA1WithPreid sha1 contents path = Some (full, pre)" "contents path = Some b" "length b < 2 ^ 62"
  shows "FileSHA1Partial sha1 contents path 0 (int (length b) - 1) = full"
proof -
  have "int (length b) < 2 ^ 62" using assms(3) by (metis of_nat_less_iff of_nat_numeral of_nat_power)
  then have "wrap64 (int (length b) - 1) = int (length b) - 1" "wrap64 (int (length b)) = int (length b)"
    by (simp_all add: wrap64_small)
  then show ?thesis using assms(1,2) by (simp add: FileSHA1WithPreid_def FileSHA1Partial_def)
qed

end
