(* ===== verification/Offline_Props.thy ===== *)
theory Offline_Props
  imports Offline_Tasks Torrent_Props
begin

text \<open>
  What becomes of a torrent that is added as an offline download: the link it is turned into, read back.
\<close>

section \<open>The link of a torrent\<close>

lemma hex_upper_safe: "c \<in> set (hex_upper s) \<Longrightarrow> query_safe c"
  using query_safe_upper_hex of_char_div_16 by (auto simp: hex_upper_def upper_hex_def [symmetric] Let_def)

lemma parseTorrent_hash: "parseTorrent sha1 data = Some (Ok (hash, name)) \<Longrightarrow> \<exists>b. hash = hex_upper b"
  by (auto simp: parseTorrent_def sha1Hex_def Let_def split: if_splits option.splits outcome.splits)

lemma magnet_query:
  assumes "\<forall>c \<in> set hash. query_safe c"
  shows "url_raw_query ok (magnet_link hash name) = Some (''xt=urn:btih:'' @ hash @ ''&dn='' @ query_escape name)"
proof -
  let ?q = "''xt=urn:btih:'' @ hash @ ''&dn='' @ query_escape name"
  have c: "\<forall>c \<in> set (magnet_link hash name). c \<noteq> CHR ''#'' \<and> \<not> is_ctl c"
    using assms query_safe_not query_escape_chars [of _ name] by (fastforce simp: magnet_link_def is_ctl_def)
  then have "cut_at (CHR ''#'') (magnet_link hash name) = (magnet_link hash name, [])" by (intro cut_at_absent) auto
  moreover have "\<not> list_ex is_ctl (magnet_link hash name)" using c by (simp add: list_ex_iff)
  moreover have "get_scheme 0 (magnet_link hash name) (magnet_link hash name) = Some (''magnet'', CHR ''?'' # ?q)"
    by (simp add: magnet_link_def is_letter_def digit_val_def Let_def)
  moreover have "cut_at (CHR ''?'') (CHR ''?'' # ?q) = ([], ?q)" by (simp add: cut_at_def)
  moreover have "magnet_link hash name \<noteq> ''*''" by (simp add: magnet_link_def)
  ultimately show ?thesis by (simp add: url_raw_query_def)
qed

lemma magnet_params:
  assumes "\<forall>c \<in> set hash. query_safe c"
  shows "query_get (''xt=urn:btih:'' @ hash @ ''&dn='' @ query_escape name) ''xt'' = ''urn:btih:'' @ hash"
    "query_get (''xt=urn:btih:'' @ hash @ ''&dn='' @ query_escape name) ''dn'' = name"
proof -
  let ?a = "''xt=urn:btih:'' @ hash" and ?b = "''dn='' @ query_escape name"
  have h: "c \<in> set hash \<Longrightarrow> c \<notin> {CHR ''%'', CHR ''+'', CHR ''&'', CHR ''='', CHR '';'', CHR ''#''}" for c
    using assms query_safe_not(1) by fastforce
  have n: "c \<in> set (query_escape name) \<Longrightarrow> c \<notin> {CHR ''&'', CHR '';''}" for c
    using query_escape_chars [of c name] query_safe_not(1) by fastforce
  have "split_on (CHR ''&'') (?a @ CHR ''&'' # ?b) = ?a # split_on (CHR ''&'') ?b"
    using h by (intro split_on_append_sep) auto
  also have "split_on (CHR ''&'') ?b = [?b]" using n by (intro split_on_no_sep) auto
  finally have s: "split_on (CHR ''&'') (?a @ CHR ''&'' # ?b) = [?a, ?b]" .
  have "unescape True (''urn:btih:'' @ hash) = Some (''urn:btih:'' @ hash)" using h by (intro unescape_plain) auto
  moreover have "cut_at (CHR ''='') ?a = (''xt'', ''urn:btih:'' @ hash)" using cut_at_first [of "CHR ''=''" "''xt''"] by simp
  moreover have "CHR '';'' \<notin> set ?a" using h by auto
  ultimately have a: "query_pair ?a = Some (''xt'', ''urn:btih:'' @ hash)" by (simp add: query_pair_def)
  have "cut_at (CHR ''='') ?b = (''dn'', query_escape name)" using cut_at_first [of "CHR ''=''" "''dn''"] by simp
  moreover have "CHR '';'' \<notin> set ?b" using n by auto
  ultimately have b: "query_pair ?b = Some (''dn'', name)" by (simp add: query_pair_def unescape_query_escape)
  show "query_get (''xt=urn:btih:'' @ hash @ ''&dn='' @ query_escape name) ''xt'' = ''urn:btih:'' @ hash"
    "query_get (''xt=urn:btih:'' @ hash @ ''&dn='' @ query_escape name) ''dn'' = name"
    using s a b by (simp_all add: query_get_def List.map_filter_simps)
qed

lemma magnet_one_line:
  assumes "\<forall>c \<in> set hash. query_safe c"
  shows "join_with [CHR 0x0A] [magnet_link hash name] = magnet_link hash name" "CHR 0x0A \<notin> set (magnet_link hash name)"
  using assms query_safe_not(1) query_escape_chars [of _ name] by (fastforce simp: magnet_link_def)+

text \<open>A torrent becomes one link that says what the torrent said. Whatever torrent the reader accepts, adding it submits
  exactly one link to the directory asked for; read back as a URL, its \<open>xt\<close> is the hash of the torrent and its \<open>dn\<close> is
  the torrent's name byte for byte (the file name when it has none), whatever bytes are in it; and the answer's
  hash, if the server left it out, is the torrent's.\<close>

theorem torrent_link_roundtrip:
  assumes "parseTorrent sha1 data = Some (Ok (hash, name))" "GetDirInfo ac savePath w = (Inr dir, w1)"
    and "\<forall>w f. \<exists>r rs w'. ofAdd oc w ''/open/offline/add_task_urls'' f = (Inr (r # rs), w')"
  shows "\<exists>link q r rs w2. ofAdd oc w1 ''/open/offline/add_task_urls'' [(''urls'', link), (''wp_path_id'', diFid dir)] = (Inr (r # rs), w2) \<and>
    AddTorrentFromData sha1 ac oc False data file savePath w =
      Some (Ok (r\<lparr>oaInfoHash := if oaInfoHash r = [] then hash else oaInfoHash r\<rparr>), w2) \<and>
    CHR 0x0A \<notin> set link \<and> url_raw_query auth link = Some q \<and> query_get q ''xt'' = ''urn:btih:'' @ hash \<and>
    query_get q ''dn'' = (if name = [] then file else name)"
proof -
  let ?name = "if name = [] then file else name"
  let ?link = "magnet_link hash ?name" and ?q = "''xt=urn:btih:'' @ hash @ ''&dn='' @ query_escape ?name"
  have h: "\<forall>c \<in> set hash. query_safe c" using parseTorrent_hash [OF assms(1)] hex_upper_safe by auto
  obtain r rs w2 where a: "ofAdd oc w1 ''/open/offline/add_task_urls'' [(''urls'', ?link), (''wp_path_id'', diFid dir)] = (Inr (r # rs), w2)"
    using assms(3) by blast
  then have "AddTorrentFromData sha1 ac oc False data file savePath w =
      Some (Ok (r\<lparr>oaInfoHash := if oaInfoHash r = [] then hash else oaInfoHash r\<rparr>), w2)"
    using assms(1,2) by (simp add: AddTorrentFromData_def AddOfflineTasks_def Let_def)
  then show ?thesis
    using a magnet_one_line(2) [OF h] magnet_query [OF h] magnet_params [OF h] by (intro exI conjI) auto
qed

definition offline_sample :: "unit offline_api" where
  "offline_sample =
     \<lparr>ofAdd = (\<lambda>w p f. (Inr [\<lparr>oaState = True, oaMessage = [], oaInfoHash = [], oaURL = []\<rparr>], w)),
      ofList = (\<lambda>w p f. (Inl [], w)), ofQuota = (\<lambda>w p f. (Inl [], w))\<rparr>"

theorem torrent_link_roundtrip_witness:
  "\<exists>link q. url_raw_query (\<lambda>a. True) link = Some q \<and> query_get q ''xt'' = ''urn:btih:6436'' \<and> query_get q ''dn'' = ''a.mkv''"
proof -
  let ?data = "bencode (BDict sample_torrent)"
  have i: "map_of sample_torrent ''info'' = Some (BDict [(''length'', BInt 5), (''name'', BStr ''a.mkv'')])"
    by (simp add: sample_torrent_def)
  have "length (?data @ []) < 100" by code_simp
  then have l: "length (?data @ []) < 2 ^ 62" by simp
  have "hex_upper (take 2 (bencode (BDict [(''length'', BInt 5), (''name'', BStr ''a.mkv'')]))) = ''6436''" by code_simp
  then have p: "parseTorrent (\<lambda>b. take 2 b) ?data = Some (Ok (''6436'', ''a.mkv''))"
    using parse_encoded [OF i l, of "\<lambda>b. take 2 b"] by (simp add: name_in_def)
  have d: "GetDirInfo (paging_api []) [] () = (Inr \<lparr>diFid = ''0'', diName = [], diFileCount = 0, diFolderCount = 0\<rparr>, ())"
    by (simp add: GetDirInfo_def)
  from torrent_link_roundtrip [OF p d, of offline_sample "''a.torrent''" "\<lambda>a. True"] show ?thesis
    by (auto simp: offline_sample_def)
qed

end
