(* ===== verification/Panel_Settings.thy ===== *)
theory Panel_Settings
  imports Web_Panel Drive_Client Local_Cache Store_Activity
begin

text \<open>
  The handlers of \<open>internal/webui\<close> that join several components: saving the settings
  (\<open>handler_config.go\<close>), the cache list (\<open>handler_cache.go\<close>), the overview (\<open>handler_events.go\<close>),
  the task list and the activity list (\<open>handler_task.go\<close>); and the start of the program
  (\<open>cmd/115tools/main.go\<close>). A handler's result is its status and the data it sends; reading requests
  and encoding JSON is left out.
\<close>

section \<open>Saving the settings (handler_config.go)\<close>

text \<open>
  What the handler changes: the client with the configuration and the tokens, the cache and its disk, the
  error banner and the rebuild in the background. \<open>pnCache = None\<close> is a panel without cache.
\<close>

record panel =
  pnClient :: client
  pnCache :: "cache option"
  pnDisk :: disk
  pnInitError :: string
  pnRebuild :: rebuild_sys

definition nano_day :: int where "nano_day = 24 * 3600000000000"

text \<open>\<open>time.Duration(days) * 24 * time.Hour\<close>: the product wraps around.\<close>

definition retention_of :: "int \<Rightarrow> int" where
  "retention_of days = wrap64 (days * nano_day)"

text \<open>The cache after the change; a directory that cannot be made leaves the old one.\<close>

definition apply_cache_settings :: "string \<Rightarrow> Editable \<Rightarrow> cache \<Rightarrow> disk \<Rightarrow> cache \<times> disk" where
  "apply_cache_settings oldCacheDir cur ca k =
     (let ca1 = SetRetention (retention_of (edCacheRetentionDays cur)) ca in
      if edCacheDir cur \<noteq> oldCacheDir then (case SetDir (edCacheDir cur) ca1 k of (_, ca2, k1) \<Rightarrow> (ca2, k1))
      else (ca1, k))"

definition handleSaveSettings :: "'w net \<Rightarrow> (string \<Rightarrow> userInfoData option) \<Rightarrow> (string \<Rightarrow> string option) \<Rightarrow>
    Editable \<Rightarrow> panel \<Rightarrow> 'w \<Rightarrow> int \<times> panel \<times> 'w" where
  "handleSaveSettings ne decode bcrypt req p w =
     (let oldCacheDir = seCacheDir (cfSettings (clConf (pnClient p)));
          verified = (if edRefreshToken req \<noteq> []
                      then (case Verify ne decode (edRefreshToken req) (pnClient p) w of
                              (Inl _, cl1, w1) \<Rightarrow> (None, cl1, w1)
                            | (Inr _, cl1, w1) \<Rightarrow> (Some (req\<lparr>edRefreshToken := []\<rparr>), cl1, w1))
                      else (Some req, pnClient p, w))
      in case verified of
           (None, cl1, w1) \<Rightarrow> (401, p\<lparr>pnClient := cl1\<rparr>, w1)
         | (Some req1, cl1, w1) \<Rightarrow>
             (case Update (neSave ne) bcrypt (neLower ne) req1 (clConf cl1) of
                (Some _, cf) \<Rightarrow> (500, p\<lparr>pnClient := cl1\<lparr>clConf := cf\<rparr>\<rparr>, w1)
              | (None, cf) \<Rightarrow>
                  let p1 = p\<lparr>pnClient := cl1\<lparr>clConf := cf\<rparr>, pnInitError := [],
                             pnRebuild := (pnRebuild p)\<lparr>rsSaved := rsSaved (pnRebuild p) + 1\<rparr>\<rparr>;
                      p2 = (case pnCache p of
                              None \<Rightarrow> p1
                            | Some ca \<Rightarrow>
                                (case apply_cache_settings oldCacheDir (Snapshot cf) ca (pnDisk p) of
                                   (ca1, k1) \<Rightarrow> p1\<lparr>pnCache := Some ca1, pnDisk := k1\<rparr>))
                  in (200, if Status_missing cf \<noteq> [] then p2 else p2\<lparr>pnRebuild := startEngineAsync (pnRebuild p2)\<rparr>, w1)))"

section \<open>The cache (handler_cache.go)\<close>

definition handleCacheList :: "cache option \<Rightarrow> disk \<Rightarrow> Item list \<times> nat \<times> int" where
  "handleCacheList co k =
     (let items = (case co of None \<Rightarrow> [] | Some ca \<Rightarrow> List_items ca k)
      in (items, length items, fold (\<lambda>it total. wrap64 (total + imSize it)) items 0))"

definition handleCacheDelete :: "string list \<Rightarrow> cache option \<Rightarrow> disk \<Rightarrow> (int + nat) \<times> disk" where
  "handleCacheDelete pickCodes co k =
     (if pickCodes = [] then (Inl 400, k)
      else (case co of
              None \<Rightarrow> (Inr 0, k)
            | Some ca \<Rightarrow> (case Delete pickCodes ca k of (n, k1) \<Rightarrow> (Inr n, k1))))"

section \<open>The overview and the lists (handler_events.go, handler_task.go)\<close>

record overview =
  ovConfigReady :: bool
  ovMissing :: "string list"
  ovInitError :: string
  ovTasks :: "TaskRuntime list"

definition overviewRef :: "int \<Rightarrow> string \<Rightarrow> 'w engine \<Rightarrow> overview" where
  "overviewRef now initErr e =
     (let missing = Status_missing (egConf e) in
      \<lparr>ovConfigReady = (missing = []), ovMissing = missing, ovInitError = initErr, ovTasks = Engine_Status now e\<rparr>)"

definition zero_TaskRuntime :: TaskRuntime where
  "zero_TaskRuntime =
     \<lparr>trID = [], trName = [], trRunning = False, trInitializing = False, trQueued = False, trCompleted = 0, trTotal = 0,
      trCurrent = [], trLastRun = None, trNextCron = None\<rparr>"

text \<open>\<open>handleListTasks\<close>: every stored task with the state of its runner, all zero when it has none.\<close>

definition handleListTasks :: "int \<Rightarrow> 'w engine \<Rightarrow> (Task \<times> TaskRuntime) list" where
  "handleListTasks now e =
     (let runtime = map_of (rev (map (\<lambda>rt. (trID rt, rt)) (Engine_Status now e)))
      in map (\<lambda>t. (t, case runtime (tkID t) of Some rt \<Rightarrow> rt | None \<Rightarrow> zero_TaskRuntime)) (ListTasks (egConf e)))"

definition handleStartTask :: "string \<Rightarrow> 'w engine \<Rightarrow> int \<times> 'w engine" where
  "handleStartTask i e = (case StartTask i e of (Some _, e1) \<Rightarrow> (503, e1) | (None, e1) \<Rightarrow> (202, e1))"

definition handleStopTask :: "string \<Rightarrow> 'w engine \<Rightarrow> int \<times> 'w engine" where
  "handleStopTask i e = (202, StopTask i e)"

text \<open>\<open>handleActivity\<close> on the texts of its parameters.\<close>

definition handleActivity :: "'b log_bolt \<Rightarrow> codec \<Rightarrow> 'b Store \<Rightarrow> string \<Rightarrow> string \<Rightarrow> string \<Rightarrow> Event list option" where
  "handleActivity lb cd s taskID offsetText limitText =
     (let offset = (if atoi_value offsetText < 0 then 0 else atoi_value offsetText)
      in List_events lb cd s taskID offset (atoi_value limitText))"

definition handleActivityClear :: "'b log_bolt \<Rightarrow> codec \<Rightarrow> ctx \<Rightarrow> 'b Store \<Rightarrow> string \<Rightarrow> (int \<times> 'b Store) option" where
  "handleActivityClear lb cd c s taskID =
     (if taskID = [] then Some (400, s)
      else (case DeleteTask lb cd c s taskID of
              None \<Rightarrow> None
            | Some ((None, _), s1) \<Rightarrow> Some (500, s1)
            | Some ((Some _, _), s1) \<Rightarrow> Some (200, s1)))"

text \<open>\<open>handleMe\<close>: whether a login is needed, and whether the caller may go on.\<close>

definition handleMe :: "int \<Rightarrow> Config \<Rightarrow> string option \<Rightarrow> sessionStore \<Rightarrow> (bool \<times> bool) \<times> sessionStore" where
  "handleMe now cf cookie s =
     (if AuthRequired cf then (case loggedIn now cookie s of (b, s1) \<Rightarrow> ((True, b), s1)) else ((False, True), s))"

section \<open>Starting (main.go)\<close>

datatype bootstrap_error = ConfigIncomplete "string list" | VerifyFailed "client_error option" | EngineFailed

text \<open>\<open>bootstrap\<close>: client and engine share the configuration and the world.\<close>

definition bootstrap :: "'w net \<Rightarrow> (string \<Rightarrow> userInfoData option) \<Rightarrow> 'w host \<Rightarrow> shared \<Rightarrow> ctx \<Rightarrow> client \<Rightarrow> 'w engine \<Rightarrow>
    (bootstrap_error option \<times> client \<times> 'w engine) option" where
  "bootstrap ne decode ho sh c cl e =
     (let missing = Status_missing (clConf cl) in
      if missing \<noteq> [] then Some (Some (ConfigIncomplete missing), cl, e)
      else
        (case Verify ne decode [] cl (egWorld e) of
           (Inl err, cl1, w1) \<Rightarrow> Some (Some (VerifyFailed err), cl1, e\<lparr>egWorld := w1, egConf := clConf cl1\<rparr>)
         | (Inr _, cl1, w1) \<Rightarrow>
             (case EnsureRunning ho sh c (e\<lparr>egWorld := w1, egConf := clConf cl1\<rparr>) of
                None \<Rightarrow> None
              | Some (ok, e1) \<Rightarrow> Some (if ok then None else Some EngineFailed, cl1, e1))))"

text \<open>
  \<open>setupLogging\<close>: the level that is written out and the level from which messages are collected, for the
  upper-case text of the variable. Levels are slog's: -4, 0, 4 and 8.
\<close>

definition setupLogging :: "string \<Rightarrow> int \<times> int" where
  "setupLogging v =
     (let lvl = (if v = ''DEBUG'' then -4 else if v = ''WARN'' \<or> v = ''WARNING'' then 4 else if v = ''ERROR'' then 8 else 0)
      in (lvl, if lvl > 4 then lvl else 4))"

text \<open>The cache directory of the program: the configured one, else \<open>cache\<close> below the data directory.\<close>

definition start_cache :: "string \<Rightarrow> Settings \<Rightarrow> cache" where
  "start_cache dataDir s =
     New_cache (if seCacheDir s = [] then path_join dataDir ''cache'' else seCacheDir s) (retention_of (seCacheRetentionDays s))"

end
