(* ===== verification/Panel_Props.thy ===== *)
theory Panel_Props
  imports Panel_Settings Cache_Props
begin

text \<open>
  What saving the settings does to the tokens, and to the cache when the retention is large.
\<close>

section \<open>The client leaves settings and tasks alone\<close>

definition same_settings :: "client \<Rightarrow> client \<Rightarrow> bool" where
  "same_settings cl cl' \<longleftrightarrow>
     cfSettings (clConf cl') = cfSettings (clConf cl) \<and> cfTasks (clConf cl') = cfTasks (clConf cl)"

lemma same_settings_refl [simp]: "same_settings cl cl"
  by (simp add: same_settings_def)

lemma same_settings_trans [trans]: "same_settings a b \<Longrightarrow> same_settings b c \<Longrightarrow> same_settings a c"
  by (simp add: same_settings_def)

lemma SaveToken_settings:
  "SaveToken save now access rt ex cf = (r, cf') \<Longrightarrow> cfSettings cf' = cfSettings cf \<and> cfTasks cf' = cfTasks cf"
  by (auto simp: SaveToken_def persistLocked_def Let_def)

lemma refresh_answer_settings:
  "refresh_answer ne over cl rw = (r, cl', w') \<Longrightarrow> same_settings cl cl'"
  by (cases rw; cases "fst rw")
     (auto simp: refresh_answer_def same_settings_def backoff_def Let_def split: if_splits prod.splits option.splits
        dest: SaveToken_settings)

lemma refreshToken_settings:
  "refreshToken ne force over cl w = (r, cl', w') \<Longrightarrow> same_settings cl cl'"
  by (auto simp: refreshToken_def Let_def split: if_splits dest: refresh_answer_settings)

text \<open>What every refresh with the stored token keeps, a request and the query of the account keep.\<close>

lemma request_loop_keeps:
  assumes "\<And>c. R c c" and trans: "\<And>a b c. R a b \<Longrightarrow> R b c \<Longrightarrow> R a c"
    and step: "\<And>force cl w r cl' w'. refreshToken ne force [] cl w = (r, cl', w') \<Longrightarrow> R cl cl'"
  shows "request_loop ne meth path params refreshed left cl w = (r, cl', w') \<Longrightarrow> R cl cl'"
proof (induction left arbitrary: refreshed cl w)
  case 0
  then show ?case
    by (subst (asm) request_loop.simps)
       (auto simp: Let_def assms(1) split: prod.splits bool.splits sum.splits api_reply.splits dest: step)
next
  case (Suc n)
  obtain b w1 where l: "neLimiter ne w = (b, w1)" by fastforce
  obtain q cl1 w2 where f: "refreshToken ne False [] cl w1 = (q, cl1, w2)" by (metis prod_cases3)
  note s = step [OF f]
  obtain a w3 where d: "neDo ne w2 (tdAccessToken (cfToken (clConf cl1))) meth path (removeEmpty params) = (a, w3)" by fastforce
  consider "cl' = cl" | "cl' = cl1"
    | w4 where "request_loop ne meth path params refreshed n cl1 w4 = (r, cl', w')"
    | e w4 where "refreshToken ne True [] cl1 w3 = (Inl e, cl', w4)"
    | cl2 w4 where "refreshToken ne True [] cl1 w3 = (Inr (), cl2, w4)" "request_loop ne meth path params True n cl2 w4 = (r, cl', w')"
    using Suc.prems l f d
    by (subst (asm) request_loop.simps) (auto simp: Let_def split: bool.splits sum.splits api_reply.splits if_splits prod.splits)
  then show ?case
  proof cases
    case 3
    show ?thesis by (rule trans [OF s Suc.IH [OF 3]])
  next
    case 4
    show ?thesis by (rule trans [OF s step [OF 4]])
  next
    case 5
    show ?thesis by (rule trans [OF s trans [OF step [OF 5(1)] Suc.IH [OF 5(2)]]])
  qed (use s assms(1) in simp_all)
qed

lemma GetUserInfo_keeps:
  assumes "\<And>c. R c c" "\<And>a b c. R a b \<Longrightarrow> R b c \<Longrightarrow> R a c"
    and "\<And>force cl w r cl' w'. refreshToken ne force [] cl w = (r, cl', w') \<Longrightarrow> R cl cl'"
    and "GetUserInfo ne dec cl w = (r, cl', w')"
  shows "R cl cl'"
proof -
  obtain q w1 where l: "request_loop ne ''GET'' ''/open/user/info'' [] False maxRetries cl w = (q, cl', w1)"
    using assms(4) by (auto simp: GetUserInfo_def doRequest_def request_def split: prod.splits sum.splits if_splits option.splits)
  show ?thesis by (rule request_loop_keeps [where R = R, OF _ _ _ l]) (fact assms(1-3))+
qed

lemma GetUserInfo_settings: "GetUserInfo ne dec cl w = (r, cl', w') \<Longrightarrow> same_settings cl cl'"
  by (rule GetUserInfo_keeps [of same_settings ne dec cl w r cl' w'])
     (auto intro: same_settings_trans dest: refreshToken_settings)

lemma Verify_settings: "Verify ne dec over cl w = (r, cl', w') \<Longrightarrow> same_settings cl cl'"
  by (auto simp: Verify_def split: if_splits prod.splits sum.splits
      dest: GetUserInfo_settings refreshToken_settings intro: same_settings_trans)

section \<open>Where a refresh token comes from\<close>

text \<open>
  Issued by the platform: the new token of some successful reply to a refresh. Or kept from the form: the platform accepted
  that token in a refresh and sent no new one, the fallback of \<open>auth.go\<close>.
\<close>

definition issued :: "'w net \<Rightarrow> string \<Rightarrow> bool" where
  "issued ne rt \<longleftrightarrow> rt \<noteq> [] \<and> (\<exists>w t code msg access ex. fst (neRefresh ne w t) = RefreshReply 1 code msg access ex rt)"

definition accepted_bare :: "'w net \<Rightarrow> string \<Rightarrow> bool" where
  "accepted_bare ne rt \<longleftrightarrow> rt \<noteq> [] \<and> (\<exists>w code msg access ex. fst (neRefresh ne w rt) = RefreshReply 1 code msg access ex [])"

definition granted_token :: "'w net \<Rightarrow> string \<Rightarrow> string \<Rightarrow> bool" where
  "granted_token ne form rt \<longleftrightarrow> issued ne rt \<or> rt = form \<and> accepted_bare ne form"

abbreviation stored_token :: "client \<Rightarrow> string" where "stored_token cl \<equiv> tdRefreshToken (cfToken (clConf cl))"

lemma SaveToken_token:
  "SaveToken save now access rt ex cf = (r, cf') \<Longrightarrow>
    tdRefreshToken (cfToken cf') = (if rt \<noteq> [] then rt else tdRefreshToken (cfToken cf))"
  by (auto simp: SaveToken_def persistLocked_def Let_def)

lemma refresh_answer_token:
  assumes "refresh_answer ne over cl (neRefresh ne w rt) = (r, cl', w')" "over \<noteq> [] \<Longrightarrow> rt = over"
  shows "(r = Inr () \<and> over \<noteq> [] \<longrightarrow> granted_token ne over (stored_token cl')) \<and>
    (stored_token cl' = stored_token cl \<or> granted_token ne over (stored_token cl'))"
proof -
  obtain rep w1 where n: "neRefresh ne w rt = (rep, w1)" by fastforce
  show ?thesis
  proof (cases "\<exists>code msg access ex new. rep = RefreshReply 1 code msg access ex new")
    case False
    then show ?thesis using assms(1) n
      by (cases rep) (auto simp: refresh_answer_def backoff_def split: if_splits)
  next
    case True
    then obtain code msg access ex new where rep: "rep = RefreshReply 1 code msg access ex new" by blast
    let ?cl = "cl\<lparr>clNextAllowed := None, clDeadReported := False\<rparr>"
    let ?rt = "if new \<noteq> [] then new else if over \<noteq> [] then over else stored_token cl"
    obtain e cf where s: "SaveToken (neSave ne) (neNow ne w1) access ?rt ex (clConf cl) = (e, cf)" by fastforce
    then have t: "stored_token cl' = ?rt"
      using assms(1) n rep SaveToken_token [OF s] by (auto simp: refresh_answer_def Let_def split: option.splits)
    have i: "new \<noteq> [] \<Longrightarrow> issued ne new" "new = [] \<Longrightarrow> over \<noteq> [] \<Longrightarrow> accepted_bare ne over"
      using n rep assms(2) unfolding issued_def accepted_bare_def by (metis fst_conv)+
    show ?thesis using t i by (auto simp: granted_token_def)
  qed
qed

lemma refreshToken_token:
  assumes "refreshToken ne force over cl w = (r, cl', w')"
  shows "stored_token cl' = stored_token cl \<or> granted_token ne over (stored_token cl')"
  using assms refresh_answer_token [of ne over cl w] by (auto simp: refreshToken_def Let_def split: if_splits)

lemma refreshToken_tried:
  assumes "refreshToken ne True over cl w = (Inr u, cl', w')" "over \<noteq> []"
  shows "granted_token ne over (stored_token cl')"
  using assms refresh_answer_token [of ne over cl w over] by (auto simp: refreshToken_def Let_def split: if_splits)

lemma granted_stored: "granted_token ne [] rt \<longleftrightarrow> issued ne rt"
  by (auto simp: granted_token_def accepted_bare_def)

lemma GetUserInfo_token:
  assumes "GetUserInfo ne dec cl w = (r, cl', w')"
  shows "stored_token cl' = stored_token cl \<or> issued ne (stored_token cl')"
proof (rule GetUserInfo_keeps [where R = "\<lambda>c c'. stored_token c' = stored_token c \<or> issued ne (stored_token c')", OF _ _ _ assms])
  show "stored_token c' = stored_token c \<or> issued ne (stored_token c')"
    if "refreshToken ne force [] c w = (r, c', w')" for force c w r c' w'
    using refreshToken_token [OF that] by (simp add: granted_stored)
qed auto

text \<open>After a token of the form was tried out, the stored one is the old one or a granted one; if all went well, a granted one.\<close>

lemma Verify_token:
  assumes "Verify ne dec form cl w = (r, cl', w')" "form \<noteq> []"
  shows "granted_token ne form (stored_token cl') \<or> stored_token cl' = stored_token cl \<and> (\<exists>e. r = Inl e)"
proof -
  obtain q cl1 w1 where f: "refreshToken ne True form cl w = (q, cl1, w1)" by (metis prod_cases3)
  show ?thesis
  proof (cases q)
    case (Inl e)
    then show ?thesis using assms f refreshToken_token [OF f] by (auto simp: Verify_def)
  next
    case (Inr u)
    have "granted_token ne form (stored_token cl1)" by (rule refreshToken_tried [OF f [unfolded Inr] assms(2)])
    moreover have "GetUserInfo ne dec cl1 w1 = (r, cl', w')" using assms f Inr by (simp add: Verify_def)
    ultimately show ?thesis using GetUserInfo_token [of ne dec cl1 w1 r cl' w'] by (auto simp: granted_token_def)
  qed
qed

section \<open>Updating the settings\<close>

lemma Update_fields:
  assumes "Update save bcrypt ul e c = (None, c')"
  shows "seCacheDir (cfSettings c') = edCacheDir e" "seStrmURL (cfSettings c') = edStrmURL e" "seTempDir (cfSettings c') = edTempDir e"
    "0 < edCacheRetentionDays e \<Longrightarrow> seCacheRetentionDays (cfSettings c') = edCacheRetentionDays e"
  using assms by (auto simp: Update_def persistLocked_def normalizeLocked_def Let_def split: if_splits option.splits)

lemma Update_token:
  "Update save bcrypt ul e c = (r, c') \<Longrightarrow> edRefreshToken e = [] \<Longrightarrow> cfToken c' = cfToken c"
  by (auto simp: Update_def persistLocked_def normalizeLocked_def Let_def split: if_splits option.splits)

section \<open>Saving\<close>

text \<open>C35. A new refresh token in the form is tried out before anything is saved. The tokens kept afterwards are those that trying
  it out left, whether or not the rest is saved, and the form does not overwrite them: when it went well, the stored
  refresh token is one that the platform issued, or the form's own only where the platform accepted it in a refresh and sent
  no new one; the old token is gone. When it fails, at the refresh or at the query of the account after
  it, the answer is 401 and settings, tasks, cache, banner and engine are unchanged, but a refresh that had succeeded has
  already replaced the stored tokens.\<close>

theorem save_settings_token:
  assumes "handleSaveSettings ne decode bcrypt req p w = (st, p', w')" "edRefreshToken req \<noteq> []"
    and "Verify ne decode (edRefreshToken req) (pnClient p) w = (r, cl1, w1)"
  shows "w' = w1 \<and> cfToken (clConf (pnClient p')) = cfToken (clConf cl1) \<and>
    (case r of
       Inl _ \<Rightarrow> st = 401 \<and> p' = p\<lparr>pnClient := cl1\<rparr> \<and>
         cfSettings (clConf cl1) = cfSettings (clConf (pnClient p)) \<and> cfTasks (clConf cl1) = cfTasks (clConf (pnClient p)) \<and>
         (stored_token (pnClient p') = stored_token (pnClient p) \<or>
          granted_token ne (edRefreshToken req) (stored_token (pnClient p')))
     | Inr _ \<Rightarrow> granted_token ne (edRefreshToken req) (stored_token (pnClient p')) \<and>
         (st = 500 \<or> st = 200 \<and> seStrmURL (cfSettings (clConf (pnClient p'))) = edStrmURL req \<and>
           seTempDir (cfSettings (clConf (pnClient p'))) = edTempDir req))"
proof (cases r)
  case (Inl e)
  then show ?thesis
    using assms Verify_settings [OF assms(3)] Verify_token [OF assms(3,2)]
    by (auto simp: handleSaveSettings_def same_settings_def Let_def)
next
  case (Inr u)
  have g: "granted_token ne (edRefreshToken req) (stored_token cl1)" using Verify_token [OF assms(3,2)] Inr by simp
  obtain err cf where u: "Update (neSave ne) bcrypt (neLower ne) (req\<lparr>edRefreshToken := []\<rparr>) (clConf cl1) = (err, cf)" by fastforce
  then have t: "cfToken cf = cfToken (clConf cl1)" by (rule Update_token) simp
  show ?thesis
  proof (cases err)
    case None
    then show ?thesis
      using assms Inr u t g Update_fields [OF u [unfolded None]]
      by (auto simp: handleSaveSettings_def startEngineAsync_def Let_def split: option.splits prod.splits if_splits)
  next
    case (Some e)
    then show ?thesis using assms Inr u t g by (auto simp: handleSaveSettings_def Let_def)
  qed
qed

text \<open>A platform that answers a refresh with a token of its own and everything else with empty data.\<close>

definition kind_net :: "unit net" where
  "kind_net =
     \<lparr>neNow = (\<lambda>w. 1000), neCancelled = (\<lambda>w. False), neLimiter = (\<lambda>w. (True, w)), neSleep = (\<lambda>w n. (True, w)),
      neRefresh = (\<lambda>w rt. (RefreshReply 1 0 [] ''acc'' 7200 ''long'', w)),
      neDo = (\<lambda>w tok m p f. (ApiReply 200 True 0 [] ''null'', w)), neSave = (\<lambda>cf. True), neLower = (\<lambda>s. s)\<rparr>"

definition blank_config :: Config where
  "blank_config =
     \<lparr>cfSettings = \<lparr>seStrmURL = [], seTempDir = [], seCacheDir = ''/app/cache'', seOfflineDir = [], seCacheRetentionDays = 7,
        seVideoExts = [], seUploadExclude = [], seAuth = \<lparr>auUsername = [], auPasswordHash = []\<rparr>\<rparr>,
      cfTasks = [], cfToken = \<lparr>tdAccessToken = [], tdRefreshToken = ''old'', tdExpireAt = 0\<rparr>\<rparr>"

definition form_with :: "string \<Rightarrow> int \<Rightarrow> Editable" where
  "form_with token days = (Snapshot blank_config)\<lparr>edRefreshToken := token, edCacheRetentionDays := days\<rparr>"

definition sample_panel :: panel where
  "sample_panel =
     \<lparr>pnClient = NewClient blank_config, pnCache = Some (New_cache ''/app/cache'' 100),
      pnDisk = sample_disk\<lparr>dkRoots := [(''/app/cache'', [(''abc1'', CDir \<lparr>cdMtime = 50, cdEntries = [(''a.mkv'', Some ''x'')]\<rparr>)])]\<rparr>,
      pnInitError = [], pnRebuild = init_rebuild\<rparr>"

theorem save_settings_token_witness:
  "\<exists>st p' w'. handleSaveSettings kind_net (\<lambda>d. None) (\<lambda>pw. None) (form_with ''short'' 7) sample_panel () = (st, p', w') \<and>
     tdRefreshToken (cfToken (clConf (pnClient p'))) = ''long''"
proof -
  obtain cl1 u where v: "Verify kind_net (\<lambda>d. None) ''short'' (NewClient blank_config) () = (Inr u, cl1, ())"
    "tdRefreshToken (cfToken (clConf cl1)) = ''long''"
    by (simp add: Verify_def refreshToken_def refresh_answer_def GetUserInfo_def doRequest_def request_def maxRetries_def
        numeral_3_eq_3 request_loop.simps kind_net_def NewClient_def blank_config_def SaveToken_def persistLocked_def
        refreshAhead_def isTokenExpired_def Let_def)
  obtain st p' w' where h: "handleSaveSettings kind_net (\<lambda>d. None) (\<lambda>pw. None) (form_with ''short'' 7) sample_panel () = (st, p', w')"
    by (metis prod_cases3)
  have "edRefreshToken (form_with ''short'' 7) = ''short''" by (simp add: form_with_def)
  moreover have "pnClient sample_panel = NewClient blank_config" by (simp add: sample_panel_def)
  ultimately have "cfToken (clConf (pnClient p')) = cfToken (clConf cl1)"
    using save_settings_token [OF h, of "Inr u" cl1 "()"] v(1) by simp
  then show ?thesis using h v(2) by auto
qed

section \<open>A retention that is too large\<close>

lemma sweep_all:
  assumes "caDir c \<noteq> []" "dkRemoveOk k" "\<forall>pc d. (pc, CDir d) \<in> set (root_entries k (caDir c)) \<longrightarrow> cdMtime d < now - caRetention c"
  shows "root_entries (sweep now c k) (caDir c) = []"
proof (cases "map_of (dkRoots k) (caDir c)")
  case None
  then show ?thesis by (simp add: sweep_def root_entries_def)
next
  case (Some es)
  have "filter (kept_entry (now - caRetention c)) (root_entries k (caDir c)) = []"
    using assms(3) by (fastforce simp: filter_empty_conv kept_entry_def split: centry.splits)
  then show ?thesis using assms(1,2) Some by (simp add: sweep_def map_of_set_root)
qed

lemma save_ok:
  assumes "handleSaveSettings ne decode bcrypt req p w = (200, p', w')" "pnCache p = Some ca0" "pnCache p' = Some ca"
  shows "\<exists>req1 c cf. Update (neSave ne) bcrypt (neLower ne) req1 c = (None, cf) \<and>
    edCacheRetentionDays req1 = edCacheRetentionDays req \<and>
    ca = fst (apply_cache_settings (seCacheDir (cfSettings (clConf (pnClient p)))) (Snapshot cf) ca0 (pnDisk p))"
proof (cases "edRefreshToken req = []")
  case True
  obtain err cf where u: "Update (neSave ne) bcrypt (neLower ne) req (clConf (pnClient p)) = (err, cf)" by fastforce
  have "err = None \<and> ca = fst (apply_cache_settings (seCacheDir (cfSettings (clConf (pnClient p)))) (Snapshot cf) ca0 (pnDisk p))"
    using assms True u by (auto simp: handleSaveSettings_def Let_def split: option.splits prod.splits if_splits)
  then show ?thesis using u by blast
next
  case False
  obtain r cl1 w1 where v: "Verify ne decode (edRefreshToken req) (pnClient p) w = (r, cl1, w1)" by (metis prod_cases3)
  obtain err cf where u: "Update (neSave ne) bcrypt (neLower ne) (req\<lparr>edRefreshToken := []\<rparr>) (clConf cl1) = (err, cf)" by fastforce
  have "err = None \<and> ca = fst (apply_cache_settings (seCacheDir (cfSettings (clConf (pnClient p)))) (Snapshot cf) ca0 (pnDisk p))"
    using assms False u v by (auto simp: handleSaveSettings_def Let_def split: option.splits prod.splits if_splits sum.splits)
  moreover have "edCacheRetentionDays (req\<lparr>edRefreshToken := []\<rparr>) = edCacheRetentionDays req" by simp
  ultimately show ?thesis using u by blast
qed

text \<open>A large retention empties the cache. The days are turned into nanoseconds in an int64; for the day counts whose
  product wraps around to a negative number (from 106752 days on, and for instance 999999), a
  successful save is followed by a sweep that removes every cached video, however new.\<close>

theorem large_retention_empties_cache:
  assumes "handleSaveSettings ne decode bcrypt req p w = (200, p', w')" "pnCache p = Some ca0" "pnCache p' = Some ca"
    and "0 < edCacheRetentionDays req" "wrap64 (edCacheRetentionDays req * nano_day) < 0"
    and "caDir ca \<noteq> []" "dkRemoveOk (pnDisk p')"
    and "\<forall>pc d. (pc, CDir d) \<in> set (root_entries (pnDisk p') (caDir ca)) \<longrightarrow> cdMtime d \<le> now"
  shows "root_entries (sweep now ca (pnDisk p')) (caDir ca) = []"
proof -
  obtain req1 c cf where u: "Update (neSave ne) bcrypt (neLower ne) req1 c = (None, cf)"
    "edCacheRetentionDays req1 = edCacheRetentionDays req"
    "ca = fst (apply_cache_settings (seCacheDir (cfSettings (clConf (pnClient p)))) (Snapshot cf) ca0 (pnDisk p))"
    using save_ok [OF assms(1-3)] by blast
  then have "caRetention ca = retention_of (edCacheRetentionDays req)"
    using Update_fields(4) [OF u(1)] assms(4)
    by (auto simp: apply_cache_settings_def SetRetention_def SetDir_def Snapshot_def Let_def)
  then have "caRetention ca < 0" using assms(5) by (simp add: retention_of_def)
  then show ?thesis using assms(8) by (intro sweep_all assms(6,7)) fastforce
qed

theorem large_retention_empties_cache_witness:
  "\<exists>p' w'. handleSaveSettings kind_net (\<lambda>d. None) (\<lambda>pw. None) (form_with [] 999999) sample_panel () = (200, p', w') \<and>
     LocalPath (New_cache ''/app/cache'' 100) (pnDisk p') ''abc1'' = Some ''/app/cache/abc1/a.mkv'' \<and>
     root_entries (sweep 60 (the (pnCache p')) (pnDisk p')) ''/app/cache'' = []"
proof -
  let ?ca = "\<lparr>caDir = ''/app/cache'', caRetention = wrap64 (999999 * nano_day)\<rparr>"
  note p = sample_panel_def [THEN arg_cong, of pnClient, simplified] sample_panel_def [THEN arg_cong, of pnCache, simplified]
    sample_panel_def [THEN arg_cong, of pnRebuild, simplified]
  obtain cf where u: "Update (\<lambda>cf. True) (\<lambda>pw. None) (\<lambda>s. s) (form_with [] 999999) blank_config = (None, cf)"
    by (simp add: Update_def form_with_def Snapshot_def blank_config_def hashPasswordIfChanged_def GetAuth_def persistLocked_def Let_def)
  have f: "edCacheDir (form_with [] 999999) = ''/app/cache''" "edStrmURL (form_with [] 999999) = []"
    "edCacheRetentionDays (form_with [] 999999) = 999999" "edRefreshToken (form_with [] 999999) = []"
    by (simp_all add: form_with_def Snapshot_def blank_config_def Let_def)
  then have c: "seCacheDir (cfSettings cf) = ''/app/cache''" "seStrmURL (cfSettings cf) = []" "seCacheRetentionDays (cfSettings cf) = 999999"
    using Update_fields [OF u] by simp_all
  have o: "seCacheDir (cfSettings blank_config) = ''/app/cache''" by (simp add: blank_config_def)
  have "apply_cache_settings ''/app/cache'' (Snapshot cf) (New_cache ''/app/cache'' 100) k = (?ca, k)" for k
    using c by (simp add: apply_cache_settings_def Snapshot_def SetRetention_def New_cache_def retention_of_def Let_def)
  moreover have "Status_missing cf \<noteq> []" using c(2) by (simp add: Status_missing_def)
  moreover have "neSave kind_net = (\<lambda>cf. True)" "neLower kind_net = (\<lambda>s. s)" by (simp_all add: kind_net_def)
  moreover have "clConf (NewClient blank_config) = blank_config" by (simp add: NewClient_def)
  ultimately obtain p' where h: "handleSaveSettings kind_net (\<lambda>d. None) (\<lambda>pw. None) (form_with [] 999999) sample_panel () = (200, p', ())"
    "pnCache p' = Some ?ca" "pnDisk p' = pnDisk sample_panel"
    using u f(4) o by (simp add: handleSaveSettings_def p Let_def)
  have d: "root_entries (pnDisk p') ''/app/cache'' = [(''abc1'', CDir \<lparr>cdMtime = 50, cdEntries = [(''a.mkv'', Some ''x'')]\<rparr>)]"
    "dkRemoveOk (pnDisk p')"
    unfolding h(3) by (simp_all add: sample_panel_def root_entries_def sample_disk_def)
  have "wrap64 (999999 * nano_day) < 0" by (simp add: wrap64_def nano_day_def)
  then have "root_entries (sweep 60 ?ca (pnDisk p')) ''/app/cache'' = []"
    using large_retention_empties_cache [OF h(1) p(2) h(2), of 60] d f(3) by simp
  moreover have "LocalPath (New_cache ''/app/cache'' 100) (pnDisk p') ''abc1'' = Some ''/app/cache/abc1/a.mkv''"
    unfolding h(3) sample_panel_def by code_simp
  ultimately show ?thesis using h by (intro exI [of _ p'] exI [of _ "()"]) simp
qed

end
