(* ===== verification/Plan_Typed.thy ===== *)
theory Plan_Typed
  imports Plan_Props
begin

text \<open>
  The actions of a local plan carry what their handlers need: a plan cannot make the executor look
  up by path what the plan should have named, or upload a link as if it were a file.
\<close>

text \<open>The fields an action of each kind has, as the handlers of \<open>apply.go\<close> read them.\<close>

definition op_typed :: "Op \<Rightarrow> bool" where
  "op_typed op \<longleftrightarrow>
     (case opKind op of
        OpMkdir \<Rightarrow> opFid op = [] \<and> opPickCode op = [] \<and> opReplaceFid op = [] \<and> \<not> opIsVideo op
      | OpUpload \<Rightarrow> opFid op = [] \<and> opPickCode op = [] \<and> \<not> IsStrmPath (opPath op) \<and> (opReplaceFid op \<noteq> [] \<longrightarrow> opIsVideo op)
      | OpAdopt \<Rightarrow> IsStrmPath (opPath op) \<and> opPickCode op \<noteq> [] \<and> opFid op = []
      | OpNormalize \<Rightarrow> IsStrmPath (opPath op) \<and> opFid op = []
      | OpRetire \<Rightarrow> opFid op \<noteq> [] \<and> opPickCode op = []
      | OpDrop \<Rightarrow> opFid op \<noteq> [] \<and> opPickCode op = []
      | OpDownload \<Rightarrow> False
      | OpArchive \<Rightarrow> False)"

lemma clearOp_typed: "rFid rec \<noteq> [] \<Longrightarrow> op_typed (clearOp path rec reason)"
  by (simp add: clearOp_def op_typed_def newOp_def)

lemma decidePlain_typed:
  "\<not> IsStrmPath path \<Longrightarrow> op \<in> set (decidePlain path rec st) \<Longrightarrow> op_typed op"
  using clearOp_typed [of rec] by (auto simp: decidePlain_def op_typed_def newOp_def split: if_splits)

lemma decideStrm_typed:
  "IsStrmPath path \<Longrightarrow> op \<in> set (decideStrm p path rec) \<Longrightarrow> op_typed op"
  using clearOp_typed [of rec] by (auto simp: decideStrm_def adoptOps_def op_typed_def newOp_def Let_def split: if_splits)

lemma decideVideo_typed:
  assumes "\<And>key r. ixGet (plIdx p) key = Some r \<Longrightarrow> rFid r \<noteq> []"
  shows "\<not> IsStrmPath path \<Longrightarrow> op \<in> set (decideVideo p path rec st) \<Longrightarrow> op_typed op"
  using assms clearOp_typed decidePlain_typed [of path op rec st]
  by (auto simp: decideVideo_def op_typed_def newOp_def Let_def split: if_splits option.splits)

text \<open>C14. A local plan is well-typed. When the records of the index have ids, every action planned for a local tree has
  the fields its handler reads: what is retired or dropped is named by its id, what is adopted is a
  \<open>.strm\<close> file with a pickcode, what is uploaded is not a \<open>.strm\<close> file, only a video replaces another upload,
  and no action belongs to the other direction.\<close>

theorem PlanLocal_ops_typed:
  assumes "\<And>path r. ixGet (plIdx p) path = Some r \<Longrightarrow> rFid r \<noteq> []" "PlanLocal p n c root = Some (ops, err)"
  shows "list_all op_typed ops"
proof -
  have "op_typed op" if "op \<in> set (decideFile p path rec st)" for op path rec st
    using that decidePlain_typed decideStrm_typed decideVideo_typed [OF assms(1)]
    by (auto simp: decideFile_def split: if_splits)
  then have "branches p (\<lambda>_ _. True) op_typed"
    using clearOp_typed by (auto simp: branches_def op_typed_def newOp_def)
  then show ?thesis
    using planDir_branches [where D = "\<lambda>_. True"] assms(2) by (fastforce simp: PlanLocal_def list_all_iff)
qed

definition one_gone :: planner where
  "one_gone = sample_planner
     (list_fs [(''/m'', [\<lparr>deName = ''a.strm'', deIsDir = False, deInfo = Some 40\<rparr>])]
              [(''/m/a.strm'', ''http://h/download?pickcode=abc1'')])
     (list_index [(''/m'', [\<lparr>cName = ''n.txt'', cRec = \<lparr>rFid = ''2'', rPickCode = [], rKind = KindFile, rSize = 7\<rparr>\<rparr>])]) True"

theorem PlanLocal_ops_typed_witness:
  "\<exists>ops. PlanLocal one_gone 2 None ''/m'' = Some (ops, None) \<and> map opKind ops = [OpDrop, OpAdopt] \<and> list_all op_typed ops"
proof -
  have "map_option (\<lambda>(ops, e). (map opKind ops, e)) (PlanLocal one_gone 2 None ''/m'') = Some ([OpDrop, OpAdopt], None)"
    by code_simp
  then obtain ops where o: "PlanLocal one_gone 2 None ''/m'' = Some (ops, None)" "map opKind ops = [OpDrop, OpAdopt]" by auto
  have r: "rFid r \<noteq> []" if "ixGet (plIdx one_gone) path = Some r" for path r
    using that by (auto simp: one_gone_def sample_planner_def list_index_def split: if_splits)
  have "list_all op_typed ops" by (rule PlanLocal_ops_typed [OF _ o(1)]) (rule r)
  with o show ?thesis by (intro exI [of _ ops] conjI)
qed

end
