(* ===== verification/Engine_Watch.thy ===== *)
theory Engine_Watch
  imports Engine_Runner "HOL-Library.Multiset"
begin

text \<open>
  The file watcher of a task at work: \<open>watchLoop\<close> in \<open>internal/engine/runner.go\<close> with its two
  goroutines, the debouncer's timer, the queue, and the rest of the program that uses the queue too. Each
  critical section, channel operation and submission is one step, so the steps interleave as
  they can in the program. The result: no file event is lost on its way to the worker.
\<close>

section \<open>The steps\<close>

text \<open>
  \<open>batch\<close> is where the batching goroutine is: waiting in its \<open>select\<close>, woken but before \<open>Take\<close>,
  submitting the directories it took, or gone. \<open>wsSeen\<close> lists the paths of the events so far, and
  \<open>wsTaken\<close> the jobs the worker took, each with the number of events seen by then; both are there to
  state the results. \<open>wsDropped\<close> says that the queue was closed or the task's jobs were dropped.
\<close>

datatype batch = BIdle | BWoken | BHold "string list" | BDone

definition hold :: "string list \<Rightarrow> batch" where
  "hold ds = (if ds = [] then BIdle else BHold ds)"

record wsys =
  wsNow :: int
  wsB :: debouncer
  wsQueue :: Queue
  wsLoop :: bool
  wsBatch :: batch
  wsCancelled :: bool
  wsDropped :: bool
  wsSeen :: "string list"
  wsTaken :: "(nat \<times> Job) list"

definition init_wsys :: wsys where
  "init_wsys =
     \<lparr>wsNow = 0, wsB = newDebouncer, wsQueue = NewQueue, wsLoop = True, wsBatch = BIdle, wsCancelled = False,
      wsDropped = False, wsSeen = [], wsTaken = []\<rparr>"

text \<open>
  The watcher's own steps, none of which needs a further event: the timer fires at its time or later, the
  goroutine receives from \<open>Kick\<close>, takes the batch in whatever order the map is iterated, and submits.
\<close>

inductive wown :: "runner \<Rightarrow> wsys \<Rightarrow> wsys \<Rightarrow> bool" for r :: runner where
  w_fire: "dbTimer (wsB s) = Some t \<Longrightarrow> t \<le> now \<Longrightarrow> wsNow s \<le> now \<Longrightarrow>
     wown r s (s\<lparr>wsNow := now, wsB := db_notify (wsB s)\<rparr>)"
| w_wake: "wsBatch s = BIdle \<Longrightarrow> db_recv (wsB s) = Some b \<Longrightarrow> wown r s (s\<lparr>wsB := b, wsBatch := BWoken\<rparr>)"
| w_take: "wsBatch s = BWoken \<Longrightarrow> db_take (wsB s) = (dirs, b) \<Longrightarrow> mset ds = mset dirs \<Longrightarrow>
     wown r s (s\<lparr>wsB := b, wsBatch := hold ds\<rparr>)"
| w_submit: "wsBatch s = BHold (d # ds) \<Longrightarrow>
     wown r s (s\<lparr>wsQueue := Enqueue (watch_job (rrTask r) d []) (wsQueue s), wsBatch := hold ds\<rparr>)"

text \<open>
  All steps: those, an event, the cancellation of the runner's context and the ends of the goroutines, and
  what the rest of the program does with the queue.
\<close>

inductive wstep :: "runner \<Rightarrow> wsys \<Rightarrow> wsys \<Rightarrow> bool" for r :: runner where
  w_own: "wown r s t \<Longrightarrow> wstep r s t"
| w_event: "wsLoop s \<Longrightarrow> wsNow s \<le> now \<Longrightarrow> dispatch now r path (wsB s) (wsQueue s) = (b, q) \<Longrightarrow>
     wstep r s (s\<lparr>wsNow := now, wsB := b, wsQueue := q, wsSeen := wsSeen s @ [path]\<rparr>)"
| w_cancel: "wstep r s (s\<lparr>wsCancelled := True\<rparr>)"
| w_loop_end: "wsLoop s \<Longrightarrow> wstep r s (s\<lparr>wsLoop := False, wsB := db_stop (wsB s)\<rparr>)"
| w_batch_end: "wsCancelled s \<Longrightarrow> wsBatch s = BIdle \<Longrightarrow> wstep r s (s\<lparr>wsBatch := BDone\<rparr>)"
| w_enqueue: "plain (jTaskID j) \<Longrightarrow> wstep r s (s\<lparr>wsQueue := Enqueue j (wsQueue s)\<rparr>)"
| w_worker: "Take (wsQueue s) = Some (j, q) \<Longrightarrow>
     wstep r s (s\<lparr>wsQueue := q, wsTaken := (length (wsSeen s), j) # wsTaken s\<rparr>)"
| w_drop: "wstep r s (s\<lparr>wsQueue := DropTask i (wsQueue s), wsDropped := (wsDropped s \<or> i = tkID (rrTask r))\<rparr>)"
| w_close: "wstep r s (s\<lparr>wsQueue := Close (wsQueue s), wsDropped := True\<rparr>)"

inductive wreachable :: "runner \<Rightarrow> wsys \<Rightarrow> bool" for r :: runner where
  wr_init: "wreachable r init_wsys"
| wr_step: "wreachable r s \<Longrightarrow> wstep r s t \<Longrightarrow> wreachable r t"

section \<open>No event is lost\<close>

text \<open>The job an event asks for, and when it is on its way to the worker or has reached it.\<close>

definition instant :: "runner \<Rightarrow> string \<Rightarrow> bool" where
  "instant r path \<longleftrightarrow> tkInstantNow (rrTask r) \<and> (IsVideoExt (rrRules r) path \<or> equal_fold (path_ext path) ''.strm'')"

definition event_job :: "runner \<Rightarrow> string \<Rightarrow> Job" where
  "event_job r path = (if instant r path then watch_job (rrTask r) [] path else watch_job (rrTask r) (path_dir path) [])"

definition handed :: "runner \<Rightarrow> wsys \<Rightarrow> nat \<Rightarrow> bool" where
  "handed r s k \<longleftrightarrow>
     (let key = dedupKey (event_job r (wsSeen s ! k)) in
      key \<in> dedupKey ` set (jobs (wsQueue s)) \<or> (\<exists>(m, j) \<in> set (wsTaken s). k < m \<and> dedupKey j = key))"

definition held :: "wsys \<Rightarrow> string set" where
  "held s = set (dbPending (wsB s)) \<union> (case wsBatch s of BHold ds \<Rightarrow> set ds | _ \<Rightarrow> {})"

text \<open>Armed directories have someone to wake up for them as long as the loop runs.\<close>

definition alarmed :: "wsys \<Rightarrow> bool" where
  "alarmed s \<longleftrightarrow> dbTimer (wsB s) \<noteq> None \<or> dbKick (wsB s) \<or> wsBatch s = BWoken"

definition wsys_ok :: "runner \<Rightarrow> wsys \<Rightarrow> bool" where
  "wsys_ok r s \<longleftrightarrow>
     (\<not> wsDropped s \<longrightarrow> open_queue (wsQueue s) \<and> (\<forall>j \<in> set (jobs (wsQueue s)). plain (jTaskID j)) \<and>
        (\<forall>k < length (wsSeen s). handed r s k \<or> (\<not> instant r (wsSeen s ! k) \<and> path_dir (wsSeen s ! k) \<in> held s))) \<and>
     (wsLoop s \<and> dbPending (wsB s) \<noteq> [] \<longrightarrow> alarmed s) \<and>
     (wsBatch s = BDone \<longrightarrow> wsCancelled s) \<and> (\<forall>ds. wsBatch s = BHold ds \<longrightarrow> ds \<noteq> [])"

lemma keys_Enqueue:
  "open_queue q \<Longrightarrow> dedupKey ` set (jobs (Enqueue j q)) = insert (dedupKey j) (dedupKey ` set (jobs q))"
  using arg_cong [where f = set, OF jq.keys_enq [of q j]] by (simp add: add_new_def insert_absorb)

lemma ids_Enqueue:
  "open_queue q \<Longrightarrow> i \<in> set (jobs (Enqueue j q)) \<Longrightarrow> jTaskID i \<in> insert (jTaskID j) (jTaskID ` set (jobs q))"
  by (auto simp: open_queue_def Enqueue_spec enq_spec_def split: if_splits)

lemma Take_jobs: "open_queue q \<Longrightarrow> Take q = Some (j, q') \<Longrightarrow> jobs q = j # jobs q' \<and> open_queue q'"
  using jq.deq_Nil [of q] jq.deq_Cons [of q] by (cases "jobs q") force+

lemma same_task: "plain (jTaskID i) \<Longrightarrow> plain (jTaskID j) \<Longrightarrow> dedupKey i = dedupKey j \<Longrightarrow> jTaskID i = jTaskID j"
  using append_bar_eq [of "jTaskID i" "jTaskID j"] by (auto simp: dedupKey_def split: if_splits)

lemma event_job_task [simp]: "jTaskID (event_job r path) = tkID (rrTask r)" "jTaskID (watch_job t d f) = tkID t"
  by (simp_all add: event_job_def watch_job_def)

text \<open>What the queue must keep of the events handed over.\<close>

definition queue_keeps :: "runner \<Rightarrow> wsys \<Rightarrow> bool" where
  "queue_keeps r s \<longleftrightarrow> open_queue (wsQueue s) \<and> (\<forall>j \<in> set (jobs (wsQueue s)). plain (jTaskID j)) \<and>
     (\<forall>k < length (wsSeen s). handed r s k \<or> (\<not> instant r (wsSeen s ! k) \<and> path_dir (wsSeen s ! k) \<in> held s))"

lemma wsys_ok_alt:
  "wsys_ok r s \<longleftrightarrow> (\<not> wsDropped s \<longrightarrow> queue_keeps r s) \<and> (wsLoop s \<and> dbPending (wsB s) \<noteq> [] \<longrightarrow> alarmed s) \<and>
     (wsBatch s = BDone \<longrightarrow> wsCancelled s) \<and> (\<forall>ds. wsBatch s = BHold ds \<longrightarrow> ds \<noteq> [])"
  by (simp add: wsys_ok_def queue_keeps_def)

lemma enqueue_keeps:
  assumes "queue_keeps r s" "plain (jTaskID j)" "wsSeen t = wsSeen s" "wsTaken t = wsTaken s"
    and q: "wsQueue t = Enqueue j (wsQueue s)"
    and held: "\<And>d. d \<in> held s \<Longrightarrow> d \<in> held t \<or> j = watch_job (rrTask r) d []"
  shows "queue_keeps r t"
proof -
  have o: "open_queue (wsQueue s)" using assms(1) by (simp add: queue_keeps_def)
  have keys: "dedupKey ` set (jobs (wsQueue t)) = insert (dedupKey j) (dedupKey ` set (jobs (wsQueue s)))"
    using keys_Enqueue [OF o] q by simp
  have "plain (jTaskID i)" if "i \<in> set (jobs (wsQueue t))" for i
    using ids_Enqueue [OF o, of i j] that assms(1,2) q by (auto simp: queue_keeps_def)
  moreover have "handed r t k \<or> (\<not> instant r (wsSeen t ! k) \<and> path_dir (wsSeen t ! k) \<in> held t)" if "k < length (wsSeen t)" for k
  proof -
    from that assms(1,3) have "handed r s k \<or> (\<not> instant r (wsSeen s ! k) \<and> path_dir (wsSeen s ! k) \<in> held s)"
      by (simp add: queue_keeps_def)
    then show ?thesis
    proof
      assume "handed r s k"
      then show ?thesis using assms(3,4) by (auto simp: handed_def keys Let_def)
    next
      assume h: "\<not> instant r (wsSeen s ! k) \<and> path_dir (wsSeen s ! k) \<in> held s"
      then have "path_dir (wsSeen s ! k) \<in> held t \<or> j = event_job r (wsSeen s ! k)"
        using held by (simp add: event_job_def)
      then show ?thesis using h assms(3) by (auto simp: handed_def keys Let_def)
    qed
  qed
  ultimately show ?thesis using jq.inv_enq [OF o] q by (simp add: queue_keeps_def)
qed

lemma same_keeps:
  assumes "queue_keeps r s" "wsQueue t = wsQueue s" "wsSeen t = wsSeen s" "wsTaken t = wsTaken s" "held t = held s"
  shows "queue_keeps r t"
  using assms by (simp add: queue_keeps_def handed_def)

lemma held_hold: "held (s\<lparr>wsB := b, wsBatch := hold ds\<rparr>) = set (dbPending b) \<union> set ds"
  by (auto simp: held_def hold_def)

lemma wown_ok:
  assumes "plain (tkID (rrTask r))"
  shows "wown r s t \<Longrightarrow> wsys_ok r s \<Longrightarrow> wsys_ok r t"
proof (induction rule: wown.induct)
  case (w_fire s t now)
  then show ?case by (auto simp: wsys_ok_alt alarmed_def db_notify_def held_def elim!: same_keeps)
next
  case (w_wake s b)
  then show ?case
    by (auto simp: wsys_ok_alt alarmed_def db_recv_def held_def split: if_splits elim!: same_keeps)
next
  case (w_take s dirs b ds)
  then have "set ds = set dirs" by (metis set_mset_mset)
  with w_take show ?case
    by (auto simp: wsys_ok_alt db_take_def held_hold hold_def held_def split: if_splits elim!: same_keeps)
next
  case (w_submit s d ds)
  let ?t = "s\<lparr>wsQueue := Enqueue (watch_job (rrTask r) d []) (wsQueue s), wsBatch := hold ds\<rparr>"
  have "queue_keeps r ?t" if "\<not> wsDropped s"
  proof (rule enqueue_keeps [where s = s and j = "watch_job (rrTask r) d []"])
    show "queue_keeps r s" using that w_submit.prems by (simp add: wsys_ok_alt)
    show "e \<in> held s \<Longrightarrow> e \<in> held ?t \<or> watch_job (rrTask r) d [] = watch_job (rrTask r) e []" for e
      using w_submit.hyps by (auto simp: held_def hold_def)
  qed (use assms in simp_all)
  with w_submit show ?case by (auto simp: wsys_ok_alt alarmed_def hold_def split: if_splits)
qed

lemma dispatch_alt:
  "dispatch now r path b q =
     (if instant r path then (b, Enqueue (event_job r path) q)
      else (Arm now (sint (quiet_duration (rrTask r))) (path_dir path) b, q))"
  by (cases "instant r path") (auto simp: dispatch_def instant_def event_job_def)

lemma queue_keeps_cancelled [simp]: "queue_keeps r (s\<lparr>wsCancelled := c\<rparr>) = queue_keeps r s"
  by (simp add: queue_keeps_def handed_def held_def)

lemma event_keeps:
  assumes "queue_keeps r s" "plain (tkID (rrTask r))" "dispatch now r path (wsB s) (wsQueue s) = (b, q)"
  shows "queue_keeps r (s\<lparr>wsNow := now, wsB := b, wsQueue := q, wsSeen := wsSeen s @ [path]\<rparr>)" (is "queue_keeps r ?t")
proof -
  let ?m = "s\<lparr>wsNow := now, wsB := b, wsQueue := q\<rparr>"
  have bq: "instant r path \<and> b = wsB s \<and> q = Enqueue (event_job r path) (wsQueue s) \<or>
      \<not> instant r path \<and> set (dbPending b) = insert (path_dir path) (set (dbPending (wsB s))) \<and> q = wsQueue s"
    using assms(3) by (auto simp: dispatch_alt Arm_def split: if_splits)
  have keep: "queue_keeps r ?m"
  proof (cases "instant r path")
    case True
    then show ?thesis using bq assms(2) by (intro enqueue_keeps [OF assms(1), of "event_job r path"]) (auto simp: held_def)
  next
    case False
    then show ?thesis using bq assms(1) by (auto simp: queue_keeps_def handed_def held_def Let_def)
  qed
  have "handed r ?t k = handed r ?m k" if "k < length (wsSeen s)" for k
    using that by (simp add: handed_def nth_append)
  moreover have "handed r ?t (length (wsSeen s)) \<or> (\<not> instant r path \<and> path_dir path \<in> held ?t)"
  proof (cases "instant r path")
    case True
    have "open_queue (wsQueue s)" using assms(1) by (simp add: queue_keeps_def)
    then show ?thesis using True bq keys_Enqueue by (auto simp: handed_def)
  qed (use bq in \<open>auto simp: held_def\<close>)
  ultimately show ?thesis using keep by (auto simp: queue_keeps_def less_Suc_eq nth_append held_def)
qed

lemma worker_keeps:
  assumes "queue_keeps r s" "Take (wsQueue s) = Some (j, q)"
  shows "queue_keeps r (s\<lparr>wsQueue := q, wsTaken := (length (wsSeen s), j) # wsTaken s\<rparr>)" (is "queue_keeps r ?t")
proof -
  have j: "jobs (wsQueue s) = j # jobs q" "open_queue q" using Take_jobs assms by (auto simp: queue_keeps_def)
  have "handed r s k \<Longrightarrow> k < length (wsSeen s) \<Longrightarrow> handed r ?t k" for k by (auto simp: handed_def j Let_def)
  then show ?thesis using assms(1) j by (auto simp: queue_keeps_def held_def)
qed

lemma drop_keeps:
  assumes "queue_keeps r s" "plain (tkID (rrTask r))" "i \<noteq> tkID (rrTask r)"
  shows "queue_keeps r (s\<lparr>wsQueue := DropTask i (wsQueue s), wsDropped := d\<rparr>)" (is "queue_keeps r ?t")
proof -
  have o: "open_queue (wsQueue s)" and p: "\<forall>j \<in> set (jobs (wsQueue s)). plain (jTaskID j)"
    using assms(1) by (simp_all add: queue_keeps_def)
  have js: "jobs (DropTask i (wsQueue s)) = filter (\<lambda>j. jTaskID j \<noteq> i) (jobs (wsQueue s))"
    using o by (rule jq.content_drop)
  have own: "jTaskID j = tkID (rrTask r)" if "j \<in> set (jobs (wsQueue s))" "dedupKey j = dedupKey (event_job r path)" for j path
    using same_task [OF _ _ that(2)] p that(1) assms(2) by simp
  have "key \<in> dedupKey ` set (jobs (DropTask i (wsQueue s)))"
    if k: "key = dedupKey (event_job r path)" "key \<in> dedupKey ` set (jobs (wsQueue s))" for key path
  proof -
    obtain j where j: "j \<in> set (jobs (wsQueue s))" "dedupKey j = key" using k(2) by blast
    then have "jTaskID j \<noteq> i" using own [OF j(1), of path] k(1) assms(3) by simp
    with j show ?thesis by (force simp: js)
  qed
  then have "handed r ?t k" if "handed r s k" for k using that by (auto simp: handed_def Let_def)
  then show ?thesis using assms(1) jq.inv_drop [OF o, of i] by (auto simp: queue_keeps_def js held_def)
qed

lemma wstep_ok:
  assumes "plain (tkID (rrTask r))"
  shows "wstep r s t \<Longrightarrow> wsys_ok r s \<Longrightarrow> wsys_ok r t"
proof (induction rule: wstep.induct)
  case (w_own s t)
  then show ?case using wown_ok [OF assms] by blast
next
  case (w_event s now path b q)
  then show ?case using event_keeps [OF _ assms w_event.hyps(3)]
    by (auto simp: wsys_ok_alt alarmed_def dispatch_alt Arm_def split: if_splits)
next
  case (w_enqueue j s)
  then show ?case
    by (auto simp: wsys_ok_alt alarmed_def held_def intro!: enqueue_keeps [where s = s and j = j])
next
  case (w_worker s j q)
  then show ?case using worker_keeps by (auto simp: wsys_ok_alt alarmed_def)
next
  case (w_drop s i)
  then show ?case using drop_keeps [OF _ assms] by (auto simp: wsys_ok_alt alarmed_def)
next
  case (w_cancel s)
  then show ?case by (simp add: wsys_ok_alt alarmed_def)
next
  case (w_loop_end s)
  have "queue_keeps r (s\<lparr>wsLoop := False, wsB := db_stop (wsB s)\<rparr>)" if "queue_keeps r s"
    by (rule same_keeps [OF that]) (simp_all add: held_def db_stop_def)
  with w_loop_end show ?case by (auto simp: wsys_ok_alt)
next
  case (w_batch_end s)
  have "queue_keeps r (s\<lparr>wsBatch := BDone\<rparr>)" if "queue_keeps r s"
    by (rule same_keeps [OF that]) (simp_all add: held_def w_batch_end.hyps(2))
  with w_batch_end show ?case by (auto simp: wsys_ok_alt alarmed_def)
next
  case (w_close s)
  then show ?case by (auto simp: wsys_ok_alt alarmed_def)
qed

lemma init_wsys_ok: "wsys_ok r init_wsys"
  by (simp add: wsys_ok_def init_wsys_def newDebouncer_def)

lemma wreachable_ok:
  assumes "plain (tkID (rrTask r))" "wreachable r s"
  shows "wsys_ok r s"
  using assms(2) by (induction rule: wreachable.induct) (simp_all add: init_wsys_ok wstep_ok [OF assms(1)])

section \<open>The watcher's own steps end\<close>

definition effort :: "wsys \<Rightarrow> nat" where
  "effort s = (if dbTimer (wsB s) \<noteq> None then 3 else 0) + (if dbKick (wsB s) then 2 else 0) +
     (case wsBatch s of BWoken \<Rightarrow> 1 | BHold ds \<Rightarrow> length ds | _ \<Rightarrow> 0) + length (dbPending (wsB s))"

lemma hold_cost: "(case hold ds of BWoken \<Rightarrow> 1 | BHold xs \<Rightarrow> length xs | _ \<Rightarrow> 0) = length ds"
  by (simp add: hold_def)

lemma wown_effort: "wown r s t \<Longrightarrow> effort t < effort s"
proof (induction rule: wown.induct)
  case (w_take s dirs b ds)
  then have "length ds = length dirs" by (metis size_mset)
  with w_take show ?case by (auto simp: hold_cost db_take_def effort_def)
qed (auto simp: effort_def db_notify_def db_recv_def hold_cost split: if_splits)

lemma wown_steps: "(wown r ^^ n) s t \<Longrightarrow> n + effort t \<le> effort s"
proof (induction n arbitrary: t)
  case (Suc n)
  then obtain u where "(wown r ^^ n) s u" "wown r u t" by auto
  with Suc.IH wown_effort show ?case by fastforce
qed simp

lemma wown_keeps:
  "wown r s t \<Longrightarrow> wsLoop t = wsLoop s \<and> wsCancelled t = wsCancelled s \<and> wsDropped t = wsDropped s \<and> wsSeen t = wsSeen s"
  by (erule wown.cases) auto

lemma wowns_keep:
  "(wown r)\<^sup>*\<^sup>* s t \<Longrightarrow> wreachable r s \<Longrightarrow> wreachable r t \<and> wsLoop t = wsLoop s \<and> wsCancelled t = wsCancelled s \<and>
     wsDropped t = wsDropped s \<and> wsSeen t = wsSeen s"
  by (induction rule: rtranclp_induct) (auto dest: wown_keeps intro: wr_step w_own)

lemma wown_stuck:
  assumes "wsys_ok r s" "\<not> wsCancelled s" "\<nexists>t. wown r s t"
  shows "\<not> alarmed s" "wsBatch s = BIdle"
proof -
  have timer: "dbTimer (wsB s) = None" using assms(3) w_fire [of s _ "max _ _"] by (metis max.cobounded1 max.cobounded2 not_None_eq)
  have woken: "wsBatch s \<noteq> BWoken" using assms(3) w_take [of s _ _ _ r] by (metis prod.collapse)
  have held: "wsBatch s \<noteq> BHold ds" for ds
    using assms(1,3) w_submit [of s _ _ r] by (cases ds) (auto simp: wsys_ok_def)
  from timer woken held assms(1,2) show idle: "wsBatch s = BIdle" by (cases "wsBatch s") (auto simp: wsys_ok_def)
  have "\<not> dbKick (wsB s)" using assms(3) w_wake [OF idle, of _ r] by (auto simp: db_recv_def)
  with timer woken show "\<not> alarmed s" by (simp add: alarmed_def)
qed

text \<open>The ids the program gives to tasks are among those the queue tells apart.\<close>

lemma digit_char_plain: "d < 16 \<Longrightarrow> digit_char d \<noteq> CHR ''|''"
  by (auto simp: digit_char_def dest: arg_cong [where f = "of_char :: char \<Rightarrow> nat"])

lemma NewID_plain: "plain (NewID random now)"
proof -
  have "CHR ''|'' \<notin> set (format_uint 16 now)" using format_uint_digits [of 16 "CHR ''|''" now] digit_char_plain by force
  moreover have "CHR ''|'' \<notin> set (hex_lower b)" for b
  proof -
    have "digit_char ((of_char c :: nat) div 16) \<noteq> CHR ''|''" "digit_char ((of_char c :: nat) mod 16) \<noteq> CHR ''|''" for c :: char
      using of_char_div_16 [of c] by (simp_all add: digit_char_plain)
    then show ?thesis by (auto simp: hex_lower_def dest: sym)
  qed
  ultimately show ?thesis by (simp add: plain_def NewID_def split: option.splits)
qed

section \<open>Properties\<close>

text \<open>C6. No file event is lost. In every interleaving of the watcher with its timer, its batching goroutine, the worker
  and the other users of the queue, and as long as the watch goes on: once events stop coming, the
  watcher ends after a bounded number of steps of its own, whatever their order; and then every event that ever came
  has a job in the queue, or the worker has taken one since the event.\<close>

theorem no_event_lost:
  assumes "plain (tkID (rrTask r))" "wreachable r s" "wsLoop s" "\<not> wsCancelled s" "\<not> wsDropped s"
  shows "(\<forall>n t. (wown r ^^ n) s t \<longrightarrow> n \<le> effort s) \<and>
    (\<forall>t. (wown r)\<^sup>*\<^sup>* s t \<and> (\<nexists>u. wown r t u) \<longrightarrow> (\<forall>k < length (wsSeen t). handed r t k))"
proof (intro conjI allI impI)
  show "n \<le> effort s" if "(wown r ^^ n) s t" for n t using wown_steps [OF that] by simp
  fix t k
  assume t: "(wown r)\<^sup>*\<^sup>* s t \<and> (\<nexists>u. wown r t u)" and k: "k < length (wsSeen t)"
  from wowns_keep [OF _ assms(2)] t have keep: "wreachable r t" "wsLoop t" "\<not> wsCancelled t" "\<not> wsDropped t"
    using assms(3-5) by simp_all
  have ok: "wsys_ok r t" by (rule wreachable_ok [OF assms(1) keep(1)])
  have stuck: "\<not> alarmed t" "wsBatch t = BIdle" using wown_stuck [OF ok keep(3)] t by simp_all
  with ok keep(2) have "held t = {}" by (auto simp: wsys_ok_def held_def)
  with ok keep(4) k show "handed r t k" by (auto simp: wsys_ok_def)
qed

definition watched_runner :: runner where
  "watched_runner = newRunner (NewRules id [] [])
     \<lparr>tkID = ''t_1'', tkName = ''m'', tkEnabled = True, tkLocalDir = ''/m'', tkCloudDir = ''/c'', tkUpload = True,
      tkWatch = True, tkQuietMinutes = 10, tkInstantNow = False, tkToStrm = True, tkToCache = False, tkDownload = False,
      tkArchive = False, tkToStrmDl = False, tkCron = \<lparr>coEnabled = False, coIntervalHours = 0\<rparr>\<rparr>"

theorem no_event_lost_witness:
  "\<exists>s. wreachable watched_runner s \<and> wsSeen s = [''/m/a/x.txt''] \<and> dbPending (wsB s) = [''/m/a''] \<and> effort s = 4 \<and>
     (\<forall>n t. (wown watched_runner ^^ n) s t \<longrightarrow> n \<le> effort s) \<and>
     (\<forall>t. (wown watched_runner)\<^sup>*\<^sup>* s t \<and> (\<nexists>u. wown watched_runner t u) \<longrightarrow> (\<forall>k < length (wsSeen t). handed watched_runner t k))"
proof -
  let ?b = "Arm 0 (sint (quiet_duration (rrTask watched_runner))) ''/m/a'' newDebouncer"
  let ?s = "init_wsys\<lparr>wsNow := 0, wsB := ?b, wsQueue := NewQueue, wsSeen := [''/m/a/x.txt'']\<rparr>"
  have d: "dispatch 0 watched_runner ''/m/a/x.txt'' newDebouncer NewQueue = (?b, NewQueue)"
  proof -
    have "path_dir ''/m/a/x.txt'' = ''/m/a''" by code_simp
    then show ?thesis by (simp add: dispatch_def watched_runner_def newRunner_def)
  qed
  have "wstep watched_runner init_wsys
      (init_wsys\<lparr>wsNow := 0, wsB := ?b, wsQueue := NewQueue, wsSeen := wsSeen init_wsys @ [''/m/a/x.txt'']\<rparr>)"
    by (rule w_event) (simp_all add: init_wsys_def d)
  from wr_step [OF wr_init this] have r: "wreachable watched_runner ?s" by (simp add: init_wsys_def)
  have p: "plain (tkID (rrTask watched_runner))" by (simp add: plain_def watched_runner_def newRunner_def)
  have e: "wsSeen ?s = [''/m/a/x.txt'']" "dbPending (wsB ?s) = [''/m/a'']" "effort ?s = 4"
    by (simp_all add: effort_def Arm_def newDebouncer_def init_wsys_def)
  from no_event_lost [OF p r] r e show ?thesis by (intro exI [of _ ?s]) (simp add: init_wsys_def)
qed

end
