(* ===== verification/Engine_Lifecycle.thy ===== *)
theory Engine_Lifecycle
  imports Engine_Runner
begin

text \<open>
  Runners coming and going concurrently: \<open>EnsureRunning\<close>, \<open>Init\<close>, \<open>initRunner\<close>, \<open>Start\<close>,
  \<open>ReloadTask\<close>, \<open>RemoveTask\<close>, \<open>StopTask\<close> and \<open>popRunner\<close> of \<open>internal/engine/engine.go\<close> as
  threads. \<open>Engine_Core\<close> has each of them as one function; here each critical section and each
  call on a runner is a step of its own, because the panel starts them in goroutines and
  initialising a task takes minutes. A runner is an address in a heap, as the code passes
  pointers; the queue and the effects of \<open>initTask\<close> on the world are left to \<open>Engine_Core\<close>.
\<close>

section \<open>The shared state\<close>

text \<open>
  \<open>lfLeft\<close> lists the runners with loops whose cancel function was overwritten by a second start.
\<close>

record life =
  lfStarted :: bool
  lfMap :: "(string \<times> nat) list"
  lfHeap :: "runner list"
  lfLeft :: "nat list"

definition no_life :: life where
  "no_life = \<lparr>lfStarted = False, lfMap = [], lfHeap = [], lfLeft = []\<rparr>"

definition registered :: "life \<Rightarrow> nat set" where
  "registered l = snd ` set (lfMap l)"

definition loops_run :: "runner \<Rightarrow> bool" where
  "loops_run r \<longleftrightarrow> rrStarted r \<and> \<not> rrCancelled r"

definition active :: "life \<Rightarrow> nat \<Rightarrow> bool" where
  "active l n \<longleftrightarrow> n < length (lfHeap l) \<and> loops_run (lfHeap l ! n) \<or> n \<in> set (lfLeft l)"

definition stopped :: "life \<Rightarrow> nat \<Rightarrow> bool" where
  "stopped l n \<longleftrightarrow> n < length (lfHeap l) \<and> rrStopped (lfHeap l ! n)"

definition unregister :: "string \<Rightarrow> life \<Rightarrow> life" where
  "unregister i l = l\<lparr>lfMap := AList.delete i (lfMap l)\<rparr>"

definition register :: "Rules \<Rightarrow> Task \<Rightarrow> life \<Rightarrow> life" where
  "register rules t l =
     l\<lparr>lfHeap := lfHeap l @ [(newRunner rules t)\<lparr>rrInitializing := True\<rparr>],
       lfMap := AList.update (tkID t) (length (lfHeap l)) (lfMap l)\<rparr>"

definition change_at :: "nat \<Rightarrow> (runner \<Rightarrow> runner) \<Rightarrow> life \<Rightarrow> life" where
  "change_at n f l = l\<lparr>lfHeap := (lfHeap l)[n := f (lfHeap l ! n)]\<rparr>"

definition initialised :: "nat \<Rightarrow> life \<Rightarrow> life" where
  "initialised n = change_at n (\<lambda>r. r\<lparr>rrInitializing := False\<rparr>)"

definition stop_at :: "nat \<Rightarrow> life \<Rightarrow> life" where
  "stop_at n = change_at n runner_stop"

definition start_at :: "nat \<Rightarrow> life \<Rightarrow> life" where
  "start_at n l =
     (change_at n runner_start l)\<lparr>lfLeft := (if loops_run (lfHeap l ! n) then [n] else []) @ lfLeft l\<rparr>"

section \<open>The threads\<close>

text \<open>
  Where a thread is. A reload: before it reads \<open>started\<close>; before \<open>popRunner\<close>; with the old runner to
  stop; before it registers the new one; initialising it; about to start it; about to take it
  out again after a failure. Booting: the tasks left to initialise; initialising one; a failure; before
  the snapshot; starting the runners of the snapshot. Stopping: before the lookup (removing or
  not), and with the runner to stop.
\<close>

datatype thread =
  TBegin Task | TPop bool Task | TOld bool Task "nat option" | TNew bool Task | TInit bool Task nat
| TStart nat | TFail string
| BTasks "Task list" | BInit Task nat "Task list" | BFail string | BSnap | BStart "nat list"
| SLook string | SRemove string | SStop nat

inductive tstep :: "Rules \<Rightarrow> thread \<Rightarrow> life \<Rightarrow> thread option \<Rightarrow> life \<Rightarrow> bool" for R :: Rules where
  t_read: "tstep R (TBegin t) l (Some (TPop (lfStarted l) t)) l"
| t_pop: "tstep R (TPop b t) l (Some (TOld b t (map_of (lfMap l) (tkID t)))) (unregister (tkID t) l)"
| t_old: "tstep R (TOld b t p) l (if tkEnabled t then Some (TNew b t) else None)
     (case p of None \<Rightarrow> l | Some n \<Rightarrow> stop_at n l)"
| t_new: "tstep R (TNew b t) l (Some (TInit b t (length (lfHeap l)))) (register R t l)"
| t_init: "tstep R (TInit b t n) l (if b then Some (TStart n) else None) (initialised n l)"
| t_init_fail: "tstep R (TInit b t n) l (Some (TFail (tkID t))) (initialised n l)"
| t_start: "tstep R (TStart n) l None (start_at n l)"
| t_fail: "tstep R (TFail i) l None (unregister i l)"
| b_skip: "\<not> tkEnabled t \<Longrightarrow> tstep R (BTasks (t # ts)) l (Some (BTasks ts)) l"
| b_new: "tkEnabled t \<Longrightarrow> tstep R (BTasks (t # ts)) l (Some (BInit t (length (lfHeap l)) ts)) (register R t l)"
| b_init: "tstep R (BInit t n ts) l (Some (BTasks ts)) (initialised n l)"
| b_init_fail: "tstep R (BInit t n ts) l (Some (BFail (tkID t))) (initialised n l)"
| b_fail: "tstep R (BFail i) l None (unregister i l)"
| b_flag: "tstep R (BTasks []) l (Some BSnap) (l\<lparr>lfStarted := True\<rparr>)"
| b_snap: "set ns = registered l \<Longrightarrow> distinct ns \<Longrightarrow> tstep R BSnap l (Some (BStart ns)) l"
| b_start: "tstep R (BStart (n # ns)) l (Some (BStart ns)) (start_at n l)"
| b_done: "tstep R (BStart []) l None l"
| s_look: "tstep R (SLook i) l (map_option SStop (map_of (lfMap l) i)) l"
| s_remove: "tstep R (SRemove i) l (map_option SStop (map_of (lfMap l) i)) (unregister i l)"
| s_stop: "tstep R (SStop n) l None (stop_at n l)"

inductive_cases tstepE: "tstep R th l p l'"

text \<open>
  What may start: a reload, a boot of the configuration's tasks (one at a time and only before the engine
  has started; every registered task is an enabled task of the configuration), a stop, a
  removal. With \<open>calm\<close>, only when nothing else is under way.
\<close>

fun is_boot :: "thread \<Rightarrow> bool" where
  "is_boot (BTasks ts) = True" | "is_boot (BInit t n ts) = True" | "is_boot (BFail i) = True"
| "is_boot BSnap = True" | "is_boot (BStart ns) = True" | "is_boot _ = False"

fun begins :: "life \<Rightarrow> thread \<Rightarrow> bool" where
  "begins l (TBegin t) = True"
| "begins l (BTasks ts) = (\<not> lfStarted l \<and> fst ` set (lfMap l) \<subseteq> tkID ` {t \<in> set ts. tkEnabled t})"
| "begins l (SLook i) = True"
| "begins l (SRemove i) = True"
| "begins l _ = False"

inductive lstep :: "bool \<Rightarrow> Rules \<Rightarrow> life \<times> thread list \<Rightarrow> life \<times> thread list \<Rightarrow> bool" for calm :: bool and R :: Rules where
  l_begin: "begins l th \<Longrightarrow> (is_boot th \<longrightarrow> \<not> list_ex is_boot ths) \<Longrightarrow> (calm \<longrightarrow> ths = []) \<Longrightarrow>
     lstep calm R (l, ths) (l, ths @ [th])"
| l_run: "tstep R th l p l' \<Longrightarrow> lstep calm R (l, xs @ th # ys) (l', xs @ (case p of None \<Rightarrow> [] | Some u \<Rightarrow> [u]) @ ys)"

inductive lreachable :: "bool \<Rightarrow> Rules \<Rightarrow> life \<times> thread list \<Rightarrow> bool" for calm :: bool and R :: Rules where
  lr_init: "lreachable calm R (no_life, [])"
| lr_step: "lreachable calm R s \<Longrightarrow> lstep calm R s t \<Longrightarrow> lreachable calm R t"

section \<open>One operation at a time\<close>

text \<open>
  The steady state: registered runners are distinct; nothing runs that was stopped or is not registered, but
  for \<open>X\<close>; and once the engine has started, what is registered and not stopped runs, but for \<open>Y\<close>.
\<close>

definition fresh :: "life \<Rightarrow> nat \<Rightarrow> bool" where
  "fresh l n \<longleftrightarrow> n < length (lfHeap l) \<and> \<not> rrStarted (lfHeap l ! n) \<and> \<not> rrStopped (lfHeap l ! n)"

definition steady :: "life \<Rightarrow> nat set \<Rightarrow> nat set \<Rightarrow> bool" where
  "steady l X Y \<longleftrightarrow>
     distinct (map fst (lfMap l)) \<and> distinct (map snd (lfMap l)) \<and> registered l \<subseteq> {..<length (lfHeap l)} \<and> lfLeft l = [] \<and>
     (\<forall>n < length (lfHeap l). loops_run (lfHeap l ! n) \<longrightarrow> \<not> rrStopped (lfHeap l ! n) \<and> n \<in> registered l \<union> X) \<and>
     (if lfStarted l then \<forall>n \<in> registered l - Y. \<not> rrStopped (lfHeap l ! n) \<longrightarrow> loops_run (lfHeap l ! n)
      else \<forall>n < length (lfHeap l). \<not> rrStarted (lfHeap l ! n))"

text \<open>What each thread relies on.\<close>

fun thread_ok :: "thread \<Rightarrow> life \<Rightarrow> bool" where
  "thread_ok (TBegin t) l = steady l {} {}"
| "thread_ok (TPop b t) l = (b = lfStarted l \<and> steady l {} {})"
| "thread_ok (TOld b t p) l =
     (b = lfStarted l \<and> tkID t \<notin> fst ` set (lfMap l) \<and> (\<forall>n. p = Some n \<longrightarrow> n < length (lfHeap l)) \<and> steady l (set_option p) {})"
| "thread_ok (TNew b t) l = (b = lfStarted l \<and> tkID t \<notin> fst ` set (lfMap l) \<and> steady l {} {})"
| "thread_ok (TInit b t n) l = (b = lfStarted l \<and> (tkID t, n) \<in> set (lfMap l) \<and> fresh l n \<and> steady l {} {n})"
| "thread_ok (TStart n) l = (lfStarted l \<and> n \<in> registered l \<and> fresh l n \<and> steady l {} {n})"
| "thread_ok (TFail i) l = (\<exists>n. (i, n) \<in> set (lfMap l) \<and> fresh l n \<and> steady l {} {n})"
| "thread_ok (BTasks ts) l =
     (\<not> lfStarted l \<and> (\<forall>(i, n) \<in> set (lfMap l). fresh l n \<or> i \<in> tkID ` {t \<in> set ts. tkEnabled t}) \<and> steady l {} {})"
| "thread_ok (BInit t m ts) l =
     (\<not> lfStarted l \<and> (\<forall>(i, n) \<in> set (lfMap l). fresh l n \<or> i \<in> tkID ` {t \<in> set ts. tkEnabled t}) \<and> steady l {} {})"
| "thread_ok (BFail i) l = (\<not> lfStarted l \<and> steady l {} {})"
| "thread_ok BSnap l = (lfStarted l \<and> (\<forall>n \<in> registered l. fresh l n) \<and> steady l {} (registered l))"
| "thread_ok (BStart ns) l =
     (lfStarted l \<and> distinct ns \<and> (\<forall>n \<in> set ns. n \<in> registered l \<and> fresh l n) \<and> steady l {} (set ns))"
| "thread_ok (SLook i) l = steady l {} {}"
| "thread_ok (SRemove i) l = steady l {} {}"
| "thread_ok (SStop n) l = (n < length (lfHeap l) \<and> steady l {n} {})"

definition calm_ok :: "life \<times> thread list \<Rightarrow> bool" where
  "calm_ok s \<longleftrightarrow> (case snd s of [] \<Rightarrow> steady (fst s) {} {} | [th] \<Rightarrow> thread_ok th (fst s) | _ \<Rightarrow> False)"

lemma life_simps [simp]:
  "lfMap (change_at n f l) = lfMap l" "lfStarted (change_at n f l) = lfStarted l" "lfLeft (change_at n f l) = lfLeft l"
  "length (lfHeap (change_at n f l)) = length (lfHeap l)" "registered (change_at n f l) = registered l"
  "lfHeap (unregister i l) = lfHeap l" "lfStarted (unregister i l) = lfStarted l" "lfLeft (unregister i l) = lfLeft l"
  "lfMap (unregister i l) = AList.delete i (lfMap l)"
  by (simp_all add: change_at_def registered_def unregister_def)

lemma heap_change_at:
  "m < length (lfHeap l) \<Longrightarrow> lfHeap (change_at n f l) ! m = (if m = n then f (lfHeap l ! n) else lfHeap l ! m)"
  by (simp add: change_at_def)

lemma fresh_unregister [simp]: "fresh (unregister i l) n = fresh l n"
  by (simp add: fresh_def)

lemma fresh_initialised [simp]: "fresh (initialised m l) n = fresh l n"
  by (auto simp: fresh_def initialised_def heap_change_at split: if_splits)

lemma fresh_start_at: "m \<noteq> n \<Longrightarrow> fresh (start_at m l) n = fresh l n"
  by (auto simp: fresh_def start_at_def heap_change_at change_at_def)

lemma steady_initialised [simp]: "steady (initialised n l) X Y = steady l X Y"
proof -
  have same: "m < length (lfHeap l) \<Longrightarrow> loops_run (lfHeap (initialised n l) ! m) = loops_run (lfHeap l ! m) \<and>
      rrStopped (lfHeap (initialised n l) ! m) = rrStopped (lfHeap l ! m) \<and>
      rrStarted (lfHeap (initialised n l) ! m) = rrStarted (lfHeap l ! m)" for m
    by (simp add: initialised_def heap_change_at loops_run_def)
  show ?thesis unfolding steady_def using same
    by (simp add: initialised_def subset_iff cong: conj_cong)
qed

lemma steady_stop_at:
  assumes "steady l X Y"
  shows "steady (stop_at n l) (X - {n}) Y"
proof -
  have at: "m < length (lfHeap l) \<Longrightarrow> lfHeap (stop_at n l) ! m = (if m = n then runner_stop (lfHeap l ! m) else lfHeap l ! m)" for m
    by (simp add: stop_at_def heap_change_at)
  have st: "loops_run (lfHeap l ! m) \<Longrightarrow> m < length (lfHeap l) \<Longrightarrow> \<not> rrStopped (lfHeap l ! m)" for m
    using assms by (auto simp: steady_def)
  have "\<not> loops_run (runner_stop (lfHeap l ! m))" if "m < length (lfHeap l)" for m
    using st [OF _ that] by (auto simp: loops_run_def runner_stop_def)
  then show ?thesis using assms at
    by (auto simp: steady_def stop_at_def subset_iff runner_stop_def split: if_splits)
qed

lemma steady_start_at:
  assumes "steady l X Y" "lfStarted l" "n \<in> registered l" "fresh l n"
  shows "steady (start_at n l) X (Y - {n})"
proof -
  have at: "m < length (lfHeap l) \<Longrightarrow> lfHeap (start_at n l) ! m = (if m = n then runner_start (lfHeap l ! m) else lfHeap l ! m)" for m
    by (auto simp: start_at_def heap_change_at change_at_def)
  have n: "\<not> loops_run (lfHeap l ! n)" "\<not> rrStopped (lfHeap l ! n)" "n < length (lfHeap l)"
    using assms(4) by (simp_all add: fresh_def loops_run_def)
  have same: "lfMap (start_at n l) = lfMap l" "lfStarted (start_at n l)" "length (lfHeap (start_at n l)) = length (lfHeap l)"
    "lfLeft (start_at n l) = lfLeft l" "registered (start_at n l) = registered l"
    using assms(2) n(1) by (simp_all add: start_at_def registered_def)
  have "\<not> rrStopped (lfHeap (start_at n l) ! m) \<and> m \<in> registered l \<union> X"
    if "m < length (lfHeap l)" "loops_run (lfHeap (start_at n l) ! m)" for m
    using that assms(1,3) n(2) by (cases "m = n") (simp_all add: at steady_def runner_start_def)
  moreover have "\<forall>m \<in> registered l - (Y - {n}). \<not> rrStopped (lfHeap (start_at n l) ! m) \<longrightarrow> loops_run (lfHeap (start_at n l) ! m)"
  proof
    fix m assume m: "m \<in> registered l - (Y - {n})"
    then have len: "m < length (lfHeap l)" using assms(1) unfolding steady_def by blast
    have "\<not> rrStopped (lfHeap l ! m) \<longrightarrow> loops_run (lfHeap l ! m)" if "m \<noteq> n"
      using m that assms(1,2) unfolding steady_def by (simp only: if_True) blast
    then show "\<not> rrStopped (lfHeap (start_at n l) ! m) \<longrightarrow> loops_run (lfHeap (start_at n l) ! m)"
      by (simp add: at [OF len]) (simp add: loops_run_def runner_start_def)
  qed
  ultimately show ?thesis using assms(1) unfolding steady_def by (simp only: same if_True) blast
qed

lemma snd_delete:
  "distinct (map fst xs) \<Longrightarrow> snd ` set xs \<subseteq> snd ` set (AList.delete k xs) \<union> set_option (map_of xs k)"
  by (auto simp: set_delete intro: rev_image_eqI)

lemma distinct_snd_delete: "distinct (map snd xs) \<Longrightarrow> distinct (map snd (AList.delete k xs))"
  by (simp add: AList.delete_eq distinct_map_filter)

lemma steady_unregister:
  assumes "steady l X Y"
  shows "steady (unregister i l) (X \<union> set_option (map_of (lfMap l) i)) Y"
proof -
  have sub: "registered (unregister i l) \<subseteq> registered l" by (auto simp: registered_def set_delete)
  have "registered l \<subseteq> registered (unregister i l) \<union> set_option (map_of (lfMap l) i)"
    using assms snd_delete [of "lfMap l" i] by (simp add: registered_def steady_def)
  with sub assms show ?thesis
    by (auto simp: steady_def distinct_snd_delete distinct_delete split: if_splits)
qed

lemma steady_mono: "steady l X Y \<Longrightarrow> X \<subseteq> X' \<Longrightarrow> Y \<subseteq> Y' \<Longrightarrow> steady l X' Y'"
  by (auto simp: steady_def split: if_splits)

text \<open>Taking out a runner that does not run leaves nothing behind.\<close>

lemma steady_unregister_idle:
  assumes "steady l X Y" "\<And>n. (i, n) \<in> set (lfMap l) \<Longrightarrow> \<not> loops_run (lfHeap l ! n)"
  shows "steady (unregister i l) X Y"
proof -
  have "n \<noteq> k" if "map_of (lfMap l) i = Some k" "loops_run (lfHeap l ! n)" for n k
    using assms(2) [OF map_of_SomeD [OF that(1)]] that(2) by blast
  with steady_unregister [OF assms(1), of i] show ?thesis
    by (auto simp: steady_def)
qed

lemma snd_update_subset: "snd ` set (AList.update k v xs) \<subseteq> insert v (snd ` set xs)"
  by (induction xs) auto

lemma distinct_snd_update:
  "distinct (map snd xs) \<Longrightarrow> v \<notin> snd ` set xs \<Longrightarrow> distinct (map snd (AList.update k v xs))"
proof (induction xs)
  case (Cons x xs)
  then show ?case using snd_update_subset [of k v xs] by (cases x) auto
qed simp

lemma heap_register: "m < length (lfHeap l) \<Longrightarrow> lfHeap (register R t l) ! m = lfHeap l ! m"
  by (simp add: register_def nth_append)

lemma register_simps [simp]:
  "length (lfHeap (register R t l)) = Suc (length (lfHeap l))" "lfStarted (register R t l) = lfStarted l"
  "lfLeft (register R t l) = lfLeft l" "lfMap (register R t l) = AList.update (tkID t) (length (lfHeap l)) (lfMap l)"
  "lfHeap (register R t l) ! length (lfHeap l) = (newRunner R t)\<lparr>rrInitializing := True\<rparr>"
  by (simp_all add: register_def)

lemma fresh_register [simp]: "fresh (register R t l) (length (lfHeap l))"
  by (simp add: fresh_def newRunner_def)

lemma fresh_register_old: "fresh l n \<Longrightarrow> fresh (register R t l) n"
  by (simp add: fresh_def heap_register)

lemma steady_register:
  assumes "steady l X Y" "tkID t \<notin> fst ` set (lfMap l) \<or> \<not> lfStarted l"
  shows "steady (register R t l) X (insert (length (lfHeap l)) Y)"
proof -
  let ?n = "length (lfHeap l)"
  have d: "distinct (map fst (lfMap l))" "distinct (map snd (lfMap l))" "registered l \<subseteq> {..<?n}" "lfLeft l = []"
    using assms(1) by (simp_all add: steady_def)
  have regs: "registered (register R t l) = insert ?n (snd ` {p \<in> set (lfMap l). fst p \<noteq> tkID t})"
    by (simp add: registered_def set_update_subset [OF d(1)])
  have sub: "registered (register R t l) \<subseteq> insert ?n (registered l)" using regs by (auto simp: registered_def)
  have runs: "\<not> rrStopped (lfHeap l ! m) \<and> m \<in> registered (register R t l) \<union> X"
    if "m < ?n" "loops_run (lfHeap l ! m)" for m
  proof -
    have "\<not> rrStopped (lfHeap l ! m)" "m \<in> registered l \<union> X" using assms(1) that unfolding steady_def by blast+
    moreover have "lfStarted l" using assms(1) that by (auto simp: steady_def loops_run_def split: if_splits)
    then have "registered l \<subseteq> registered (register R t l)" using assms(2) regs
      by (force simp: registered_def)
    ultimately show ?thesis by blast
  qed
  have new: "\<not> loops_run ((newRunner R t)\<lparr>rrInitializing := True\<rparr>)" "\<not> rrStarted ((newRunner R t)\<lparr>rrInitializing := True\<rparr>)"
    by (simp_all add: loops_run_def newRunner_def)
  have "n \<notin> snd ` set (lfMap l)" if "n = ?n" for n using d(3) that by (auto simp: registered_def)
  then have "distinct (map snd (lfMap (register R t l)))" using distinct_snd_update [OF d(2)] by simp
  moreover have "\<forall>m < Suc ?n. loops_run (lfHeap (register R t l) ! m) \<longrightarrow>
      \<not> rrStopped (lfHeap (register R t l) ! m) \<and> m \<in> registered (register R t l) \<union> X"
    using runs new(1) by (auto simp: less_Suc_eq heap_register)
  moreover have "if lfStarted l then \<forall>m \<in> registered (register R t l) - insert ?n Y.
        \<not> rrStopped (lfHeap (register R t l) ! m) \<longrightarrow> loops_run (lfHeap (register R t l) ! m)
      else \<forall>m < Suc ?n. \<not> rrStarted (lfHeap (register R t l) ! m)"
  proof (cases "lfStarted l")
    case True
    then have "\<forall>m \<in> registered l - Y. \<not> rrStopped (lfHeap l ! m) \<longrightarrow> loops_run (lfHeap l ! m)"
      using assms(1) by (simp add: steady_def)
    with True sub d(3) show ?thesis by (auto simp: heap_register subset_iff)
  next
    case False
    then have "\<forall>m < ?n. \<not> rrStarted (lfHeap l ! m)" using assms(1) by (simp add: steady_def)
    with False new(2) show ?thesis by (auto simp: less_Suc_eq heap_register)
  qed
  ultimately show ?thesis using d sub by (auto simp: steady_def distinct_update)
qed

lemma stop_ends: "steady l {n} Y \<Longrightarrow> steady (stop_at n l) {} Y"
  using steady_stop_at [of l "{n}" Y n] by simp

lemma stop_at_simps [simp]:
  "lfMap (stop_at n l) = lfMap l" "lfStarted (stop_at n l) = lfStarted l" "length (lfHeap (stop_at n l)) = length (lfHeap l)"
  by (simp_all add: stop_at_def)

lemma initialised_simps [simp]:
  "lfMap (initialised n l) = lfMap l" "lfStarted (initialised n l) = lfStarted l" "registered (initialised n l) = registered l"
  by (simp_all add: initialised_def)

lemma steady_unstarted: "steady l X Y \<Longrightarrow> \<not> lfStarted l \<Longrightarrow> steady l X Z"
  by (simp add: steady_def)

text \<open>Each step of a thread leads from what it relies on to what it relies on next.\<close>

definition next_ok :: "thread option \<Rightarrow> life \<Rightarrow> bool" where
  "next_ok p l \<longleftrightarrow> (case p of None \<Rightarrow> steady l {} {} | Some u \<Rightarrow> thread_ok u l)"

lemma next_ok_simps [simp]: "next_ok None l = steady l {} {}" "next_ok (Some u) l = thread_ok u l"
  by (simp_all add: next_ok_def)

lemma steady_map: "steady l X Y \<Longrightarrow> map_of (lfMap l) i = Some n \<Longrightarrow> n < length (lfHeap l)"
  by (auto simp: steady_def registered_def dest: map_of_SomeD)

lemma unregister_key: "i \<notin> fst ` set (lfMap (unregister i l))"
  by (auto simp: set_delete)

lemma not_in_keys: "x \<in> set (AList.delete i xs) \<Longrightarrow> x \<in> set xs"
  by (simp add: set_delete)

lemma unregister_fresh:
  assumes "(i, n) \<in> set (lfMap l)" "fresh l n" "steady l {} {n}"
  shows "steady (unregister i l) {} {}"
proof -
  have d: "distinct (map fst (lfMap l))" "distinct (map snd (lfMap l))" using assms(3) by (simp_all add: steady_def)
  have only: "m = n" if "(i, m) \<in> set (lfMap l)" for m using that assms(1) d(1) by (metis map_of_is_SomeI option.inject)
  then have "steady (unregister i l) {} {n}"
    using assms(2) by (intro steady_unregister_idle [OF assms(3)]) (auto simp: fresh_def loops_run_def)
  moreover have "n \<notin> registered (unregister i l)"
  proof
    assume "n \<in> registered (unregister i l)"
    then obtain k where k: "(k, n) \<in> set (lfMap l)" "k \<noteq> i" by (auto simp: registered_def set_delete)
    with assms(1) d(2) show False by (metis inj_onD distinct_map snd_conv fst_conv)
  qed
  ultimately show ?thesis by (auto simp: steady_def)
qed

lemma tstep_ok: "tstep R th l p l' \<Longrightarrow> thread_ok th l \<Longrightarrow> next_ok p l'"
proof (induction rule: tstep.induct)
  case (t_pop b t l)
  then show ?case using steady_unregister [of l "{}" "{}"] steady_map unregister_key by auto
next
  case (t_old b t p l)
  then show ?case by (cases p) (auto intro: stop_ends)
next
  case (t_new b t l)
  then show ?case using steady_register [of l "{}" "{}" t R] by (auto simp: set_update_subset steady_def)
next
  case (t_init b t n l)
  then have "n \<in> registered l" by (force simp: registered_def)
  with t_init show ?case by (cases b) (auto elim: steady_unstarted)
next
  case (t_init_fail b t n l)
  then show ?case by auto
next
  case (t_start n l)
  then show ?case using steady_start_at [of l "{}" "{n}" n] by simp
next
  case (t_fail i l)
  then show ?case using unregister_fresh by auto
next
  case (s_remove i l)
  then show ?case using steady_unregister [of l "{}" "{}" i] by (cases "map_of (lfMap l) i") (auto dest: steady_map)
next
  case (s_look i l)
  then show ?case by (cases "map_of (lfMap l) i") (auto dest: steady_map intro: steady_mono)
next
  case (s_stop n l)
  then show ?case by (auto intro: stop_ends)
next
  case (b_new t ts l)
  then have "steady (register R t l) {} {}"
    using steady_unstarted [OF steady_register [of l "{}" "{}" t R], of "{}"] by simp
  moreover have "distinct (map fst (lfMap l))" using b_new.prems by (simp add: steady_def)
  moreover have "fresh l n \<or> i \<in> tkID ` {t \<in> set ts. tkEnabled t}" if "(i, n) \<in> set (lfMap l)" "i \<noteq> tkID t" for i n
    using b_new.prems that by auto
  ultimately show ?case using b_new.prems by (auto simp: set_update_subset dest: fresh_register_old)
next
  case (b_fail i l)
  have "\<not> loops_run (lfHeap l ! n)" if "(i, n) \<in> set (lfMap l)" for n
  proof -
    have "n \<in> registered l" using that by (force simp: registered_def)
    then show ?thesis using b_fail by (auto simp: steady_def loops_run_def)
  qed
  with b_fail steady_unregister_idle show ?case by simp
next
  case (b_flag l)
  then show ?case by (auto simp: steady_def registered_def fresh_def)
next
  case (b_start n ns l)
  then have "lfStarted (start_at n l)" "registered (start_at n l) = registered l"
    by (simp_all add: start_at_def registered_def)
  moreover have "fresh (start_at n l) m" if "m \<in> set ns" for m
    using b_start.prems that by (subst fresh_start_at) auto
  ultimately show ?case using b_start steady_start_at [of l "{}" "insert n (set ns)" n] by simp
qed auto

lemma begins_ok: "begins l th \<Longrightarrow> steady l {} {} \<Longrightarrow> thread_ok th l"
  by (cases th) auto

lemma lstep_calm_ok:
  assumes "lstep True R s t" "calm_ok s"
  shows "calm_ok t"
  using assms(1)
proof (cases rule: lstep.cases)
  case (l_begin l th ths)
  with assms(2) begins_ok show ?thesis by (simp add: calm_ok_def)
next
  case (l_run th l p l' xs ys)
  with assms(2) have "xs = []" "ys = []" "thread_ok th l"
    by (cases xs; cases ys; auto simp: calm_ok_def split: list.splits)+
  with l_run tstep_ok [of R th l p l'] show ?thesis by (cases p) (simp_all add: calm_ok_def)
qed

lemma lreachable_calm_ok: "lreachable True R s \<Longrightarrow> calm_ok s"
proof (induction rule: lreachable.induct)
  case lr_init
  show ?case by (simp add: calm_ok_def steady_def no_life_def registered_def)
qed (rule lstep_calm_ok)

section \<open>Beyond control\<close>

text \<open>
  A runner whose loops run, and whose cancel function nobody will call: it was stopped already, or it is
  neither registered nor in a thread's hands.
\<close>

fun refs :: "thread \<Rightarrow> nat set" where
  "refs (TOld b t p) = set_option p"
| "refs (TInit b t n) = {n}" | "refs (TStart n) = {n}" | "refs (BInit t n ts) = {n}"
| "refs (BStart ns) = set ns" | "refs (SStop n) = {n}" | "refs _ = {}"

definition beyond :: "nat \<Rightarrow> life \<times> thread list \<Rightarrow> bool" where
  "beyond n s \<longleftrightarrow> (case s of (l, ths) \<Rightarrow> n < length (lfHeap l) \<and> loops_run (lfHeap l ! n) \<and>
     (rrStopped (lfHeap l ! n) \<or> n \<notin> registered l \<and> (\<forall>th \<in> set ths. n \<notin> refs th)))"

lemma beyond_change:
  assumes "n < length (lfHeap l)" "loops_run (lfHeap l ! n)" "rrStopped (lfHeap l ! n) \<or> n \<noteq> m"
  shows "loops_run (lfHeap (stop_at m l) ! n)" "rrStopped (lfHeap (stop_at m l) ! n) = rrStopped (lfHeap l ! n)"
    "loops_run (lfHeap (start_at m l) ! n)" "rrStopped (lfHeap (start_at m l) ! n) = rrStopped (lfHeap l ! n)"
    "loops_run (lfHeap (initialised m l) ! n)" "rrStopped (lfHeap (initialised m l) ! n) = rrStopped (lfHeap l ! n)"
  using assms
  by (cases "n = m"; simp add: stop_at_def start_at_def initialised_def heap_change_at loops_run_def runner_stop_def runner_start_def)+

lemma registered_register: "registered (register R t l) \<subseteq> insert (length (lfHeap l)) (registered l)"
  by (simp add: registered_def snd_update_subset)

lemma tstep_refs:
  "tstep R th l p l' \<Longrightarrow> (\<forall>u. p = Some u \<longrightarrow> refs u \<subseteq> refs th \<union> registered l \<union> {length (lfHeap l)}) \<and>
    registered l' \<subseteq> registered l \<union> {length (lfHeap l)} \<and> length (lfHeap l) \<le> length (lfHeap l')"
proof (induction rule: tstep.induct)
  case (t_new b t l)
  show ?case using registered_register [of R t l] by simp
next
  case (b_new t ts l)
  show ?case using registered_register [of R t l] by simp
next
  case (t_old b t p l)
  then show ?case by (cases p) (auto simp: stop_at_def)
qed (auto simp: registered_def unregister_def set_delete start_at_def stop_at_def initialised_def change_at_def
    intro: rev_image_eqI dest: map_of_SomeD)

lemma tstep_runs:
  "tstep R th l p l' \<Longrightarrow> n < length (lfHeap l) \<Longrightarrow> loops_run (lfHeap l ! n) \<Longrightarrow> rrStopped (lfHeap l ! n) \<or> n \<notin> refs th \<Longrightarrow>
    loops_run (lfHeap l' ! n) \<and> rrStopped (lfHeap l' ! n) = rrStopped (lfHeap l ! n)"
proof (induction rule: tstep.induct)
  case (t_old b t p l)
  then show ?case by (cases p) (auto simp: beyond_change)
qed (auto simp: beyond_change heap_register)

lemma lstep_beyond:
  assumes "lstep calm R s t" "beyond n s"
  shows "beyond n t"
  using assms(1)
proof (cases rule: lstep.cases)
  case (l_begin l th ths)
  have "refs th = {}" using l_begin(3) by (cases th) simp_all
  with l_begin assms(2) show ?thesis by (auto simp: beyond_def)
next
  case (l_run th l p l' xs ys)
  have b: "n < length (lfHeap l)" "loops_run (lfHeap l ! n)"
    "rrStopped (lfHeap l ! n) \<or> n \<notin> registered l \<and> (\<forall>u \<in> set (xs @ th # ys). n \<notin> refs u)"
    using assms(2) l_run(1) by (simp_all add: beyond_def)
  have r: "loops_run (lfHeap l' ! n)" "rrStopped (lfHeap l' ! n) = rrStopped (lfHeap l ! n)"
    using tstep_runs [OF l_run(3) b(1,2)] b(3) by auto
  have "n < length (lfHeap l')" using tstep_refs [OF l_run(3)] b(1) by simp
  moreover have "rrStopped (lfHeap l ! n) \<or> n \<notin> registered l' \<and>
      (\<forall>u \<in> set (xs @ (case p of None \<Rightarrow> [] | Some u \<Rightarrow> [u]) @ ys). n \<notin> refs u)"
    using tstep_refs [OF l_run(3)] b(1,3) by (cases p) auto
  ultimately show ?thesis using r l_run(2) by (simp add: beyond_def)
qed

lemma beyond_forever: "(lstep calm R)\<^sup>*\<^sup>* s t \<Longrightarrow> beyond n s \<Longrightarrow> beyond n t"
  by (induction rule: rtranclp_induct) (auto intro: lstep_beyond)

section \<open>Properties\<close>

text \<open>C18. Who runs. While each operation on the engine (boot, reload, stop, removal, failures included) ends before the next one
  begins, then between operations and after the start exactly those runners watch and tick that are
  registered and were not stopped; before the start none does.\<close>

theorem calm_engine_exact:
  assumes "lreachable True R (l, [])"
  shows "active l n \<longleftrightarrow> lfStarted l \<and> n \<in> registered l \<and> \<not> stopped l n"
proof -
  have st: "steady l {} {}" using lreachable_calm_ok [OF assms] by (simp add: calm_ok_def)
  then have d: "registered l \<subseteq> {..<length (lfHeap l)}" "lfLeft l = []" by (simp_all add: steady_def)
  have run: "lfStarted l \<and> n \<in> registered l \<and> \<not> rrStopped (lfHeap l ! n)"
    if "n < length (lfHeap l)" "loops_run (lfHeap l ! n)"
    using st that by (auto simp: steady_def loops_run_def split: if_splits)
  have "loops_run (lfHeap l ! n)" if "lfStarted l" "n \<in> registered l" "\<not> rrStopped (lfHeap l ! n)"
    using st that by (simp add: steady_def)
  with run d show ?thesis by (auto simp: active_def stopped_def)
qed

text \<open>One step of the last thread, and one of the last but one.\<close>

lemma run_last:
  "lreachable calm R (l, xs @ [th]) \<Longrightarrow> tstep R th l p l' \<Longrightarrow>
    lreachable calm R (l', xs @ (case p of None \<Rightarrow> [] | Some u \<Rightarrow> [u]))"
  using lr_step [OF _ l_run [of R th l p l' calm xs "[]"]] by simp

lemma run_first:
  "lreachable calm R (l, th # ys) \<Longrightarrow> tstep R th l p l' \<Longrightarrow>
    lreachable calm R (l', (case p of None \<Rightarrow> [] | Some u \<Rightarrow> [u]) @ ys)"
  using lr_step [OF _ l_run [of R th l p l' calm "[]" ys]] by simp

lemma begin_last:
  "lreachable calm R (l, ths) \<Longrightarrow> begins l th \<Longrightarrow> \<not> is_boot th \<Longrightarrow> (calm \<longrightarrow> ths = []) \<Longrightarrow> lreachable calm R (l, ths @ [th])"
  using lr_step l_begin by blast

definition booted :: life where
  "booted = no_life\<lparr>lfStarted := True\<rparr>"

lemma booted_reachable: "lreachable calm R (booted, [])"
proof -
  have "lreachable calm R (no_life, [] @ [BTasks []])"
    by (rule lr_step [OF lr_init l_begin]) (simp_all add: no_life_def)
  from run_last [OF this b_flag] have "lreachable calm R (booted, [] @ [BSnap])" by (simp add: booted_def)
  from run_last [OF this b_snap [of "[]"]] have "lreachable calm R (booted, [] @ [BStart []])"
    by (simp add: booted_def no_life_def registered_def)
  from run_last [OF this b_done] show ?thesis by simp
qed

text \<open>A reload up to the point where it initialises its runner.\<close>

lemma reload_reachable:
  assumes "lreachable calm R (l, ths)" "calm \<longrightarrow> ths = []" "tkEnabled t"
  shows "lreachable calm R
    (register R t (case map_of (lfMap l) (tkID t) of None \<Rightarrow> unregister (tkID t) l | Some n \<Rightarrow> stop_at n (unregister (tkID t) l)),
     ths @ [TInit (lfStarted l) t (length (lfHeap l))])"
proof -
  let ?o = "map_of (lfMap l) (tkID t)"
  let ?l = "case ?o of None \<Rightarrow> unregister (tkID t) l | Some n \<Rightarrow> stop_at n (unregister (tkID t) l)"
  have "lreachable calm R (l, ths @ [TBegin t])" using begin_last [OF assms(1)] assms(2) by simp
  from run_last [OF this t_read] have "lreachable calm R (l, ths @ [TPop (lfStarted l) t])" by simp
  from run_last [OF this t_pop] have "lreachable calm R (unregister (tkID t) l, ths @ [TOld (lfStarted l) t ?o])" by simp
  from run_last [OF this t_old] assms(3) have "lreachable calm R (?l, ths @ [TNew (lfStarted l) t])" by simp
  from run_last [OF this t_new] show ?thesis by (simp split: option.splits)
qed

theorem calm_engine_exact_witness:
  "\<exists>l. lreachable True (NewRules id [] []) (l, []) \<and> (\<forall>n. active l n \<longleftrightarrow> lfStarted l \<and> n \<in> registered l \<and> \<not> stopped l n) \<and>
     lfMap l = [(''t_1'', 0)] \<and> active l 0"
proof -
  let ?R = "NewRules id [] []" and ?t = "(undefined :: Task)\<lparr>tkID := ''t_1'', tkEnabled := True\<rparr>"
  let ?l = "start_at 0 (initialised 0 (register ?R ?t booted))"
  have "lreachable True ?R (register ?R ?t booted, [] @ [TInit True ?t 0])"
    using reload_reachable [OF booted_reachable, of True ?t ?R] by (simp add: booted_def no_life_def unregister_def)
  from run_last [OF this t_init] have "lreachable True ?R (initialised 0 (register ?R ?t booted), [] @ [TStart 0])" by simp
  from run_last [OF this t_start] have r: "lreachable True ?R (?l, [])" by simp
  have "active ?l 0" "lfMap ?l = [(''t_1'', 0)]"
    by (simp_all add: active_def loops_run_def start_at_def initialised_def change_at_def register_def booted_def no_life_def runner_start_def)
  with r calm_engine_exact [OF r] show ?thesis by blast
qed

lemmas life_defs = active_def stopped_def loops_run_def start_at_def initialised_def stop_at_def change_at_def register_def
  unregister_def registered_def booted_def no_life_def newRunner_def runner_start_def runner_stop_def

lemma beyond_active: "beyond n (l, ths) \<Longrightarrow> active l n"
  by (simp add: beyond_def active_def)

lemma beyond_always: "beyond n s \<Longrightarrow> \<forall>l' ths. (lstep calm R)\<^sup>*\<^sup>* s (l', ths) \<longrightarrow> active l' n"
  using beyond_forever beyond_active by blast

text \<open>The first reload of a task, with its runner registered and being initialised.\<close>

lemma first_reload:
  assumes "tkEnabled t"
  shows "lreachable calm R (register R t booted, [TInit True t 0])"
  using reload_reachable [OF booted_reachable, of calm t R] assms by (simp add: booted_def no_life_def unregister_def)

text \<open>C36. A stop during the initialisation is lost, and the task cannot be stopped any more. The engine can reach a state in
  which nothing is under way, the task's runner was stopped while it was being initialised, and it
  watches and ticks all the same; and it goes on doing so whatever is done with the engine afterwards,
  stopping, reloading and removing the task included.\<close>

theorem stop_during_init_lost:
  assumes "tkEnabled t"
  shows "\<exists>l n. lreachable False R (l, []) \<and> lfMap l = [(tkID t, n)] \<and> rrTask (lfHeap l ! n) = t \<and> stopped l n \<and>
    (\<forall>l' ths. (lstep False R)\<^sup>*\<^sup>* (l, []) (l', ths) \<longrightarrow> active l' n)"
proof -
  let ?a = "register R t booted"
  let ?l = "start_at 0 (initialised 0 (stop_at 0 ?a))"
  have "lreachable False R (?a, [TInit True t 0] @ [SLook (tkID t)])"
    using begin_last [OF first_reload [OF assms], where th = "SLook (tkID t)" and R = R and calm = False] by simp
  from run_last [OF this s_look] have "lreachable False R (?a, [TInit True t 0] @ [SStop 0])"
    by (simp add: booted_def no_life_def)
  from run_last [OF this s_stop] have "lreachable False R (stop_at 0 ?a, [] @ [TInit True t 0])" by simp
  from run_last [OF this t_init] have "lreachable False R (initialised 0 (stop_at 0 ?a), [] @ [TStart 0])" by simp
  from run_last [OF this t_start] have r: "lreachable False R (?l, [])" by simp
  have l: "lfMap ?l = [(tkID t, 0)]" "rrTask (lfHeap ?l ! 0) = t" "stopped ?l 0" "beyond 0 (?l, [])"
    by (simp_all add: life_defs beyond_def)
  show ?thesis by (intro exI [of _ ?l] exI [of _ "0 :: nat"] conjI r l(1-3) beyond_always [OF l(4)])
qed

theorem stop_during_init_lost_witness:
  "\<exists>l n. lreachable False (NewRules id [] []) (l, []) \<and> lfMap l = [(''t_1'', n)] \<and> stopped l n \<and>
    (\<forall>l' ths. (lstep False (NewRules id [] []))\<^sup>*\<^sup>* (l, []) (l', ths) \<longrightarrow> active l' n)"
proof -
  let ?t = "(undefined :: Task)\<lparr>tkID := ''t_1'', tkEnabled := True\<rparr>"
  have "tkEnabled ?t" by simp
  from stop_during_init_lost [OF this, of "NewRules id [] []"] show ?thesis by auto
qed

text \<open>Saving a task again while it is being initialised leaves two runners for it: the first is stopped before it
  is started, then both are started, and the first, no longer registered, goes on for ever.\<close>

theorem saved_twice_runs_twice:
  fixes t t' :: Task
  assumes "tkEnabled t" "tkEnabled t'" "tkID t' = tkID t"
  shows "\<exists>l. lreachable False R (l, []) \<and> lfMap l = [(tkID t, 1)] \<and> rrTask (lfHeap l ! 0) = t \<and>
    rrTask (lfHeap l ! 1) = t' \<and> active l 1 \<and> (\<forall>l' ths. (lstep False R)\<^sup>*\<^sup>* (l, []) (l', ths) \<longrightarrow> active l' 0)"
proof -
  let ?a = "register R t booted"
  let ?b = "register R t' (stop_at 0 (unregister (tkID t) ?a))"
  let ?l = "start_at 0 (initialised 0 (start_at 1 (initialised 1 ?b)))"
  have "lreachable False R (?b, [TInit True t 0] @ [TInit True t' 1])"
    using reload_reachable [OF first_reload [OF assms(1)], where t = t' and R = R and calm = False] assms(2,3)
    by (simp add: booted_def no_life_def register_def)
  from run_last [OF this t_init] have "lreachable False R (initialised 1 ?b, [TInit True t 0] @ [TStart 1])" by simp
  from run_last [OF this t_start] have "lreachable False R (start_at 1 (initialised 1 ?b), [] @ [TInit True t 0])" by simp
  from run_last [OF this t_init]
  have "lreachable False R (initialised 0 (start_at 1 (initialised 1 ?b)), [] @ [TStart 0])" by simp
  from run_last [OF this t_start] have r: "lreachable False R (?l, [])" by simp
  have l: "lfMap ?l = [(tkID t, 1)]" "rrTask (lfHeap ?l ! 0) = t" "rrTask (lfHeap ?l ! 1) = t'" "active ?l 1" "beyond 0 (?l, [])"
    using assms(3) by (simp_all add: life_defs beyond_def)
  show ?thesis by (intro exI [of _ ?l] conjI r l(1-4) beyond_always [OF l(5)])
qed

text \<open>When the first of two overlapping reloads fails, it takes out the runner of the second: the task counts as not ready, and
  its runner goes on for ever.\<close>

theorem failed_reload_orphans:
  fixes t t' :: Task
  assumes "tkEnabled t" "tkEnabled t'" "tkID t' = tkID t"
  shows "\<exists>l. lreachable False R (l, []) \<and> lfMap l = [] \<and> rrTask (lfHeap l ! 1) = t' \<and> \<not> stopped l 1 \<and>
    (\<forall>l' ths. (lstep False R)\<^sup>*\<^sup>* (l, []) (l', ths) \<longrightarrow> active l' 1)"
proof -
  let ?a = "register R t booted"
  let ?b = "register R t' (stop_at 0 (unregister (tkID t) ?a))"
  let ?c = "start_at 1 (initialised 1 ?b)"
  let ?l = "unregister (tkID t) (initialised 0 ?c)"
  have "lreachable False R (?b, [TInit True t 0] @ [TInit True t' 1])"
    using reload_reachable [OF first_reload [OF assms(1)], where t = t' and R = R and calm = False] assms(2,3)
    by (simp add: booted_def no_life_def register_def)
  from run_last [OF this t_init] have "lreachable False R (initialised 1 ?b, [TInit True t 0] @ [TStart 1])" by simp
  from run_last [OF this t_start] have "lreachable False R (?c, [] @ [TInit True t 0])" by simp
  from run_last [OF this t_init_fail] have "lreachable False R (initialised 0 ?c, [] @ [TFail (tkID t)])" by simp
  from run_last [OF this t_fail] have r: "lreachable False R (?l, [])" by simp
  have l: "lfMap ?l = []" "rrTask (lfHeap ?l ! 1) = t'" "\<not> stopped ?l 1" "beyond 1 (?l, [])"
    using assms(3) by (simp_all add: life_defs beyond_def)
  show ?thesis by (intro exI [of _ ?l] conjI r l(1-3) beyond_always [OF l(4)])
qed

end
