(* ===== verification/Engine_Registry.thy ===== *)
theory Engine_Registry
  imports Engine_Lifecycle
begin

text \<open>
  What stays true of the registry of runners however the operations of the engine interleave. \<open>Engine_Core\<close> has
  the operations as functions that run to their end, \<open>Engine_Lifecycle\<close> their critical sections as steps of
  threads; this theory is about the steps, and every thread the program can start at any time.
\<close>

section \<open>The invariant\<close>






lemma runner_fields [simp]:
  "rrTask (runner_stop r) = rrTask r" "rrInitializing (runner_stop r) = rrInitializing r" "rrStarted (runner_stop r) = rrStarted r"
  "rrTask (runner_start r) = rrTask r" "rrInitializing (runner_start r) = rrInitializing r"
  by (simp_all add: runner_stop_def runner_start_def)






text \<open>What other threads know stays true: the engine never stops being started, and no runner is forgotten.\<close>

definition grows :: "life \<Rightarrow> life \<Rightarrow> bool" where
  "grows l l' \<longleftrightarrow> length (lfHeap l) \<le> length (lfHeap l') \<and> (lfStarted l \<longrightarrow> lfStarted l')"


lemma grows_simps [simp]:
  "grows l l" "grows l (unregister i l)" "grows l (stop_at n l)" "grows l (start_at n l)" "grows l (initialised n l)"
  "grows l (register R t l)" "grows l (l\<lparr>lfStarted := True\<rparr>)"
  by (simp_all add: grows_def stop_at_def start_at_def initialised_def)






section \<open>Properties\<close>



end
