(* ===== verification/Drive_World.thy ===== *)
theory Drive_World
  imports Apply_Settles Upload_Props Drive_Files
begin

text \<open>
  The executor on the client: \<open>mirror/apply.go\<close> and \<open>mirror/cloud.go\<close> call the methods of \<open>drive.Client\<close>,
  which the environment of the executor has as plain calls. Here those calls are the client's own
  functions (\<open>drive/files.go\<close>, \<open>drive/upload.go\<close>), on the platform's replies; what the executor relies on
  is derived from what the platform promises.
\<close>

section \<open>The environment with the client in it\<close>

definition answer :: "('e + 'a) \<times> 'w \<Rightarrow> 'a option \<times> 'w" where
  "answer r = (case r of (Inl _, w) \<Rightarrow> (None, w) | (Inr a, w) \<Rightarrow> (Some a, w))"

definition done_ok :: "('e + 'a) \<times> 'w \<Rightarrow> bool \<times> 'w" where
  "done_ok r = (case r of (Inl _, w) \<Rightarrow> (False, w) | (Inr _, w) \<Rightarrow> (True, w))"

definition client_env :: "'w api \<Rightarrow> 'w upenv \<Rightarrow> 'w env \<Rightarrow> 'w env" where
  "client_env ac up ev = ev\<lparr>
     evCreateFolder := (\<lambda>w pid name path. answer (CreateFolder ac pid name path w)),
     evGetDirInfo := (\<lambda>w path. answer (GetDirInfo ac path w)),
     evMoveFile := (\<lambda>w fid cid. done_ok (MoveFile ac fid cid w)),
     evRenameFile := (\<lambda>w fid name. answer (RenameFile ac fid name w)),
     evDeleteFile := (\<lambda>w fid. done_ok (DeleteFile ac fid w)),
     evUpload := (\<lambda>w path cid. answer (UploadHelper up path cid [] [] w)),
     evDownloadURL := (\<lambda>w pickCode. apfst (map_option fst) (answer (GetDownloadURL ac pickCode ''115tools'' w)))\<rparr>"

section \<open>What the platform promises\<close>

text \<open>
  No call to the platform changes what the program keeps (\<open>I\<close> is any property of the world that the program
  itself established). A new or found folder has an id; a known or uploaded file has an id and a
  pickcode of letters and digits.
\<close>

definition file_named :: "string \<Rightarrow> string \<Rightarrow> bool" where
  "file_named fid pc \<longleftrightarrow> fid \<noteq> [] \<and> length fid < 65536 \<and> pc \<noteq> [] \<and> list_all is_alnum pc"

definition folder_named :: "DirInfo \<Rightarrow> bool" where
  "folder_named i \<longleftrightarrow> diFid i \<noteq> [] \<and> length (diFid i) < 65536"

definition api_keeps :: "('w \<Rightarrow> bool) \<Rightarrow> 'w api \<Rightarrow> bool" where
  "api_keeps I ac \<longleftrightarrow>
     (\<forall>w p f. I w \<longrightarrow> I (snd (acFolder ac w p f)) \<and> I (snd (acDir ac w p f)) \<and> I (snd (acUnit ac w p f)))"

definition upload_keeps :: "('w \<Rightarrow> bool) \<Rightarrow> 'w upenv \<Rightarrow> bool" where
  "upload_keeps I up \<longleftrightarrow>
     (\<forall>w. I w \<longrightarrow> (\<forall>f. I (snd (upInit up w f))) \<and> I (snd (upToken up w)) \<and> (\<forall>n cb. I (snd (upPut up w n cb))) \<and>
       I (snd (upBegin up w)) \<and> (\<forall>u p. I (snd (upPart up w u p))) \<and>
       (\<forall>u ps cb. I (snd (upComplete up w u ps cb))) \<and> (\<forall>n. I (snd (upSleep up w n))))"

definition folders_named :: "'w api \<Rightarrow> bool" where
  "folders_named ac \<longleftrightarrow>
     (\<forall>w p f fid. fst (acFolder ac w p f) = Inr fid \<longrightarrow> fid \<noteq> [] \<and> length fid < 65536) \<and>
     (\<forall>w p f i. fst (acDir ac w p f) = Inr (Some i) \<longrightarrow> folder_named i)"

text \<open>The pickcode of a file the server knew already; the code does not check it.\<close>

definition known_named :: "'w upenv \<Rightarrow> bool" where
  "known_named up \<longleftrightarrow>
     (\<forall>w f info. fst (upInit up w f) = Some (Some info) \<longrightarrow> uiStatus info = 2 \<longrightarrow> file_named (uiFid info) (uiPickCode info))"

definition sent_named :: "'w upenv \<Rightarrow> bool" where
  "sent_named up \<longleftrightarrow>
     (\<forall>w n cb fid pc. fst (upPut up w n cb) = Some (Some (fid, pc)) \<longrightarrow> fid \<noteq> [] \<longrightarrow> pc \<noteq> [] \<longrightarrow> file_named fid pc) \<and>
     (\<forall>w u ps cb fid pc. fst (upComplete up w u ps cb) = Some (Some (fid, pc)) \<longrightarrow> fid \<noteq> [] \<longrightarrow> pc \<noteq> [] \<longrightarrow> file_named fid pc)"

section \<open>The upload\<close>

lemma keeps_call:
  assumes "upload_keeps I up"
  shows "upInit up w f = (r1, w1) \<Longrightarrow> I w \<Longrightarrow> I w1" "upToken up w = (r2, w1) \<Longrightarrow> I w \<Longrightarrow> I w1"
    "upPut up w n cb = (r3, w1) \<Longrightarrow> I w \<Longrightarrow> I w1" "upBegin up w = (r4, w1) \<Longrightarrow> I w \<Longrightarrow> I w1"
    "upPart up w u p = (r5, w1) \<Longrightarrow> I w \<Longrightarrow> I w1" "upComplete up w u ps cb = (r6, w1) \<Longrightarrow> I w \<Longrightarrow> I w1"
    "upSleep up w k = (r7, w1) \<Longrightarrow> I w \<Longrightarrow> I w1"
  using assms unfolding upload_keeps_def by (metis snd_conv)+

lemma send_part_keeps:
  assumes "upload_keeps I up"
  shows "send_part up u p a k w = (r, w') \<Longrightarrow> I w \<Longrightarrow> I w'"
proof (induction k arbitrary: a w)
  case (Suc k)
  then show ?case by (auto split: prod.splits option.splits bool.splits dest: keeps_call [OF assms])
qed (auto split: prod.splits option.splits dest: keeps_call [OF assms])

lemma send_parts_keeps:
  assumes "upload_keeps I up"
  shows "send_parts up u n ps k i off parts w = (r, w') \<Longrightarrow> I w \<Longrightarrow> I w'"
proof (induction k arbitrary: i off parts w)
  case (Suc k)
  then show ?case by (auto simp: Let_def split: prod.splits sum.splits if_splits dest: send_part_keeps [OF assms])
qed simp

lemma ossUpload_keeps:
  assumes "upload_keeps I up" "ossUpload up cb n w = (r, w')" "I w"
  shows "I w'"
  using assms(2,3)
  by (auto simp: ossUpload_def singleUpload_def multipartUpload_def split: if_splits prod.splits option.splits sum.splits
      dest: keeps_call [OF assms(1)] send_parts_keeps [OF assms(1)])

lemma ossUpload_named:
  assumes "sent_named up" "ossUpload up cb n w = (Inr (Some (fid, pc)), w')" "fid \<noteq> []" "pc \<noteq> []"
  shows "file_named fid pc"
proof -
  have "(\<exists>w n cb. fst (upPut up w n cb) = Some (Some (fid, pc))) \<or>
      (\<exists>w u ps cb. fst (upComplete up w u ps cb) = Some (Some (fid, pc)))"
    using assms(2)
    by (auto simp: ossUpload_def singleUpload_def multipartUpload_def split: if_splits prod.splits option.splits sum.splits)
       (metis fst_conv)+
  then show ?thesis using assms(1,3,4) unfolding sent_named_def by blast
qed

lemma uploadByOSS_keeps:
  assumes "upload_keeps I up" "uploadByOSS up path n init sha w = (r, w')" "I w"
  shows "I w'"
  using assms(2,3)
  by (auto simp: uploadByOSS_def split: if_splits prod.splits option.splits sum.splits bool.splits
      dest: keeps_call [OF assms(1)] ossUpload_keeps [OF assms(1)])

lemma uploadByOSS_named:
  assumes "sent_named up" "uploadByOSS up path n init sha w = (Inr (fid, pc), w')"
  shows "file_named fid pc"
  using assms(2) ossUpload_named [OF assms(1)]
  by (auto simp: uploadByOSS_def split: if_splits prod.splits option.splits sum.splits bool.splits)

lemma upload_loop_keeps:
  assumes "upload_keeps I up"
  shows "upload_loop up path req k w = (r, w') \<Longrightarrow> I w \<Longrightarrow> I w'"
proof (induction k arbitrary: req w)
  case (Suc k)
  then show ?case
    by (auto simp: initUpload_def split: if_splits prod.splits option.splits sum.splits
        dest: keeps_call [OF assms] uploadByOSS_keeps [OF assms])
qed simp

lemma upload_loop_named:
  assumes "known_named up" "sent_named up"
  shows "upload_loop up path req k w = (Inr (fid, pc), w') \<Longrightarrow> file_named fid pc"
proof (induction k arbitrary: req w)
  case (Suc k)
  show ?case
  proof (cases "initUpload up req w")
    case (Pair r w1)
    then obtain init where i: "r = Inr init" "\<not> upCancelled up w"
      using Suc.prems by (cases r) (auto split: if_splits)
    have named: "uiStatus init = 2 \<Longrightarrow> file_named (uiFid init) (uiPickCode init)"
      using Pair i assms(1) by (auto simp: initUpload_def known_named_def split: prod.splits option.splits) (metis fst_conv)
    consider "uiStatus init = 2" | "uiStatus init \<in> {6, 7, 8}" | "uiStatus init \<notin> {2, 6, 7, 8}" by blast
    then show ?thesis
    proof cases
      case 1
      then show ?thesis using Suc.prems Pair i named by (auto simp: file_named_def)
    next
      case 2
      then show ?thesis using Suc.prems Suc.IH Pair i by (auto split: sum.splits)
    next
      case 3
      then have "uploadByOSS up path (urFileSize req) init (urFileSha1 req) w1 = (Inr (fid, pc), w')"
        using Suc.prems Pair i by simp
      then show ?thesis by (rule uploadByOSS_named [OF assms(2)])
    qed
  qed
qed simp

lemma UploadHelper_keeps:
  assumes "upload_keeps I up" "UploadHelper up path cid k v w = (r, w')" "I w"
  shows "I w'"
  using assms(2,3) by (auto simp: UploadHelper_def split: if_splits option.splits prod.splits dest: upload_loop_keeps [OF assms(1)])

lemma UploadHelper_named:
  assumes "known_named up" "sent_named up" "UploadHelper up path cid k v w = (Inr (fid, pc), w')"
  shows "file_named fid pc"
  using assms(3) by (auto simp: UploadHelper_def split: if_splits option.splits prod.splits dest: upload_loop_named [OF assms(1,2)])

section \<open>The executor's world\<close>

lemma client_env_simps [simp]:
  "evIdxPut (client_env ac up ev) = evIdxPut ev" "evIdxGet (client_env ac up ev) = evIdxGet ev"
  "evIdxClear (client_env ac up ev) = evIdxClear ev" "evIdxStrmFids (client_env ac up ev) = evIdxStrmFids ev"
  "evWriteFile (client_env ac up ev) = evWriteFile ev" "evReadFile (client_env ac up ev) = evReadFile ev"
  "evRemove (client_env ac up ev) = evRemove ev" "evCacheMove (client_env ac up ev) = evCacheMove ev"
  "evStat (client_env ac up ev) = evStat ev"
  "evCreateFolder (client_env ac up ev) = (\<lambda>w pid name path. answer (CreateFolder ac pid name path w))"
  "evMoveFile (client_env ac up ev) = (\<lambda>w fid cid. done_ok (MoveFile ac fid cid w))"
  "evDeleteFile (client_env ac up ev) = (\<lambda>w fid. done_ok (DeleteFile ac fid w))"
  "evUpload (client_env ac up ev) = (\<lambda>w path cid. answer (UploadHelper up path cid [] [] w))"
  by (simp_all add: client_env_def)

text \<open>What the platform leaves alone, and that its folders have ids; then also that its files are named.\<close>

definition platform_keeps :: "'w env \<Rightarrow> ('w \<Rightarrow> bool) \<Rightarrow> 'w api \<Rightarrow> 'w upenv \<Rightarrow> bool" where
  "platform_keeps ev good ac up \<longleftrightarrow>
     (\<forall>g. api_keeps (\<lambda>w. good w \<and> evIdxGet ev w = g) ac \<and> upload_keeps (\<lambda>w. good w \<and> evIdxGet ev w = g) up) \<and>
     folders_named ac"

definition platform_ok :: "'w env \<Rightarrow> ('w \<Rightarrow> bool) \<Rightarrow> 'w api \<Rightarrow> 'w upenv \<Rightarrow> bool" where
  "platform_ok ev good ac up \<longleftrightarrow> platform_keeps ev good ac up \<and> known_named up \<and> sent_named up"

lemma GetDirInfo_world:
  assumes "api_keeps I ac" "folders_named ac" "GetDirInfo ac path w = (r, w')" "I w"
  shows "I w' \<and> (\<forall>i. r = Inr i \<longrightarrow> folder_named i)"
  using assms unfolding GetDirInfo_def api_keeps_def folders_named_def
  by (auto simp: folder_named_def split: if_splits prod.splits sum.splits option.splits) (metis snd_conv fst_conv)+

lemma CreateFolder_world:
  assumes "api_keeps I ac" "folders_named ac" "CreateFolder ac pid name path w = (r, w')" "I w"
  shows "I w' \<and> (\<forall>i. r = Inr i \<longrightarrow> folder_named i)"
proof -
  obtain r1 w1 where c: "acFolder ac w ''/open/folder/add'' [(''pid'', pid), (''file_name'', name)] = (r1, w1)" by fastforce
  have w1: "I w1" using assms(1,4) c unfolding api_keeps_def by (metis snd_conv)
  show ?thesis
  proof (cases r1)
    case (Inr fid)
    then have "fid \<noteq> [] \<and> length fid < 65536" using assms(2) c unfolding folders_named_def by (metis fst_conv)
    then show ?thesis using assms(3) c w1 Inr by (auto simp: CreateFolder_def folder_named_def)
  next
    case (Inl e)
    obtain r2 w2 where g: "GetDirInfo ac path w1 = (r2, w2)" by fastforce
    show ?thesis using assms(3) c w1 Inl g GetDirInfo_world [OF assms(1,2) g w1]
      by (cases r2) (auto simp: CreateFolder_def split: if_splits)
  qed
qed

lemma answer_eq: "answer r = (p, w) \<Longrightarrow> r = (case p of None \<Rightarrow> (Inl (projl (fst r)), w) | Some a \<Rightarrow> (Inr a, w))"
  by (auto simp: answer_def split: prod.splits sum.splits)

lemma acUnit_world: "api_keeps I ac \<Longrightarrow> done_ok (acUnit ac w p f) = (ok, w') \<Longrightarrow> I w \<Longrightarrow> I w'"
  unfolding api_keeps_def by (cases "acUnit ac w p f") (auto simp: done_ok_def split: sum.splits; metis snd_conv)

lemma client_index_world:
  assumes iw: "index_world ev good" and pl: "platform_keeps ev good ac up"
  shows "index_world (client_env ac up ev) good"
proof (unfold_locales, goal_cases)
  case (3 w a b c di w')
  then obtain r where r: "CreateFolder ac a b c w = (r, w')" "\<forall>i. di = Some i \<longrightarrow> r = Inr i"
    by (auto dest!: answer_eq split: option.splits)
  have "api_keeps (\<lambda>v. good v \<and> evIdxGet ev v = evIdxGet ev w) ac" "folders_named ac"
    using pl unfolding platform_keeps_def by blast+
  from CreateFolder_world [OF this r(1)] 3(1) r(2) show ?case by (auto simp: folder_named_def)
next
  case (7 w f ok w')
  have "api_keeps (\<lambda>v. good v \<and> evIdxGet ev v = evIdxGet ev w) ac" using pl unfolding platform_keeps_def by blast
  from acUnit_world [OF this, of w] 7 show ?case by (simp add: DeleteFile_def)
next
  case (1 w p r) then show ?case using index_world.put_get_world [OF iw, of w p r] by simp
next
  case (2 w p) then show ?case using index_world.clear_root [OF iw, of w p] by simp
next
  case (4 w p d ok w') then show ?case using index_world.write_index [OF iw, of w p d ok w'] by simp
next
  case (5 w p) then show ?case using index_world.remove_index [OF iw, of w p] by simp
next
  case (6 w mv p pc ok w') then show ?case using index_world.cache_index [OF iw, of w mv p pc ok w'] by simp
qed

lemma client_files:
  assumes mf: "mirror_files ev good" and pl: "platform_keeps ev good ac up"
  shows "mirror_files (client_env ac up ev) good"
proof -
  have iw: "index_world (client_env ac up ev) good"
    using client_index_world [OF _ pl] mf by (simp add: mirror_files_def)
  have "mirror_files_axioms (client_env ac up ev) good"
  proof (unfold_locales, goal_cases)
    case (5 w f t ok w')
    have "api_keeps (\<lambda>v. good v \<and> evIdxGet ev v = evIdxGet ev w) ac" using pl unfolding platform_keeps_def by blast
    from acUnit_world [OF this, of w] 5 show ?case by (simp add: MoveFile_def)
  next
    case (1 w p d w') then show ?case using mirror_files.write_read [OF mf, of w p d w'] by simp
  next
    case (2 w p r q) then show ?case using mirror_files.put_read [OF mf, of w p r q] by simp
  next
    case (3 p q w) then show ?case using mirror_files.remove_read [OF mf, of p q w] by simp
  next
    case (4 mv p q w pc ok w') then show ?case using mirror_files.cache_read [OF mf, of mv p q w pc ok w'] by simp
  qed
  with iw show ?thesis by (simp add: mirror_files_def)
qed

text \<open>An upload through the client keeps the program's state and answers with what the helper returns.\<close>

lemma client_upload:
  assumes "platform_keeps ev good ac up" "good w" "evUpload (client_env ac up ev) w p par = (res, w')"
  shows "good w' \<and> evIdxGet ev w' = evIdxGet ev w \<and> (\<forall>x. res = Some x \<longrightarrow> UploadHelper up p par [] [] w = (Inr x, w'))"
proof -
  have k: "upload_keeps (\<lambda>v. good v \<and> evIdxGet ev v = evIdxGet ev w) up" using assms(1) unfolding platform_keeps_def by blast
  from assms(3) obtain r where r: "UploadHelper up p par [] [] w = (r, w')" "\<forall>x. res = Some x \<longrightarrow> r = Inr x"
    by (auto dest!: answer_eq split: option.splits)
  with UploadHelper_keeps [OF k r(1)] assms(2) show ?thesis by simp
qed

lemma client_world:
  assumes mw: "mirror_world ev good" and pl: "platform_ok ev good ac up"
  shows "mirror_world (client_env ac up ev) good"
proof -
  have p: "platform_keeps ev good ac up" "known_named up" "sent_named up" using pl by (simp_all add: platform_ok_def)
  have mf: "mirror_files (client_env ac up ev) good"
    using client_files [OF _ p(1)] mw by (simp add: mirror_world_def)
  have "mirror_world_axioms (client_env ac up ev) good"
  proof (unfold_locales, goal_cases)
    case (1 w path par res w')
    then show ?case using client_upload [OF p(1) 1] UploadHelper_named [OF p(2,3)] by (fastforce simp: file_named_def)
  qed
  with mf show ?thesis by (simp add: mirror_world_def)
qed

section \<open>Properties\<close>

text \<open>C5. A video uploaded through the client is settled. The executor runs on the client's own calls, the client on a
  platform that keeps its promises (an uploaded or known file has an id and a pickcode, a folder an id). Then,
  after any upload of a local video that succeeds, whether the platform knew the file, took it in one piece or in
  parts, the index has a record of the link, the link file reads back as the record's pickcode, and the
  planner has nothing to do for it.\<close>

theorem client_upload_is_synced:
  assumes "mirror_world ev good" "platform_ok ev good ac up" "good (rnWorld s)" "opIsVideo op" "\<not> IsStrmPath (opPath op)"
    and "evStat ev (rnWorld s) (opPath op) = Inr info" "apply_upload (client_env ac up ev) a op cfg s = Some (Some (), s')"
    and "link_prefix (paStrmURL (apPaths a)) sch auth lpath" "apAuth a auth"
    and "plAuth p = apAuth a" "plPaths p = apPaths a" "fsReadFile (plFS p) = evReadFile ev (rnWorld s')"
  shows "\<exists>rec. evIdxGet ev (rnWorld s') (VideoToStrmPath (opPath op)) = Some rec \<and> rKind rec = KindStrm \<and>
    ParseStrmFile (plAuth p) (fsReadFile (plFS p) (VideoToStrmPath (opPath op))) = rPickCode rec \<and>
    decideStrm p (VideoToStrmPath (opPath op)) rec = []"
  using upload_synced [OF client_world [OF assms(1,2)] assms(3-5) _ assms(7-11)] assms(6,12) by simp

text \<open>A platform on the simulated files: one folder per request, and the answers to the initialisation.\<close>

definition sim_api :: "sim_world api" where
  "sim_api =
     \<lparr>acList = (\<lambda>w p f. (Inr [], w)), acDown = (\<lambda>w p f ua. (Inr None, w)), acFolder = (\<lambda>w p f. (Inr ''d1'', w)),
      acDir = (\<lambda>w p f. (Inr None, w)), acRename = (\<lambda>w p f. (Inr [], w)), acUnit = (\<lambda>w p f. (Inr (), w))\<rparr>"

definition sim_up :: "UploadInitInfo \<Rightarrow> sim_world upenv" where
  "sim_up info =
     \<lparr>upStat = (\<lambda>w p. map_option (\<lambda>d. int (length d)) (map_of (smFiles (snd w)) p)), upOpen = (\<lambda>w p. True),
      upSha1 = (\<lambda>w p. Some (''ab'', ''cd'')), upPartial = (\<lambda>w p a b. ''ef''), upInit = (\<lambda>w f. (Some (Some info), w)),
      upToken = (\<lambda>w. (True, w)), upPut = (\<lambda>w n cb. (Some (Some (''u1'', ''abc1'')), w)), upBegin = (\<lambda>w. (Some ''u'', w)),
      upPart = (\<lambda>w u p. (Some ''t'', w)), upComplete = (\<lambda>w u ps cb. (Some (Some (''u1'', ''abc1'')), w)),
      upSleep = (\<lambda>w n. (True, w)), upCancelled = (\<lambda>w. False)\<rparr>"

definition sim_info :: "int \<Rightarrow> string \<Rightarrow> string \<Rightarrow> UploadInitInfo" where
  "sim_info st fid pc =
     \<lparr>uiStatus = st, uiFid = fid, uiPickCode = pc, uiSignKey = [], uiSignCheck = [], uiBucket = [], uiObject = [],
      uiCallback = \<lparr>cbCallback = [], cbCallbackVar = []\<rparr>\<rparr>"

lemma sim_platform_ok: "st \<noteq> 2 \<Longrightarrow> platform_ok (with_store al_bolt sim_env) sim_plain sim_api (sim_up (sim_info st fid pc))"
  by (auto simp: platform_ok_def platform_keeps_def api_keeps_def upload_keeps_def folders_named_def known_named_def sent_named_def
      sim_api_def sim_up_def sim_info_def file_named_def is_alnum_def)

definition sim_files :: "(string \<times> string) list \<Rightarrow> sim" where
  "sim_files fs = \<lparr>smFiles = fs, smCalls = [], smInstant = [], smBroken = False\<rparr>"

definition sim_upload :: "UploadInitInfo \<Rightarrow> (unit option \<times> sim_world run) option" where
  "sim_upload info = apply_upload (client_env sim_api (sim_up info) (with_store al_bolt sim_env)) sample_applier
     ((newOp OpUpload ''/m/a.mkv'' [])\<lparr>opIsVideo := True\<rparr>) sample_local_cfg (sim_run [] (sim_files [(''/m/a.mkv'', ''x'')]))"

lemma sim_helper:
  assumes "map_of (smFiles (snd w)) p = Some ''x''"
  shows "UploadHelper (sim_up (sim_info 1 [] [])) p cid [] [] w = (Inr (''u1'', ''abc1''), w)"
    "UploadHelper (sim_up (sim_info 2 ''7'' [])) p cid [] [] w = (Inr (''7'', []), w)"
  using assms
  by (simp_all add: UploadHelper_def maxUploadRetries_def numeral_3_eq_3 initUpload_def uploadByOSS_def ossUpload_def
      singleUpload_def ossMultipartThreshold_def sim_up_def sim_info_def)

lemma sim_paths: "VideoToStrmPath ''/m/a.mkv'' = ''/m/a.strm''" "\<not> IsStrmPath ''/m/a.mkv''" "path_dir ''/m/a.mkv'' = ''/m''"
  "RelToRoot ''/m'' ''/m'' (CHR ''/'') = []"
  by code_simp+

lemmas sim_run_defs = sim_upload_def apply_upload_def EnsureLocalDir_def replaceWithStrm_def removeOriginal_def WriteStrmFile_def
  Let_def step_defs lift_call_def sim_run_def sim_files_def sample_applier_def newOp_def answer_def update_conv' delete_conv'

lemma sim_upload_sent:
  "\<exists>s'. sim_upload (sim_info 1 [] []) = Some (Some (), s') \<and>
    map_of (smFiles (snd (rnWorld s'))) ''/m/a.strm'' = Some (StrmContent ''http://h'' ''abc1'')"
  by (simp add: sim_run_defs sim_paths sim_helper)

definition sim_planner :: "sim_world run \<Rightarrow> planner" where
  "sim_planner s = sample_planner ((list_fs [] [])\<lparr>fsReadFile := evReadFile (with_store al_bolt sim_env) (rnWorld s)\<rparr>) (list_index []) True"

lemma sim_planner_simps:
  "plAuth (sim_planner s) = apAuth sample_applier" "plPaths (sim_planner s) = apPaths sample_applier"
  "fsReadFile (plFS (sim_planner s)) = evReadFile (with_store al_bolt sim_env) (rnWorld s)" "plAuth (sim_planner s) = (\<lambda>a. a = ''h'')"
  by (simp_all add: sim_planner_def sample_planner_def sample_applier_def)

theorem client_upload_is_synced_witness:
  "\<exists>s' rec. sim_upload (sim_info 1 [] []) = Some (Some (), s') \<and>
    Get al_bolt (fst (rnWorld s')) ''/m/a.strm'' = Some rec \<and> rPickCode rec = ''abc1''"
proof -
  let ?op = "(newOp OpUpload ''/m/a.mkv'' [])\<lparr>opIsVideo := True\<rparr>"
  let ?s = "sim_run [] (sim_files [(''/m/a.mkv'', ''x'')])"
  obtain s' where s': "sim_upload (sim_info 1 [] []) = Some (Some (), s')"
    "map_of (smFiles (snd (rnWorld s'))) ''/m/a.strm'' = Some (StrmContent ''http://h'' ''abc1'')"
    using sim_upload_sent by blast
  have pl: "platform_ok (with_store al_bolt sim_env) sim_plain sim_api (sim_up (sim_info 1 [] []))"
    by (rule sim_platform_ok) simp
  have l: "link_prefix (paStrmURL (apPaths sample_applier)) ''http'' ''h'' []" "apAuth sample_applier ''h''"
    by (simp_all add: sample_applier_def link_prefix_def trim_right_def is_letter_def is_ctl_def)
  have st: "sim_plain (rnWorld ?s)" "opIsVideo ?op" "\<not> IsStrmPath (opPath ?op)"
    "evStat (with_store al_bolt sim_env) (rnWorld ?s) (opPath ?op) = Inr (False, 1)"
    by (simp_all add: sim_plain_def sim_good_def sim_run_def sim_files_def newOp_def sim_paths(2))
  have "ParseStrmFile (\<lambda>a. a = ''h'') (Some (StrmContent ''http://h'' ''abc1'')) = ''abc1''" by code_simp
  then show ?thesis
    using client_upload_is_synced [OF simw.mirror_world_axioms pl st s'(1) [unfolded sim_upload_def] l sim_planner_simps(1-3)]
      s' sim_paths(1) sim_planner_simps(3,4) by (auto simp: newOp_def)
qed

section \<open>A known file without a pickcode\<close>







end
