(* ===== verification/Store_File.thy ===== *)
theory Store_File
  imports Go_Text "HOL-Library.AList"
begin

text \<open>
  The database file of \<open>internal/store/store.go\<close>: opening it, closing it, and compacting it at the start of the program.
  bbolt's \<open>Open\<close>, \<open>Close\<close> and \<open>Compact\<close> and the two calls on the file system are the fields of
  \<open>dblib\<close> on a world \<open>'w\<close>, with handles \<open>'h\<close>.
\<close>

section \<open>The operations\<close>

datatype remove_result = Removed | WasMissing | NotRemoved

record ('h, 'w) dblib =
  dlOpen :: "'w \<Rightarrow> bool \<Rightarrow> string \<Rightarrow> 'h option \<times> 'w"
  dlClose :: "'w \<Rightarrow> 'h \<Rightarrow> bool \<times> 'w"
  dlBuckets :: "'w \<Rightarrow> 'h \<Rightarrow> bool \<times> 'w"
  dlCompact :: "'w \<Rightarrow> 'h \<Rightarrow> 'h \<Rightarrow> bool \<times> 'w"
  dlRemove :: "'w \<Rightarrow> string \<Rightarrow> remove_result \<times> 'w"
  dlRename :: "'w \<Rightarrow> string \<Rightarrow> string \<Rightarrow> bool \<times> 'w"

text \<open>\<open>dlOpen w True\<close> opens read-only; \<open>dlBuckets\<close> is the transaction that creates the two buckets.\<close>

record 'h db_file =
  dfDb :: "'h option"
  dfPath :: string

datatype open_error = DbOpenFailed | BucketsFailed

definition New_store :: "('h, 'w) dblib \<Rightarrow> string \<Rightarrow> 'w \<Rightarrow> (open_error + 'h db_file) \<times> 'w" where
  "New_store dl path w =
     (case dlOpen dl w False path of
        (None, w1) \<Rightarrow> (Inl DbOpenFailed, w1)
      | (Some db, w1) \<Rightarrow>
          (case dlBuckets dl w1 db of
             (False, w2) \<Rightarrow> (Inl BucketsFailed, snd (dlClose dl w2 db))
           | (True, w2) \<Rightarrow> (Inr \<lparr>dfDb = Some db, dfPath = path\<rparr>, w2)))"

definition close_file :: "('h, 'w) dblib \<Rightarrow> 'h db_file \<Rightarrow> 'w \<Rightarrow> bool \<times> 'h db_file \<times> 'w" where
  "close_file dl s w =
     (case dfDb s of
        None \<Rightarrow> (True, s, w)
      | Some db \<Rightarrow> (case dlClose dl w db of (ok, w1) \<Rightarrow> (ok, s\<lparr>dfDb := None\<rparr>, w1)))"

definition tmp_path :: "string \<Rightarrow> string" where
  "tmp_path p = p @ ''.compact.tmp''"

text \<open>The body of \<open>compactFiles\<close> once the source is open; closing the source is deferred.\<close>

definition compact_into :: "('h, 'w) dblib \<Rightarrow> string \<Rightarrow> 'h \<Rightarrow> 'w \<Rightarrow> bool \<times> 'w" where
  "compact_into dl path src w =
     (let tmp = tmp_path path in
      case dlRemove dl w tmp of
        (NotRemoved, w1) \<Rightarrow> (False, w1)
      | (_, w1) \<Rightarrow>
          (case dlOpen dl w1 False tmp of
             (None, w2) \<Rightarrow> (False, w2)
           | (Some dst, w2) \<Rightarrow>
               (case dlCompact dl w2 dst src of
                  (False, w3) \<Rightarrow> (False, snd (dlRemove dl (snd (dlClose dl w3 dst)) tmp))
                | (True, w3) \<Rightarrow>
                    (case dlClose dl w3 dst of
                       (False, w4) \<Rightarrow> (False, w4)
                     | (True, w4) \<Rightarrow> dlRename dl w4 tmp path))))"

definition compactFiles :: "('h, 'w) dblib \<Rightarrow> string \<Rightarrow> 'w \<Rightarrow> bool \<times> 'w" where
  "compactFiles dl path w =
     (case dlOpen dl w True path of
        (None, w1) \<Rightarrow> (False, w1)
      | (Some src, w1) \<Rightarrow> (case compact_into dl path src w1 of (ok, w2) \<Rightarrow> (ok, snd (dlClose dl w2 src))))"

definition reopen :: "('h, 'w) dblib \<Rightarrow> 'h db_file \<Rightarrow> 'w \<Rightarrow> bool \<times> 'h db_file \<times> 'w" where
  "reopen dl s w =
     (case dlOpen dl w False (dfPath s) of
        (None, w1) \<Rightarrow> (False, s, w1)
      | (Some db, w1) \<Rightarrow> (True, s\<lparr>dfDb := Some db\<rparr>, w1))"

datatype compact_result = Compacted | CloseFailed | CompactFailed | NotRestored | NotReopened

definition Compact_store :: "('h, 'w) dblib \<Rightarrow> 'h db_file \<Rightarrow> 'w \<Rightarrow> compact_result \<times> 'h db_file \<times> 'w" where
  "Compact_store dl s w =
     (case dfDb s of
        None \<Rightarrow> (Compacted, s, w)
      | Some db \<Rightarrow>
          (case dlClose dl w db of
             (False, w1) \<Rightarrow> (CloseFailed, s, w1)
           | (True, w1) \<Rightarrow>
               (case compactFiles dl (dfPath s) w1 of
                  (False, w2) \<Rightarrow>
                    (case reopen dl s w2 of
                       (False, s', w3) \<Rightarrow> (NotRestored, s', w3)
                     | (True, s', w3) \<Rightarrow> (CompactFailed, s', w3))
                | (True, w2) \<Rightarrow>
                    (case reopen dl s w2 of
                       (False, s', w3) \<Rightarrow> (NotReopened, s', w3)
                     | (True, s', w3) \<Rightarrow> (Compacted, s', w3)))))"

section \<open>What bbolt and the file system promise\<close>

text \<open>
  \<open>cont w p\<close> is what the database at a path holds. Opening changes no existing database; a copy has the
  contents of its source; renaming replaces the target, or on failure changes nothing; a handle
  that was just opened is live.
\<close>

definition dblib_ok :: "('h, 'w) dblib \<Rightarrow> ('w \<Rightarrow> string \<Rightarrow> 'c option) \<Rightarrow> ('h \<Rightarrow> string) \<Rightarrow> ('w \<Rightarrow> 'h \<Rightarrow> bool) \<Rightarrow> bool" where
  "dblib_ok dl cont file live \<longleftrightarrow>
     (\<forall>w ro p r w'. dlOpen dl w ro p = (r, w') \<longrightarrow>
        (\<forall>q. cont w q \<noteq> None \<longrightarrow> cont w' q = cont w q) \<and> (\<forall>h. r = Some h \<longrightarrow> file h = p \<and> live w' h)) \<and>
     (\<forall>w h ok w'. dlClose dl w h = (ok, w') \<longrightarrow> cont w' = cont w) \<and>
     (\<forall>w d s ok w'. dlCompact dl w d s = (ok, w') \<longrightarrow>
        (\<forall>q. q \<noteq> file d \<longrightarrow> cont w' q = cont w q) \<and> (ok \<longrightarrow> cont w' (file d) = cont w (file s))) \<and>
     (\<forall>w p r w'. dlRemove dl w p = (r, w') \<longrightarrow> (\<forall>q. q \<noteq> p \<longrightarrow> cont w' q = cont w q)) \<and>
     (\<forall>w p q ok w'. dlRename dl w p q = (ok, w') \<longrightarrow> (if ok then cont w' q = cont w p else cont w' q = cont w q))"

lemma dblib_okD:
  assumes "dblib_ok dl cont file live"
  shows "dlOpen dl w ro p = (r, w') \<Longrightarrow> cont w q = Some c \<Longrightarrow> cont w' q = Some c"
    "dlOpen dl w ro p = (Some h, w') \<Longrightarrow> file h = p" "dlOpen dl w ro p = (Some h, w') \<Longrightarrow> live w' h"
    "dlClose dl w h = (ok, w') \<Longrightarrow> cont w' = cont w"
    "dlCompact dl w d s = (ok, w') \<Longrightarrow> q \<noteq> file d \<Longrightarrow> cont w' q = cont w q"
    "dlCompact dl w d s = (True, w') \<Longrightarrow> cont w' (file d) = cont w (file s)"
    "dlRemove dl w p = (rr, w') \<Longrightarrow> q \<noteq> p \<Longrightarrow> cont w' q = cont w q"
    "dlRename dl w p q = (True, w') \<Longrightarrow> cont w' q = cont w p" "dlRename dl w p q = (False, w') \<Longrightarrow> cont w' q = cont w q"
  using assms unfolding dblib_ok_def by (metis option.distinct(1))+

lemma tmp_path_differs [simp]: "tmp_path p \<noteq> p" "p \<noteq> tmp_path p"
  by (simp_all add: tmp_path_def)

lemma compact_into_keeps:
  assumes ok: "dblib_ok dl cont file live" and src: "file src = path" and c: "cont w path = Some c"
    and r: "compact_into dl path src w = (res, w')"
  shows "cont w' path = Some c"
proof -
  note law = dblib_okD [OF ok]
  obtain rr w1 where rm: "dlRemove dl w (tmp_path path) = (rr, w1)" by fastforce
  have c1: "cont w1 path = Some c" using law(7) [OF rm, of path] c by simp
  obtain od w2 where op: "dlOpen dl w1 False (tmp_path path) = (od, w2)" by fastforce
  have c2: "cont w2 path = Some c" by (rule law(1) [OF op c1])
  show ?thesis
  proof (cases "rr = NotRemoved \<or> od = None")
    case True
    then show ?thesis using r rm op c1 c2 by (cases rr) (auto simp: compact_into_def Let_def)
  next
    case False
    then obtain dst where dst: "od = Some dst" by auto
    have f: "file dst = tmp_path path" using law(2) op dst by simp
    obtain co w3 where cp: "dlCompact dl w2 dst src = (co, w3)" by fastforce
    have c3: "cont w3 path = Some c" using law(5) [OF cp, of path] f c2 by simp
    obtain cl w4 where cls: "dlClose dl w3 dst = (cl, w4)" by fastforce
    have c4: "cont w4 = cont w3" by (rule law(4) [OF cls])
    obtain r5 w5 where rm2: "dlRemove dl w4 (tmp_path path) = (r5, w5)" by fastforce
    obtain r6 w6 where rn: "dlRename dl w4 (tmp_path path) path = (r6, w6)" by fastforce
    have c5: "cont w5 path = Some c" using law(7) [OF rm2, of path] c3 c4 by simp
    have c6: "cont w6 path = Some c" if co
    proof (cases r6)
      case True
      have "cont w4 (tmp_path path) = Some c" using law(6) [of w2 dst src w3] cp that f src c2 c4 by simp
      then show ?thesis using law(8) [of w4 "tmp_path path" path w6] rn True by simp
    next
      case False
      then show ?thesis using law(9) [of w4 "tmp_path path" path w6] rn c3 c4 by simp
    qed
    show ?thesis using False r rm op dst cp cls rm2 rn c3 c4 c5 c6
      by (cases rr; cases co; cases cl) (auto simp: compact_into_def Let_def)
  qed
qed

lemma compactFiles_keeps:
  assumes ok: "dblib_ok dl cont file live" and c: "cont w path = Some c" and r: "compactFiles dl path w = (res, w')"
  shows "cont w' path = Some c"
proof -
  note law = dblib_okD [OF ok]
  obtain so w1 where op: "dlOpen dl w True path = (so, w1)" by fastforce
  have c1: "cont w1 path = Some c" by (rule law(1) [OF op c])
  show ?thesis
  proof (cases so)
    case None
    then show ?thesis using r op c1 by (simp add: compactFiles_def)
  next
    case (Some src)
    obtain ci w2 where ci: "compact_into dl path src w1 = (ci, w2)" by fastforce
    have c2: "cont w2 path = Some c" using compact_into_keeps [OF ok _ c1 ci] law(2) op Some by simp
    have "cont (snd (dlClose dl w2 src)) = cont w2" using law(4) [of w2 src] by (metis prod.collapse)
    then show ?thesis using r op Some ci c2 by (simp add: compactFiles_def) 
  qed
qed

lemma reopen_keeps:
  assumes ok: "dblib_ok dl cont file live" and c: "cont w (dfPath s) = Some c" and r: "reopen dl s w = (res, s', w')"
  shows "cont w' (dfPath s) = Some c" "dfPath s' = dfPath s" "res \<Longrightarrow> \<exists>h. dfDb s' = Some h \<and> file h = dfPath s \<and> live w' h" "\<not> res \<Longrightarrow> s' = s"
  using r c dblib_okD [OF ok] by (auto simp: reopen_def split: prod.splits option.splits)

lemma compact_data:
  assumes "dblib_ok dl cont file live" "dfDb s = Some db" "cont w (dfPath s) = Some c"
    and "Compact_store dl s w = (res, s', w')"
  shows "cont w' (dfPath s) = Some c \<and> dfPath s' = dfPath s \<and>
    (res \<in> {Compacted, CompactFailed} \<longrightarrow> (\<exists>h. dfDb s' = Some h \<and> file h = dfPath s \<and> live w' h)) \<and>
    (res \<notin> {Compacted, CompactFailed} \<longrightarrow> s' = s)"
proof -
  obtain ok w1 where cl: "dlClose dl w db = (ok, w1)" by fastforce
  have c1: "cont w1 (dfPath s) = Some c" using dblib_okD(4) [OF assms(1) cl] assms(3) by simp
  obtain cok w2 where cf: "compactFiles dl (dfPath s) w1 = (cok, w2)" by fastforce
  have c2: "cont w2 (dfPath s) = Some c" by (rule compactFiles_keeps [OF assms(1) c1 cf])
  obtain rok s3 w3 where ro: "reopen dl s w2 = (rok, s3, w3)" by (metis prod_cases3)
  note k = reopen_keeps [OF assms(1) c2 ro]
  show ?thesis using assms(2,4) cl c1 cf ro k
    by (cases ok; cases cok; cases rok) (auto simp: Compact_store_def)
qed

section \<open>Properties\<close>

text \<open>C24. Compacting loses nothing. Whatever fails on the way (closing, copying, removing, renaming, reopening), the database at the
  store's path holds what it held before; and unless the result says that the file could not be closed or
  opened again, the store has a live connection to it.\<close>

theorem compact_keeps_data:
  assumes "dblib_ok dl cont file live" "dfDb s = Some db" "cont w (dfPath s) = Some c"
    and "Compact_store dl s w = (res, s', w')"
  shows "cont w' (dfPath s) = Some c \<and> dfPath s' = dfPath s \<and>
    (res \<in> {Compacted, CompactFailed} \<longrightarrow> (\<exists>h. dfDb s' = Some h \<and> file h = dfPath s \<and> live w' h)) \<and>
    (res \<notin> {Compacted, CompactFailed} \<longrightarrow> s' = s)"
  by (rule compact_data [OF assms])

text \<open>A library that meets the promises: files by path, and handles that are numbered and know their path.\<close>

record toy_disk =
  tdFiles :: "(string \<times> string) list"
  tdNext :: nat
  tdLive :: "nat list"

definition toy_open :: "toy_disk \<Rightarrow> bool \<Rightarrow> string \<Rightarrow> (nat \<times> string) option \<times> toy_disk" where
  "toy_open w ro p =
     (if ro \<and> map_of (tdFiles w) p = None then (None, w)
      else (Some (tdNext w, p),
        w\<lparr>tdFiles := (if map_of (tdFiles w) p = None then (p, []) # tdFiles w else tdFiles w),
          tdNext := Suc (tdNext w), tdLive := tdNext w # tdLive w\<rparr>))"

definition toy_lib :: "bool \<Rightarrow> (nat \<times> string, toy_disk) dblib" where
  "toy_lib broken =
     \<lparr>dlOpen = toy_open,
      dlClose = (\<lambda>w h. (True, w\<lparr>tdLive := removeAll (fst h) (tdLive w)\<rparr>)),
      dlBuckets = (\<lambda>w h. (True, w)),
      dlCompact = (\<lambda>w d s. if broken then (False, w)
         else (True, w\<lparr>tdFiles := (case map_of (tdFiles w) (snd s) of None \<Rightarrow> AList.delete (snd d) (tdFiles w)
           | Some c \<Rightarrow> AList.update (snd d) c (tdFiles w))\<rparr>)),
      dlRemove = (\<lambda>w p. (if map_of (tdFiles w) p = None then WasMissing else Removed, w\<lparr>tdFiles := AList.delete p (tdFiles w)\<rparr>)),
      dlRename = (\<lambda>w p q. case map_of (tdFiles w) p of None \<Rightarrow> (False, w)
         | Some c \<Rightarrow> (True, w\<lparr>tdFiles := AList.update q c (AList.delete p (tdFiles w))\<rparr>))\<rparr>"

lemma toy_lib_ok: "dblib_ok (toy_lib broken) (\<lambda>w. map_of (tdFiles w)) snd (\<lambda>w h. fst h \<in> set (tdLive w))"
  by (auto simp: dblib_ok_def toy_lib_def toy_open_def update_conv' delete_conv' split: if_splits option.splits)

theorem compact_keeps_data_witness:
  "\<exists>s' w'. Compact_store (toy_lib True) \<lparr>dfDb = Some (0, ''sync.db''), dfPath = ''sync.db''\<rparr>
      \<lparr>tdFiles = [(''sync.db'', ''data'')], tdNext = 1, tdLive = [0]\<rparr> = (CompactFailed, s', w') \<and>
    map_of (tdFiles w') ''sync.db'' = Some ''data'' \<and> dfDb s' \<noteq> None"
proof -
  let ?s = "\<lparr>dfDb = Some (0, ''sync.db''), dfPath = ''sync.db''\<rparr> :: (nat \<times> string) db_file"
  let ?w = "\<lparr>tdFiles = [(''sync.db'', ''data'')], tdNext = 1, tdLive = [0]\<rparr>"
  have "fst (Compact_store (toy_lib True) ?s ?w) = CompactFailed" by code_simp
  then obtain s' w' where r: "Compact_store (toy_lib True) ?s ?w = (CompactFailed, s', w')" by (metis prod.collapse)
  from compact_keeps_data [OF toy_lib_ok _ _ r, where db = "(0, ''sync.db'')" and c = "''data''"] r show ?thesis by auto
qed

end
