(* ===== verification/Web_Routes.thy ===== *)
theory Web_Routes
  imports Web_Panel Panel_Settings Log_Feed
begin

text \<open>
  The front of the panel: the routes of \<open>Register\<close> in \<open>internal/webui/server.go\<close> with the matching of
  Go's \<open>http.ServeMux\<close>, the static pages, the client's address, and the event stream of
  \<open>handler_events.go\<close>. A request is its method and its path; handlers are named, their bodies are in the
  other theories.
\<close>

section \<open>Routes\<close>

datatype handler = HIndex | HStatic | HDownload | HLogin | HMe | HVersion | HLogout | HOverview | HEvents
  | HGetSettings | HSaveSettings | HListTasks | HCreateTask | HUpdateTask | HDeleteTask | HStartTask | HStopTask | HDryRun
  | HActivity | HActivityClear | HLogs | HLogsClear | HFS | HOfflineTasks | HOfflineQuota | HOfflineAdd | HOfflineTorrent
  | HOfflineDelete | HOfflineClear | HCacheList | HCacheDelete

text \<open>A route: its method, its path pattern, whether \<open>protect\<close> wraps it, and its handler.\<close>

type_synonym route = "string \<times> string \<times> bool \<times> handler"

definition public_routes :: "route list" where
  "public_routes =
     [(''GET'', ''/{$}'', False, HIndex), (''GET'', ''/static/'', False, HStatic), (''GET'', ''/download'', False, HDownload),
      (''POST'', ''/api/login'', False, HLogin), (''GET'', ''/api/me'', False, HMe), (''GET'', ''/api/version'', False, HVersion)]"

definition protected_routes :: "route list" where
  "protected_routes =
     [(''POST'', ''/api/logout'', True, HLogout), (''GET'', ''/api/overview'', True, HOverview),
      (''GET'', ''/api/events'', True, HEvents), (''GET'', ''/api/settings'', True, HGetSettings),
      (''PUT'', ''/api/settings'', True, HSaveSettings), (''GET'', ''/api/tasks'', True, HListTasks),
      (''POST'', ''/api/tasks'', True, HCreateTask), (''PUT'', ''/api/tasks/{id}'', True, HUpdateTask),
      (''DELETE'', ''/api/tasks/{id}'', True, HDeleteTask), (''POST'', ''/api/tasks/{id}/start'', True, HStartTask),
      (''POST'', ''/api/tasks/{id}/stop'', True, HStopTask), (''GET'', ''/api/tasks/{id}/dry-run'', True, HDryRun),
      (''GET'', ''/api/activity'', True, HActivity), (''DELETE'', ''/api/activity'', True, HActivityClear),
      (''GET'', ''/api/logs'', True, HLogs), (''DELETE'', ''/api/logs'', True, HLogsClear), (''GET'', ''/api/fs'', True, HFS),
      (''GET'', ''/api/offline/tasks'', True, HOfflineTasks), (''GET'', ''/api/offline/quota'', True, HOfflineQuota),
      (''POST'', ''/api/offline/add'', True, HOfflineAdd), (''POST'', ''/api/offline/torrent'', True, HOfflineTorrent),
      (''POST'', ''/api/offline/delete'', True, HOfflineDelete), (''POST'', ''/api/offline/clear'', True, HOfflineClear),
      (''GET'', ''/api/cache'', True, HCacheList), (''POST'', ''/api/cache/delete'', True, HCacheDelete)]"

definition all_routes :: "route list" where
  "all_routes = public_routes @ protected_routes"

text \<open>
  The matching of \<open>ServeMux\<close> on the segments after the first slash: \<open>{$}\<close> matches the end of a path with a
  trailing slash, a name in braces one segment, a trailing slash any rest. A \<open>GET\<close> route serves \<open>HEAD\<close> too.
\<close>

definition segments :: "string \<Rightarrow> string list" where
  "segments p = tl (split_on (CHR ''/'') p)"

definition is_wild :: "string \<Rightarrow> bool" where
  "is_wild s \<longleftrightarrow> has_prefix s ''{'' \<and> s \<noteq> ''{$}''"

definition seg_matches :: "string \<Rightarrow> string \<Rightarrow> bool" where
  "seg_matches p s \<longleftrightarrow> (if is_wild p then s \<noteq> [] else if p = ''{$}'' then s = [] else s = p)"

fun segs_match :: "string list \<Rightarrow> string list \<Rightarrow> bool" where
  "segs_match [] ss = (ss = [])"
| "segs_match [p] ss = (if p = [] then ss \<noteq> [] else case ss of [s] \<Rightarrow> seg_matches p s | _ \<Rightarrow> False)"
| "segs_match (p # ps) ss = (case ss of [] \<Rightarrow> False | s # ss' \<Rightarrow> seg_matches p s \<and> segs_match ps ss')"

definition path_matches :: "route \<Rightarrow> string \<Rightarrow> bool" where
  "path_matches r p = segs_match (segments (fst (snd r))) (segments p)"

definition method_matches :: "route \<Rightarrow> string \<Rightarrow> bool" where
  "method_matches r m \<longleftrightarrow> m = fst r \<or> (fst r = ''GET'' \<and> m = ''HEAD'')"

definition route_matches :: "string \<Rightarrow> string \<Rightarrow> route \<Rightarrow> bool" where
  "route_matches m p r \<longleftrightarrow> method_matches r m \<and> path_matches r p"

text \<open>\<open>cleanPath\<close> of the library keeps a trailing slash.\<close>

definition clean_url_path :: "string \<Rightarrow> string" where
  "clean_url_path p =
     (if p = [] then ''/''
      else
        let q = (if hd p = CHR ''/'' then p else CHR ''/'' # p); c = path_clean q
        in if last q = CHR ''/'' \<and> c \<noteq> ''/'' then c @ ''/'' else c)"

datatype reply = RedirectTo string | NotFound | BadMethod | Unauthorized | Run handler

text \<open>One request, for the routes in the order in which they were registered.\<close>

definition serve :: "route list \<Rightarrow> int \<Rightarrow> Config \<Rightarrow> string option \<Rightarrow> sessionStore \<Rightarrow> string \<Rightarrow> string \<Rightarrow> reply \<times> sessionStore" where
  "serve rs now cf cookie sess m p =
     (if clean_url_path p \<noteq> p then (RedirectTo (clean_url_path p), sess)
      else case find (route_matches m p) rs of
        Some (_, _, protected, h) \<Rightarrow>
          if protected then (case protect now cf cookie sess of (ok, sess') \<Rightarrow> (if ok then Run h else Unauthorized, sess'))
          else (Run h, sess)
      | None \<Rightarrow>
          (if list_ex (route_matches m (p @ ''/'')) rs then RedirectTo (p @ ''/'')
           else if list_ex (\<lambda>r. path_matches r p) rs then BadMethod else NotFound, sess))"

section \<open>At most one route\<close>

text \<open>Two patterns that may match the same path.\<close>

definition seg_clash :: "string \<Rightarrow> string \<Rightarrow> bool" where
  "seg_clash p q \<longleftrightarrow> p = q \<or> is_wild p \<or> is_wild q"

fun segs_clash :: "string list \<Rightarrow> string list \<Rightarrow> bool" where
  "segs_clash [] [] = True"
| "segs_clash (p # ps) (q # qs) =
     ((ps = [] \<and> p = []) \<or> (qs = [] \<and> q = []) \<or> (seg_clash p q \<and> segs_clash ps qs))"
| "segs_clash _ _ = False"

definition routes_clash :: "route \<Rightarrow> route \<Rightarrow> bool" where
  "routes_clash r r' \<longleftrightarrow> fst r = fst r' \<and> segs_clash (segments (fst (snd r))) (segments (fst (snd r')))"

lemma seg_clash_sound: "seg_matches p s \<Longrightarrow> seg_matches q s \<Longrightarrow> p \<noteq> [] \<Longrightarrow> q \<noteq> [] \<Longrightarrow> seg_clash p q"
  by (auto simp: seg_matches_def seg_clash_def split: if_splits)

lemma segs_match_Cons:
  "segs_match (p # ps) ss \<longleftrightarrow> (if ps = [] \<and> p = [] then ss \<noteq> []
     else case ss of [] \<Rightarrow> False | s # ss' \<Rightarrow> seg_matches p s \<and> segs_match ps ss')"
  by (cases ps) (auto split: list.splits)

lemma segs_clash_sound: "segs_match ps ss \<Longrightarrow> segs_match qs ss \<Longrightarrow> [] \<notin> set (butlast ps) \<Longrightarrow> [] \<notin> set (butlast qs) \<Longrightarrow> segs_clash ps qs"
proof (induction ps qs arbitrary: ss rule: segs_clash.induct)
  case (2 p ps q qs)
  show ?case
  proof (cases "(ps = [] \<and> p = []) \<or> (qs = [] \<and> q = [])")
    case False
    then obtain s ss' where s: "ss = s # ss'" "seg_matches p s" "segs_match ps ss'" "seg_matches q s" "segs_match qs ss'"
      using "2.prems"(1,2) by (auto simp: segs_match_Cons split: list.splits if_splits)
    have "p \<noteq> []" "q \<noteq> []" using False "2.prems"(3,4) by (auto split: if_splits)
    then have "seg_clash p q" using seg_clash_sound s(2,4) by blast
    moreover have "segs_clash ps qs" using "2.IH" False s(3,5) "2.prems"(3,4) \<open>p \<noteq> []\<close> \<open>q \<noteq> []\<close> by (auto split: if_splits)
    ultimately show ?thesis by simp
  qed auto
qed (auto simp: segs_match_Cons split: list.splits if_splits)

definition route_ok :: "route \<Rightarrow> bool" where
  "route_ok r \<longleftrightarrow> fst r \<noteq> ''HEAD'' \<and> [] \<notin> set (butlast (segments (fst (snd r))))"

fun apart :: "(string \<times> string list) list \<Rightarrow> bool" where
  "apart [] = True"
| "apart ((m, ss) # rs) = (list_all (\<lambda>(m', ss'). m \<noteq> m' \<or> \<not> segs_clash ss ss' \<and> \<not> segs_clash ss' ss) rs \<and> apart rs)"

lemma all_routes_ok: "list_all route_ok all_routes" "apart (map (\<lambda>r. (fst r, segments (fst (snd r)))) all_routes)"
  by code_simp+

lemma apart_clash:
  "apart (map (\<lambda>r. (fst r, segments (fst (snd r)))) rs) \<Longrightarrow> r \<in> set rs \<Longrightarrow> r' \<in> set rs \<Longrightarrow> routes_clash r r' \<Longrightarrow> r = r'"
  by (induction rs) (auto simp: routes_clash_def list_all_iff)

lemma one_route:
  assumes "r \<in> set all_routes" "r' \<in> set all_routes" "route_matches m p r" "route_matches m p r'"
  shows "r = r'"
proof -
  have ok: "route_ok r" "route_ok r'" using all_routes_ok(1) assms(1,2) by (auto simp: list_all_iff)
  have "fst r = fst r'" using ok assms(3,4) by (auto simp: route_matches_def method_matches_def route_ok_def)
  moreover have "segs_clash (segments (fst (snd r))) (segments (fst (snd r')))"
    using segs_clash_sound ok assms(3,4) by (auto simp: route_matches_def path_matches_def route_ok_def)
  ultimately show ?thesis using apart_clash [OF all_routes_ok(2) assms(1,2)] by (simp add: routes_clash_def)
qed

lemma find_any_order:
  assumes "set rs = set all_routes"
  shows "find (route_matches m p) rs = find (route_matches m p) all_routes"
proof -
  have "find (route_matches m p) rs = Some r \<longleftrightarrow> r \<in> set all_routes \<and> route_matches m p r" if "set rs = set all_routes" for rs r
  proof
    assume "find (route_matches m p) rs = Some r"
    then show "r \<in> set all_routes \<and> route_matches m p r" using that by (auto simp: find_Some_iff)
  next
    assume r: "r \<in> set all_routes \<and> route_matches m p r"
    then have "find (route_matches m p) rs \<noteq> None" using that unfolding find_None_iff by blast
    then obtain r' where "find (route_matches m p) rs = Some r'" by blast
    moreover from this have "r' \<in> set all_routes" "route_matches m p r'" using that by (auto simp: find_Some_iff)
    ultimately show "find (route_matches m p) rs = Some r" using one_route r by simp
  qed
  from this [OF assms] this [OF refl] show ?thesis by (metis not_Some_eq)
qed

lemma serve_any_order:
  assumes "set rs = set all_routes"
  shows "serve rs now cf cookie sess m p = serve all_routes now cf cookie sess m p"
  using assms by (simp add: serve_def find_any_order [OF assms] list_ex_iff cong: option.case_cong)

section \<open>The static pages\<close>

text \<open>
  The index page answers 304 when the request names its fingerprint; \<open>etags\<close> are those of the embedded files, a
  missing one is the empty string.
\<close>

definition index_page :: "(string \<times> string) list \<Rightarrow> string \<Rightarrow> string \<Rightarrow> int \<times> string \<times> string" where
  "index_page etags indexData ifNoneMatch =
     (let etag = (case map_of etags ''index.html'' of Some e \<Rightarrow> e | None \<Rightarrow> [])
      in if ifNoneMatch = etag then (304, etag, []) else (200, etag, indexData))"

definition static_etag :: "(string \<times> string) list \<Rightarrow> string \<Rightarrow> string option" where
  "static_etag etags path = map_of etags (trim_prefix path ''/static/'')"

definition etag_of :: "(string \<Rightarrow> string) \<Rightarrow> string \<Rightarrow> string" where
  "etag_of sha1hex data = CHR 0x22 # sha1hex data @ [CHR 0x22]"

definition static_etags :: "(string \<Rightarrow> string) \<Rightarrow> (string \<times> string) list \<Rightarrow> (string \<times> string) list" where
  "static_etags sha1hex files = map (\<lambda>(path, data). (path, etag_of sha1hex data)) files"

section \<open>The client's address\<close>

text \<open>What follows the last colon is cut off, and the brackets of an IPv6 address.\<close>

definition cut_last :: "char \<Rightarrow> string \<Rightarrow> string option" where
  "cut_last c s = (if c \<in> set s then Some (rev (tl (dropWhile (\<lambda>x. x \<noteq> c) (rev s)))) else None)"

definition trim_brackets :: "string \<Rightarrow> string" where
  "trim_brackets s =
     (let b = (\<lambda>c. c = CHR ''['' \<or> c = CHR '']'') in rev (dropWhile b (rev (dropWhile b s))))"

definition clientIP :: "string \<Rightarrow> string \<Rightarrow> string \<Rightarrow> string" where
  "clientIP forwardedFor realIP remoteAddr =
     (let xff = trim_space forwardedFor; xrip = trim_space realIP in
      if xff \<noteq> [] then (if CHR '','' \<in> set xff then trim_space (fst (cut_at (CHR '','') xff)) else xff)
      else if xrip \<noteq> [] then xrip
      else trim_brackets (case cut_last (CHR '':'') remoteAddr of Some before \<Rightarrow> before | None \<Rightarrow> remoteAddr))"

section \<open>The event stream\<close>

text \<open>Writing to the response: \<open>wr\<close> says whether a write succeeded.\<close>

type_synonym 'w writer = "string \<Rightarrow> 'w \<Rightarrow> bool \<times> 'w"

definition writeChunk :: "'w writer \<Rightarrow> string \<Rightarrow> string \<Rightarrow> 'w \<Rightarrow> bool \<times> 'w" where
  "writeChunk wr prefix payload = wr (prefix @ payload @ [CHR 0x0A, CHR 0x0A])"

definition writeData :: "'w writer \<Rightarrow> string \<Rightarrow> 'w \<Rightarrow> bool \<times> 'w" where
  "writeData wr payload = writeChunk wr ''data: '' payload"

definition sse_comment :: "'w writer \<Rightarrow> string \<Rightarrow> 'w \<Rightarrow> bool \<times> 'w" where
  "sse_comment wr msg = writeChunk wr '':'' msg"

text \<open>A frame is encoded as JSON (\<open>None\<close> when that fails) and written.\<close>

definition writeSSE :: "'w writer \<Rightarrow> string option \<Rightarrow> 'w \<Rightarrow> bool \<times> 'w" where
  "writeSSE wr encoded w = (case encoded of None \<Rightarrow> (False, w) | Some data \<Rightarrow> writeData wr data w)"

definition sseConnect :: "'w writer \<Rightarrow> bool \<Rightarrow> 'w \<Rightarrow> bool \<times> 'w" where
  "sseConnect wr flusher w = (if \<not> flusher then (False, w) else sse_comment wr ''connected'' w)"

text \<open>
  What the loop of \<open>handleEvents\<close> waits for. With the hub's signal comes the overview of that moment, with
  the feed's the feed when its number and when its entries are read.
\<close>

datatype signal = ClientGone | AppDone | Heartbeat | HubSignal overview | FeedSignal Feed Feed

fun events_loop :: "'w writer \<Rightarrow> (overview \<Rightarrow> string option) \<Rightarrow> (logsMsg \<Rightarrow> string option) \<Rightarrow> signal list \<Rightarrow> u64 \<Rightarrow> 'w \<Rightarrow> 'w" where
  "events_loop wr jo jl [] lastSeq w = w"
| "events_loop wr jo jl (ClientGone # sigs) lastSeq w = w"
| "events_loop wr jo jl (AppDone # sigs) lastSeq w = w"
| "events_loop wr jo jl (Heartbeat # sigs) lastSeq w =
     (case sse_comment wr ''ping'' w of (ok, w1) \<Rightarrow> if ok then events_loop wr jo jl sigs lastSeq w1 else w1)"
| "events_loop wr jo jl (HubSignal ov # sigs) lastSeq w =
     (case writeSSE wr (jo ov) w of (ok, w1) \<Rightarrow> if ok then events_loop wr jo jl sigs lastSeq w1 else w1)"
| "events_loop wr jo jl (FeedSignal f f' # sigs) lastSeq w =
     (case events_kick f f' lastSeq of (msg, lastSeq') \<Rightarrow>
        (case writeSSE wr (jl msg) w of (ok, w1) \<Rightarrow> if ok then events_loop wr jo jl sigs lastSeq' w1 else w1))"

definition handleEvents :: "'w writer \<Rightarrow> bool \<Rightarrow> (overview \<Rightarrow> string option) \<Rightarrow> (logsMsg \<Rightarrow> string option) \<Rightarrow>
    overview \<Rightarrow> Feed \<Rightarrow> signal list \<Rightarrow> 'w \<Rightarrow> 'w" where
  "handleEvents wr flusher jo jl ov f sigs w =
     (case sseConnect wr flusher w of (ok, w1) \<Rightarrow>
        if \<not> ok then w1
        else (case writeSSE wr (jo ov) w1 of (ok, w2) \<Rightarrow>
          if \<not> ok then w2
          else (case events_open f of (msg, lastSeq) \<Rightarrow>
            (case writeSSE wr (jl msg) w2 of (ok, w3) \<Rightarrow>
               if \<not> ok then w3 else events_loop wr jo jl sigs lastSeq w3))))"

section \<open>Properties\<close>

text \<open>C25. Without a login only the public pages are served. Go hands the routes of a map over in any order; the order does not
  matter, since no request matches two of them. When a login is required and the request has no valid
  session, a handler runs only if it is one of the six public ones.\<close>

theorem only_public_without_login:
  assumes "set rs = set all_routes"
  shows "serve rs now cf cookie sess m p = serve all_routes now cf cookie sess m p \<and>
    (AuthRequired cf \<and> \<not> fst (loggedIn now cookie sess) \<and> fst (serve rs now cf cookie sess m p) = Run h \<longrightarrow>
      h \<in> {HIndex, HStatic, HDownload, HLogin, HMe, HVersion})"
proof (intro conjI impI)
  show "serve rs now cf cookie sess m p = serve all_routes now cf cookie sess m p" by (rule serve_any_order [OF assms])
  assume a: "AuthRequired cf \<and> \<not> fst (loggedIn now cookie sess) \<and> fst (serve rs now cf cookie sess m p) = Run h"
  then have "\<not> fst (protect now cf cookie sess)" by (simp add: protect_def)
  with a obtain mm pp where "find (route_matches m p) rs = Some (mm, pp, False, h)"
    by (auto simp: serve_def split: if_splits option.splits prod.splits)
  then have "(mm, pp, False, h) \<in> set all_routes" using assms by (metis find_Some_iff nth_mem)
  then show "h \<in> {HIndex, HStatic, HDownload, HLogin, HMe, HVersion}"
    by (auto simp: all_routes_def public_routes_def protected_routes_def)
qed

theorem only_public_without_login_witness:
  "\<exists>cf. AuthRequired cf \<and> fst (serve (rev all_routes) 0 cf None [] ''GET'' ''/api/me'') = Run HMe \<and>
     (\<forall>h. fst (serve (rev all_routes) 0 cf None [] ''GET'' ''/api/fs'') = Run h \<longrightarrow>
        h \<in> {HIndex, HStatic, HDownload, HLogin, HMe, HVersion})"
proof -
  let ?cf = "\<lparr>cfSettings = undefined\<lparr>seAuth := \<lparr>auUsername = ''admin'', auPasswordHash = ''h''\<rparr>\<rparr>, cfTasks = [], cfToken = undefined\<rparr>"
  have a: "AuthRequired ?cf" "\<not> fst (loggedIn 0 None [])" by (simp_all add: AuthRequired_def GetAuth_def loggedIn_def)
  have "clean_url_path ''/api/me'' = ''/api/me''" by code_simp
  moreover have "find (route_matches ''GET'' ''/api/me'') (rev all_routes) = Some (''GET'', ''/api/me'', False, HMe)" by code_simp
  ultimately have "fst (serve (rev all_routes) 0 ?cf None [] ''GET'' ''/api/me'') = Run HMe" by (simp add: serve_def)
  moreover have "set (rev all_routes) = set all_routes" by simp
  ultimately show ?thesis using a only_public_without_login [OF \<open>set (rev all_routes) = set all_routes\<close>] by blast
qed

text \<open>A writer that succeeds \<open>n\<close> more times, or always.\<close>

definition limited :: "(nat option \<times> string list) writer" where
  "limited s w =
     (case fst w of
        Some 0 \<Rightarrow> (False, w)
      | Some (Suc n) \<Rightarrow> (True, (Some n, snd w @ [s]))
      | None \<Rightarrow> (True, (None, snd w @ [s])))"

text \<open>The chunks a reader is to get, in order; \<open>None\<close> is a frame that cannot be encoded.\<close>

definition chunk :: "string \<Rightarrow> string \<Rightarrow> string" where
  "chunk prefix payload = prefix @ payload @ [CHR 0x0A, CHR 0x0A]"

fun signal_chunks :: "(overview \<Rightarrow> string option) \<Rightarrow> (logsMsg \<Rightarrow> string option) \<Rightarrow> signal list \<Rightarrow> u64 \<Rightarrow> string option list" where
  "signal_chunks jo jl [] lastSeq = []"
| "signal_chunks jo jl (Heartbeat # sigs) lastSeq = Some (chunk '':'' ''ping'') # signal_chunks jo jl sigs lastSeq"
| "signal_chunks jo jl (HubSignal ov # sigs) lastSeq = map_option (chunk ''data: '') (jo ov) # signal_chunks jo jl sigs lastSeq"
| "signal_chunks jo jl (FeedSignal f f' # sigs) lastSeq =
     map_option (chunk ''data: '') (jl \<lparr>lmFull = False, lmSeq = Seq f, lmLogs = Since lastSeq f'\<rparr>) # signal_chunks jo jl sigs (Seq f)"
| "signal_chunks jo jl (_ # sigs) lastSeq = []"

definition stream_chunks :: "(overview \<Rightarrow> string option) \<Rightarrow> (logsMsg \<Rightarrow> string option) \<Rightarrow> overview \<Rightarrow> Feed \<Rightarrow> signal list \<Rightarrow> string option list" where
  "stream_chunks jo jl ov f sigs =
     Some (chunk '':'' ''connected'') # map_option (chunk ''data: '') (jo ov) #
     map_option (chunk ''data: '') (jl (fst (events_open f))) # signal_chunks jo jl sigs (snd (events_open f))"

fun write_all :: "'w writer \<Rightarrow> string option list \<Rightarrow> 'w \<Rightarrow> 'w" where
  "write_all wr [] w = w"
| "write_all wr (None # xs) w = w"
| "write_all wr (Some s # xs) w = (case wr s w of (ok, w1) \<Rightarrow> if ok then write_all wr xs w1 else w1)"

lemma write_defs: "writeSSE wr x w = (case map_option (chunk ''data: '') x of None \<Rightarrow> (False, w) | Some s \<Rightarrow> wr s w)"
  "sse_comment wr m w = wr (chunk '':'' m) w"
  by (simp_all add: writeSSE_def writeData_def writeChunk_def sse_comment_def chunk_def split: option.splits)

lemma events_loop_writes: "events_loop wr jo jl sigs l w = write_all wr (signal_chunks jo jl sigs l) w"
  by (induction wr jo jl sigs l w rule: events_loop.induct) (auto simp: write_defs events_kick_def split: option.splits prod.splits)

lemma handleEvents_writes: "handleEvents wr True jo jl ov f sigs w = write_all wr (stream_chunks jo jl ov f sigs) w"
  by (auto simp: handleEvents_def sseConnect_def stream_chunks_def write_defs events_loop_writes split: option.splits prod.splits)

lemma write_all_limited:
  "snd (write_all limited xs (Some n, out)) = out @ take n (map the (takeWhile (\<lambda>x. x \<noteq> None) xs))"
proof (induction xs arbitrary: n out)
  case (Cons x xs)
  then show ?case by (cases x; cases n) (auto simp: limited_def)
qed simp

text \<open>What a reader of the event stream gets. A reader gets the greeting, the overview, the whole log and then one chunk
  for each signal, in this order, until the connection or the program ends; and when the connection takes only
  \<open>n\<close> chunks, it gets the first \<open>n\<close> of these and the handler ends: no frame is sent after one that failed or
  could not be encoded.\<close>

theorem stream_is_prefix:
  "snd (handleEvents limited True jo jl ov f sigs (Some n, [])) =
    take n (map the (takeWhile (\<lambda>x. x \<noteq> None) (stream_chunks jo jl ov f sigs)))"
  by (simp add: handleEvents_writes write_all_limited)

end
