(* ===== verification/Drive_Wire.thy ===== *)
theory Drive_Wire
  imports Drive_Client Drive_Files
begin

text \<open>
  Requests on the wire: \<open>do\<close>, \<open>failResp\<close> and \<open>APIError\<close> of \<open>internal/drive/client.go\<close>. They connect the
  two halves of the client that the other theories model: the file calls of \<open>Drive_Files\<close> become
  requests of \<open>Drive_Client\<close>, and those HTTP round trips. A round trip and the decoders of the JSON are
  parameters.
\<close>

section \<open>One HTTP request\<close>

record wire =
  wrMethod :: string
  wrURL :: string
  wrBody :: string
  wrHeaders :: "(string \<times> string) list"

definition apiBaseURL :: string where "apiBaseURL = ''https://proapi.115.com''"

text \<open>\<open>url.Values.Encode\<close>: the pairs in the order of their keys, escaped.\<close>

definition encode_pair :: "string \<times> string \<Rightarrow> string" where
  "encode_pair kv = query_escape (fst kv) @ ''='' @ query_escape (snd kv)"

definition Encode :: "form \<Rightarrow> string" where
  "Encode vals = join_with ''&'' (map encode_pair (sort_key fst vals))"

text \<open>The request that \<open>do\<close> builds; \<open>ua\<close> is the option \<open>ReqWithUA\<close>. The paths of the code have no query of their own.\<close>

definition do_request :: "string \<Rightarrow> string option \<Rightarrow> string \<Rightarrow> string \<Rightarrow> form \<Rightarrow> wire" where
  "do_request token ua meth path params =
     (let vals = Encode (removeEmpty params) in
      \<lparr>wrMethod = meth,
       wrURL = apiBaseURL @ path @ (if meth = ''GET'' \<and> vals \<noteq> [] then ''?'' @ vals else []),
       wrBody = (if meth = ''GET'' then [] else vals),
       wrHeaders = (''Authorization'', ''Bearer '' @ token) #
         (case ua of None \<Rightarrow> [] | Some u \<Rightarrow> [(''User-Agent'', u)]) @
         (if meth = ''GET'' then [] else [(''Content-Type'', ''application/x-www-form-urlencoded'')])\<rparr>)"

text \<open>
  \<open>htDo\<close> is the round trip with the reading of the body, \<open>htShell\<close> the decoding of the reply's envelope
  into state, code, message and data.
\<close>

record 'w http =
  htDo :: "'w \<Rightarrow> wire \<Rightarrow> (int \<times> string) option \<times> 'w"
  htShell :: "string \<Rightarrow> (bool \<times> int \<times> string \<times> string) option"

definition do_reply :: "(string \<Rightarrow> (bool \<times> int \<times> string \<times> string) option) \<Rightarrow> (int \<times> string) option \<Rightarrow> api_reply" where
  "do_reply shell r =
     (case r of
        None \<Rightarrow> DoFailed
      | Some (status, body) \<Rightarrow>
          (case shell body of
             None \<Rightarrow> BadShell
           | Some (state, code, message, data) \<Rightarrow> ApiReply status state code message data))"

definition wire_net :: "'w http \<Rightarrow> string option \<Rightarrow> 'w net \<Rightarrow> 'w net" where
  "wire_net ht ua ne = ne\<lparr>neDo := (\<lambda>w token meth path params.
     apfst (do_reply (htShell ht)) (htDo ht w (do_request token ua meth path params)))\<rparr>"

section \<open>The typed calls\<close>

text \<open>The text of an \<open>APIError\<close>; the texts of the other errors are the parameter \<open>txt\<close>.\<close>

definition APIError_text :: "int \<Rightarrow> string \<Rightarrow> int \<Rightarrow> string \<Rightarrow> string" where
  "APIError_text code message status body =
     ''[115'' @ utf8 [0x62A5, 0x9519] @ ''] '' @ message @ '' (code: '' @ format_int code @ '', HTTP '' @ format_int status @
     (if body \<noteq> [] then '', '' @ utf8 [0x539F, 0x59CB, 0x54CD, 0x5E94] @ '': '' @ body else []) @ '')''"

definition error_text :: "(client_error option \<Rightarrow> string) \<Rightarrow> client_error option \<Rightarrow> string" where
  "error_text txt e =
     (case e of Some (APIError code message status body) \<Rightarrow> APIError_text code message status body | _ \<Rightarrow> txt e)"

text \<open>\<open>Get\<close> and \<open>Post\<close>: the client's state is part of the world of the typed calls.\<close>

definition typed_call :: "'w http \<Rightarrow> 'w net \<Rightarrow> (client_error option \<Rightarrow> string) \<Rightarrow> string \<Rightarrow> string option \<Rightarrow>
    (string \<Rightarrow> 'a option) \<Rightarrow> 'a \<Rightarrow> client \<times> 'w \<Rightarrow> string \<Rightarrow> form \<Rightarrow> (string + 'a) \<times> client \<times> 'w" where
  "typed_call ht ne txt meth ua dec zero s path params =
     (case doRequest (wire_net ht ua ne) dec zero meth path params (fst s) (snd s) of
        (Inl e, s') \<Rightarrow> (Inl (error_text txt e), s')
      | (Inr a, s') \<Rightarrow> (Inr a, s'))"

text \<open>
  \<open>StructOrArray\<close> (\<open>drive/types.go\<close>): where the platform sends an object or, when there is none, a list, anything that does
  not begin as an object is none.
\<close>

definition struct_or_array :: "(string \<Rightarrow> 'a option) \<Rightarrow> string \<Rightarrow> 'a option option" where
  "struct_or_array dec b =
     (let t = trim_space b in if t = [] \<or> hd t \<noteq> CHR ''{'' then Some None else map_option Some (dec t))"

text \<open>The decoders of the data of each call.\<close>

record decoders =
  dcList :: "string \<Rightarrow> fileListResponse list option"
  dcDown :: "string \<Rightarrow> (string \<times> downItem) list option"
  dcFolder :: "string \<Rightarrow> string option"
  dcDir :: "string \<Rightarrow> DirInfo option"
  dcRename :: "string \<Rightarrow> string option"

definition wire_api :: "'w http \<Rightarrow> 'w net \<Rightarrow> (client_error option \<Rightarrow> string) \<Rightarrow> decoders \<Rightarrow> (client \<times> 'w) api" where
  "wire_api ht ne txt dc =
     \<lparr>acList = typed_call ht ne txt ''GET'' None (dcList dc) [],
      acDown = (\<lambda>s path params ua. typed_call ht ne txt ''POST'' (Some ua) (struct_or_array (dcDown dc)) None s path params),
      acFolder = typed_call ht ne txt ''POST'' None (dcFolder dc) [],
      acDir = typed_call ht ne txt ''POST'' None (struct_or_array (dcDir dc)) None,
      acRename = typed_call ht ne txt ''POST'' None (dcRename dc) [],
      acUnit = typed_call ht ne txt ''POST'' None (\<lambda>_. Some ()) ()\<rparr>"

section \<open>A folder that exists already\<close>

lemma APIError_text_contains: "contains message x \<Longrightarrow> contains (APIError_text code message status body) x"
proof -
  assume "contains message x"
  then obtain a b where m: "message = a @ x @ b" by (auto simp: contains_iff)
  let ?a = "''[115'' @ utf8 [0x62A5, 0x9519] @ ''] ''"
  obtain c where "APIError_text code message status body = ?a @ message @ c" by (simp add: APIError_text_def)
  with m have "APIError_text code message status body = (?a @ a) @ x @ (b @ c)" by simp
  then show ?thesis unfolding contains_iff by blast
qed

text \<open>
  \<open>CreateFolder\<close> recognises an existing folder by a piece of the error's text, into which \<open>APIError\<close> puts the
  message of the reply: when the platform says that the name is taken, the existing folder is used.
\<close>

lemma existing_folder_reused:
  assumes "doRequest (wire_net ht None ne) (dcFolder dc) [] ''POST'' ''/open/folder/add'' [(''pid'', pid), (''file_name'', name)] cl w =
      (Inl (Some (APIError code message status body)), cl1, w1)"
    and "contains message folder_exists_text" "GetDirInfo (wire_api ht ne txt dc) path (cl1, w1) = (Inr info, s)"
  shows "CreateFolder (wire_api ht ne txt dc) pid name path (cl, w) = (Inr info, s)"
  using assms APIError_text_contains [OF assms(2), of code status body]
  by (simp add: CreateFolder_def wire_api_def typed_call_def error_text_def)

section \<open>What the platform reads\<close>

lemma split_join: "xs \<noteq> [] \<Longrightarrow> \<forall>x \<in> set xs. c \<notin> set x \<Longrightarrow> split_on c (join_with [c] xs) = xs"
  by (induction "[c]" xs rule: join_with.induct) (auto simp: split_on_no_sep split_on_append_sep)

lemma encode_pair_chars: "c \<in> set (encode_pair kv) \<Longrightarrow> query_safe c \<or> c \<in> {CHR ''+'', CHR ''%'', CHR ''=''}"
  using query_escape_chars by (fastforce simp: encode_pair_def)

lemma query_pair_encode: "query_pair (encode_pair kv) = Some kv"
proof -
  have "CHR ''='' \<notin> set (query_escape (fst kv))" using query_escape_chars query_safe_not(1) by fastforce
  from cut_at_first [OF this, of "query_escape (snd kv)"]
  have "cut_at (CHR ''='') (encode_pair kv) = (query_escape (fst kv), query_escape (snd kv))" by (simp add: encode_pair_def)
  moreover have "CHR '';'' \<notin> set (encode_pair kv)" using encode_pair_chars query_safe_not(1) by fastforce
  moreover have "encode_pair kv \<noteq> []" by (simp add: encode_pair_def)
  ultimately show ?thesis by (simp add: query_pair_def unescape_query_escape)
qed

lemma query_pairs_Encode: "List.map_filter query_pair (split_on (CHR ''&'') (Encode vals)) = sort_key fst vals"
proof (cases "vals = []")
  case False
  then have "sort_key fst vals \<noteq> []" by (metis length_0_conv length_sort)
  moreover have "CHR ''&'' \<notin> set (encode_pair kv)" for kv using encode_pair_chars query_safe_not(1) by fastforce
  ultimately have "split_on (CHR ''&'') (Encode vals) = map encode_pair (sort_key fst vals)"
    unfolding Encode_def by (intro split_join) auto
  then show ?thesis by (simp add: List.map_filter_def query_pair_encode comp_def)
qed (simp add: Encode_def query_pair_def List.map_filter_simps)

lemma map_of_sort_key: "distinct (map fst vals) \<Longrightarrow> map_of (sort_key fst vals) = map_of vals"
  by (subst map_of_inject_set) (auto simp: distinct_map)

lemma map_of_removeEmpty:
  "distinct (map fst params) \<Longrightarrow> map_of (removeEmpty params) k = (case map_of params k of Some v \<Rightarrow> if v = [] then None else Some v | None \<Rightarrow> None)"
  by (induction params) (auto simp: removeEmpty_def map_of_eq_None_iff split: option.splits)

lemma query_get_form:
  assumes "distinct (map fst params)"
  shows "query_get (Encode (removeEmpty params)) k = (case map_of params k of Some v \<Rightarrow> v | None \<Rightarrow> [])"
proof -
  have "distinct (map fst (removeEmpty params))" using assms by (simp add: removeEmpty_def distinct_map_filter)
  then show ?thesis using assms
    by (simp add: query_get_def query_pairs_Encode map_of_sort_key map_of_removeEmpty split: option.splits)
qed

lemma join_with_chars: "c \<in> set (join_with sep xs) \<Longrightarrow> c \<in> set sep \<or> (\<exists>x \<in> set xs. c \<in> set x)"
  by (induction sep xs rule: join_with.induct) auto

lemma Encode_chars: "c \<in> set (Encode vals) \<Longrightarrow> query_safe c \<or> c \<in> {CHR ''+'', CHR ''%'', CHR ''='', CHR ''&''}"
  using encode_pair_chars by (fastforce simp: Encode_def dest: join_with_chars)

definition plain_path :: "string \<Rightarrow> bool" where
  "plain_path p \<longleftrightarrow> has_prefix p ''/'' \<and> list_all (\<lambda>c. query_safe c \<or> c = CHR ''/'') p"

lemma unescape_no_percent: "CHR ''%'' \<notin> set s \<Longrightarrow> unescape False s \<noteq> None"
  by (induction s) auto

lemma url_of_request:
  assumes "plain_path path" "auth_ok ''proapi.115.com''" "\<forall>c \<in> set q. query_safe c \<or> c \<in> {CHR ''+'', CHR ''%'', CHR ''='', CHR ''&''}"
  shows "url_raw_query auth_ok (apiBaseURL @ path @ (if q \<noteq> [] then ''?'' @ q else [])) = Some q"
proof -
  let ?u = "apiBaseURL @ path @ (if q \<noteq> [] then ''?'' @ q else [])"
  let ?r = "''//proapi.115.com'' @ path"
  have p: "query_safe c \<or> c = CHR ''/''" if "c \<in> set path" for c using assms(1) that by (auto simp: plain_path_def list_all_iff)
  then have np: "c \<notin> set path" if "c \<in> {CHR ''#'', CHR ''?'', CHR ''%''}" for c
    using that by (fastforce simp: query_safe_def is_letter_def Let_def)
  obtain r where r: "path = CHR ''/'' # r" using assms(1) by (auto simp: plain_path_def has_prefix_iff)
  have base: "list_all (\<lambda>c. query_safe c \<or> c \<in> {CHR ''/'', CHR '':''}) apiBaseURL" by code_simp
  have all: "c \<noteq> CHR ''#'' \<and> \<not> is_ctl c" if "c \<in> set ?u" for c
  proof -
    have "query_safe c \<or> c \<in> {CHR ''/'', CHR '':'', CHR ''?'', CHR ''+'', CHR ''%'', CHR ''='', CHR ''&''}"
      using that base p assms(3) by (auto simp: list_all_iff split: if_splits)
    then show ?thesis using query_safe_not by (auto simp: is_ctl_def)
  qed
  have "cut_at (CHR ''#'') ?u = (?u, [])" using all by (intro cut_at_absent) blast
  moreover have "\<not> list_ex is_ctl ?u" using all by (auto simp: list_ex_iff)
  moreover have "get_scheme 0 ?u ?u = Some (''https'', ?r @ (if q \<noteq> [] then ''?'' @ q else []))"
    by (simp add: apiBaseURL_def is_letter_def digit_val_def Let_def)
  moreover have "cut_at (CHR ''?'') (?r @ (if q \<noteq> [] then ''?'' @ q else [])) = (?r, q)"
  proof (cases "q = []")
    case True
    then show ?thesis using cut_at_absent [of "CHR ''?''" ?r] np by simp
  next
    case False
    then show ?thesis using cut_at_first [of "CHR ''?''" ?r q] np by simp
  qed
  moreover have "?u \<noteq> ''*''" by (simp add: apiBaseURL_def)
  moreover have "takeWhile (\<lambda>c. c \<noteq> CHR ''/'') (drop 2 ?r) = ''proapi.115.com''"
    "dropWhile (\<lambda>c. c \<noteq> CHR ''/'') (drop 2 ?r) = path" by (simp_all add: r)
  moreover have "unescape False path \<noteq> None" using unescape_no_percent np by blast
  ultimately show ?thesis using assms(2) by (simp add: url_raw_query_def Let_def)
qed

text \<open>The parameters as the platform finds them: in the query of a GET, in the body of any other request.\<close>

definition sent_form :: "(string \<Rightarrow> bool) \<Rightarrow> wire \<Rightarrow> string option" where
  "sent_form auth_ok r = (if wrMethod r = ''GET'' then url_raw_query auth_ok (wrURL r) else Some (wrBody r))"

lemma sent_form_request:
  assumes "plain_path path" "auth_ok ''proapi.115.com''"
  shows "sent_form auth_ok (do_request token ua meth path params) = Some (Encode (removeEmpty params))"
  using url_of_request [where auth_ok = auth_ok, OF assms, of "Encode (removeEmpty params)"] Encode_chars
  by (auto simp: sent_form_def do_request_def Let_def)

section \<open>Properties\<close>

text \<open>C26. What the client asks for reaches the platform. Whatever bytes the parameters of a request are made of (names of files,
  paths, links), the platform that decodes the query of the URL, or the body, finds under every key exactly
  the value given, and nothing under a key whose value is empty.\<close>

theorem wire_form_roundtrip:
  assumes "distinct (map fst params)" "plain_path path" "auth_ok ''proapi.115.com''"
  shows "\<exists>q. sent_form auth_ok (do_request token ua meth path params) = Some q \<and>
    (\<forall>k. query_get q k = (case map_of params k of Some v \<Rightarrow> v | None \<Rightarrow> []))"
  using sent_form_request [where auth_ok = auth_ok, OF assms(2,3)] query_get_form [OF assms(1)] by blast

theorem wire_form_roundtrip_witness:
  "\<exists>q. sent_form (\<lambda>a. True) (do_request ''tok'' None ''GET'' ''/open/ufile/files'' (list_form ''7&8=9'' 1150)) = Some q \<and>
    query_get q ''cid'' = ''7&8=9'' \<and> query_get q ''offset'' = ''1150''"
proof -
  have "plain_path ''/open/ufile/files''" by code_simp
  moreover have "distinct (map fst (list_form ''7&8=9'' 1150))" by (simp add: list_form_def)
  moreover have "format_uint 10 1150 = ''1150''" by code_simp
  ultimately show ?thesis
    using wire_form_roundtrip [of "list_form ''7&8=9'' 1150" "''/open/ufile/files''" "\<lambda>a. True" "''tok''" None "''GET''"]
    by (fastforce simp: list_form_def)
qed

end
