(* ===== verification/Drive_Tokens.thy ===== *)
theory Drive_Tokens
  imports Drive_Client
begin

text \<open>
  Requests to the platform at the same time. \<open>Drive_Client\<close> has \<open>request\<close> as one function; here it is cut into
  its steps (\<open>client.go\<close>), so that the requests of the worker, the panel and the relay interleave. They
  share the tokens in the configuration and the two package variables of \<open>auth.go\<close>; \<open>refreshToken\<close> holds a lock
  from its first to its last line and is one step.
\<close>

section \<open>The steps of a request\<close>

text \<open>
  Where a request is: before the rate limiter; before the refresh in good time; before it reads the token; waiting
  for the reply to a request with that token; with the reply; before the pause and before the forced refresh
  that precede another attempt; ended. The flag says that a refresh was forced already, the number
  is that of the attempts left.
\<close>

datatype req = QLimit bool nat | QKeep bool nat | QSend bool nat | QFlight bool nat string | QReply bool nat api_reply
  | QSleep bool nat | QForce nat | QEnd "client_error + string"

type_synonym call = "string \<times> string \<times> (string \<times> string) list"

definition reply_step :: "'w net \<Rightarrow> client \<Rightarrow> bool \<Rightarrow> nat \<Rightarrow> api_reply \<Rightarrow> req" where
  "reply_step ne cl refreshed left r =
     (case r of
        DoFailed \<Rightarrow> QEnd (Inl RequestFailed)
      | BadShell \<Rightarrow> QEnd (Inl ShellError)
      | ApiReply status state code message data \<Rightarrow>
          let answer = QEnd (if state then Inr data else Inl (APIError code message status data)) in
          (case left of
             0 \<Rightarrow> answer
           | Suc n \<Rightarrow>
               if status = 200 \<and> \<not> state \<and> contains message text_later then QSleep refreshed n
               else if \<not> refreshed \<and> isTokenExpired (neLower ne) status state code message then
                 (if clDeadReported cl then QEnd (Inl (APIError code message status data)) else QForce n)
               else answer))"

fun req_step :: "'w net \<Rightarrow> call \<Rightarrow> req \<Rightarrow> client \<Rightarrow> 'w \<Rightarrow> req \<times> client \<times> 'w" where
  "req_step ne c (QLimit rf n) cl w =
     (case neLimiter ne w of (ok, w1) \<Rightarrow> (if ok then QKeep rf n else QEnd (Inl Aborted), cl, w1))"
| "req_step ne c (QKeep rf n) cl w =
     (case refreshToken ne False [] cl w of
        (Inl e, cl1, w1) \<Rightarrow> (QEnd (Inl e), cl1, w1) | (Inr _, cl1, w1) \<Rightarrow> (QSend rf n, cl1, w1))"
| "req_step ne c (QSend rf n) cl w = (QFlight rf n (tdAccessToken (cfToken (clConf cl))), cl, w)"
| "req_step ne c (QFlight rf n token) cl w =
     (case c of (meth, path, params) \<Rightarrow>
        (case neDo ne w token meth path (removeEmpty params) of (r, w1) \<Rightarrow> (QReply rf n r, cl, w1)))"
| "req_step ne c (QReply rf n r) cl w = (reply_step ne cl rf n r, cl, w)"
| "req_step ne c (QSleep rf n) cl w =
     (case neSleep ne w (retryWaitTime * int (maxRetries - n)) of (ok, w1) \<Rightarrow> (if ok then QLimit rf n else QEnd (Inl Aborted), cl, w1))"
| "req_step ne c (QForce n) cl w =
     (case refreshToken ne True [] cl w of
        (Inl e, cl1, w1) \<Rightarrow> (QEnd (Inl e), cl1, w1) | (Inr _, cl1, w1) \<Rightarrow> (QLimit True n, cl1, w1))"
| "req_step ne c (QEnd x) cl w = (QEnd x, cl, w)"

text \<open>
  The program's requests side by side. A request begins, one of them does its next step, or something else
  happens: time passes, the platform's state changes.
\<close>

record 'w reqs =
  rqClient :: client
  rqWorld :: 'w
  rqReqs :: "(call \<times> req) list"

datatype 'w act = Begin call | Run nat | Elsewhere 'w

fun act_step :: "'w net \<Rightarrow> 'w act \<Rightarrow> 'w reqs \<Rightarrow> 'w reqs" where
  "act_step ne (Begin c) s = s\<lparr>rqReqs := rqReqs s @ [(c, QLimit False maxRetries)]\<rparr>"
| "act_step ne (Run i) s =
     (if i < length (rqReqs s) then
        (case rqReqs s ! i of (c, q) \<Rightarrow>
          (case req_step ne c q (rqClient s) (rqWorld s) of (q', cl, w) \<Rightarrow>
             s\<lparr>rqClient := cl, rqWorld := w, rqReqs := (rqReqs s)[i := (c, q')]\<rparr>))
      else s)"
| "act_step ne (Elsewhere w) s = s\<lparr>rqWorld := w\<rparr>"

section \<open>A request alone\<close>

definition alone :: "'w net \<Rightarrow> call \<Rightarrow> req \<times> client \<times> 'w \<Rightarrow> req \<times> client \<times> 'w" where
  "alone ne c s = (case s of (q, cl, w) \<Rightarrow> req_step ne c q cl w)"

definition leads :: "'w net \<Rightarrow> call \<Rightarrow> req \<times> client \<times> 'w \<Rightarrow> req \<times> client \<times> 'w \<Rightarrow> bool" where
  "leads ne c s t \<longleftrightarrow> (\<exists>k. (alone ne c ^^ k) s = t)"

lemma leads_refl: "leads ne c s s"
  unfolding leads_def by (rule exI [of _ 0]) simp

lemma leads_step: "req_step ne c q cl w = s \<Longrightarrow> leads ne c s t \<Longrightarrow> leads ne c (q, cl, w) t"
proof -
  assume s: "req_step ne c q cl w = s" and "leads ne c s t"
  then obtain k where "(alone ne c ^^ k) s = t" by (auto simp: leads_def)
  then have "(alone ne c ^^ Suc k) (q, cl, w) = t" using s by (simp del: funpow.simps add: funpow_Suc_right alone_def)
  then show ?thesis unfolding leads_def by blast
qed

lemma reply_cases: "(\<exists>x. reply_step ne cl rf n r = QEnd x) \<or>
    (\<exists>m. n = Suc m \<and> (reply_step ne cl rf n r = QSleep rf m \<or> reply_step ne cl rf n r = QForce m))"
  by (auto simp: reply_step_def Let_def split: api_reply.splits nat.splits)

text \<open>One round of the loop.\<close>

lemma round_leads:
  assumes loop: "request_loop ne meth path params rf n cl w = (res, cl', w')"
    and more: "\<And>m rf1 cl1 w1. n = Suc m \<Longrightarrow> request_loop ne meth path params rf1 m cl1 w1 = (res, cl', w') \<Longrightarrow>
      leads ne (meth, path, params) (QLimit rf1 m, cl1, w1) (QEnd res, cl', w')"
  shows "leads ne (meth, path, params) (QLimit rf n, cl, w) (QEnd res, cl', w')"
proof -
  obtain ok w1 where lim: "neLimiter ne w = (ok, w1)" by fastforce
  obtain k cl1 w2 where keep: "refreshToken ne False [] cl w1 = (k, cl1, w2)" by (metis prod_cases3)
  obtain r w3 where rep: "neDo ne w2 (tdAccessToken (cfToken (clConf cl1))) meth path (removeEmpty params) = (r, w3)" by fastforce
  note l = loop [unfolded request_loop.simps [of ne meth path params rf n cl w]]
  show ?thesis
  proof (cases "ok \<and> (\<exists>u. k = Inr u)")
    case False
    then show ?thesis using l lim keep
      by (cases ok; cases k) (auto intro!: leads_step [OF refl] simp: leads_refl)
  next
    case True
    then have ok: "ok" "k = Inr ()" by auto
    let ?q = "reply_step ne cl1 rf n r"
    have sent: ?thesis if "leads ne (meth, path, params) (?q, cl1, w3) (QEnd res, cl', w')"
      using that lim keep rep ok by (auto intro!: leads_step [OF refl])
    consider (ended) x where "?q = QEnd x" | (again) m where "n = Suc m" "?q = QSleep rf m" | (force) m where "n = Suc m" "?q = QForce m"
      using reply_cases [of ne cl1 rf n r] by blast
    then show ?thesis
    proof cases
      case ended
      then have "?q = QEnd res \<and> cl' = cl1 \<and> w' = w3" using l lim keep rep ok
        by (auto simp: reply_step_def Let_def split: api_reply.splits nat.splits if_splits)
      with sent leads_refl [of ne "(meth, path, params)" "(QEnd res, cl', w')"] show ?thesis by simp
    next
      case again
      obtain go w4 where z: "neSleep ne w3 (retryWaitTime * int (maxRetries - m)) = (go, w4)" by fastforce
      have "if go then request_loop ne meth path params rf m cl1 w4 = (res, cl', w') else res = Inl Aborted \<and> cl' = cl1 \<and> w' = w4"
        using l lim keep rep ok again z by (auto simp: reply_step_def Let_def split: api_reply.splits if_splits)
      then have "leads ne (meth, path, params) (if go then QLimit rf m else QEnd (Inl Aborted), cl1, w4) (QEnd res, cl', w')"
        using more again(1) by (auto simp: leads_refl)
      then show ?thesis using sent leads_step [of ne "(meth, path, params)" "QSleep rf m" cl1 w3] again(2) z by simp
    next
      case force
      obtain k2 cl2 w4 where z: "refreshToken ne True [] cl1 w3 = (k2, cl2, w4)" by (metis prod_cases3)
      have "case k2 of Inr _ \<Rightarrow> request_loop ne meth path params True m cl2 w4 = (res, cl', w') | Inl e \<Rightarrow> res = Inl e \<and> cl' = cl2 \<and> w' = w4"
        using l lim keep rep ok force z by (auto simp: reply_step_def Let_def split: api_reply.splits if_splits sum.splits)
      then have "leads ne (meth, path, params) (case k2 of Inr _ \<Rightarrow> QLimit True m | Inl e \<Rightarrow> QEnd (Inl e), cl2, w4) (QEnd res, cl', w')"
        using more force(1) by (cases k2) (auto simp: leads_refl)
      then show ?thesis using sent leads_step [of ne "(meth, path, params)" "QForce m" cl1 w3] force(2) z by (cases k2) simp_all
    qed
  qed
qed

lemma loop_leads:
  "request_loop ne meth path params rf n cl w = (res, cl', w') \<Longrightarrow>
    leads ne (meth, path, params) (QLimit rf n, cl, w) (QEnd res, cl', w')"
  by (induction n arbitrary: rf cl w) (blast intro: round_leads)+

section \<open>Requests side by side\<close>

text \<open>How many steps of its own a request still has at most.\<close>

fun steps_left :: "req \<Rightarrow> nat" where
  "steps_left (QLimit rf n) = 6 * n + 5"
| "steps_left (QKeep rf n) = 6 * n + 4"
| "steps_left (QSend rf n) = 6 * n + 3"
| "steps_left (QFlight rf n token) = 6 * n + 2"
| "steps_left (QReply rf n r) = 6 * n + 1"
| "steps_left (QSleep rf n) = 6 * n + 6"
| "steps_left (QForce n) = 6 * n + 6"
| "steps_left (QEnd x) = 0"

lemma step_counts: "steps_left (fst (req_step ne c q cl w)) \<le> steps_left q - 1"
  by (cases q) (auto simp: reply_step_def Let_def split: prod.splits sum.splits api_reply.splits nat.splits)

lemma ended_iff: "steps_left q = 0 \<longleftrightarrow> (\<exists>x. q = QEnd x)"
  by (cases q) auto

lemma act_keeps_others:
  "i < length (rqReqs s) \<Longrightarrow> a \<noteq> Run i \<Longrightarrow> i < length (rqReqs (act_step ne a s)) \<and> rqReqs (act_step ne a s) ! i = rqReqs s ! i"
  by (cases a) (auto simp: nth_append split: prod.splits)

lemma act_run:
  "i < length (rqReqs s) \<Longrightarrow> i < length (rqReqs (act_step ne (Run i) s)) \<and>
    steps_left (snd (rqReqs (act_step ne (Run i) s) ! i)) \<le> steps_left (snd (rqReqs s ! i)) - 1"
  using step_counts [of ne "fst (rqReqs s ! i)" "snd (rqReqs s ! i)" "rqClient s" "rqWorld s"]
  by (auto split: prod.splits)

lemma act_call: "i < length (rqReqs s) \<Longrightarrow> fst (rqReqs (act_step ne a s) ! i) = fst (rqReqs s ! i) \<and> i < length (rqReqs (act_step ne a s))"
  by (cases a) (auto simp: nth_append nth_list_update split: prod.splits)

lemma acts_call: "i < length (rqReqs s) \<Longrightarrow> fst (rqReqs (fold (act_step ne) as s) ! i) = fst (rqReqs s ! i)"
  by (induction as arbitrary: s) (simp_all add: act_call)

lemma acts_count:
  "i < length (rqReqs s) \<Longrightarrow> i < length (rqReqs (fold (act_step ne) as s)) \<and>
    steps_left (snd (rqReqs (fold (act_step ne) as s) ! i)) \<le> steps_left (snd (rqReqs s ! i)) - count_list as (Run i)"
proof (induction as arbitrary: s)
  case (Cons a as)
  show ?case
  proof (cases "a = Run i")
    case True
    then show ?thesis using act_run [OF Cons.prems, of ne] Cons.IH [of "act_step ne a s"] by fastforce
  next
    case False
    then show ?thesis using act_keeps_others [OF Cons.prems False, of ne] Cons.IH [of "act_step ne a s"] by simp
  qed
qed simp

section \<open>Forced refreshes\<close>

text \<open>Nothing stands in the way of a refresh: it is not cancelled, the platform grants it, the configuration is written.\<close>

definition always_refreshes :: "'w net \<Rightarrow> bool" where
  "always_refreshes ne \<longleftrightarrow>
     (\<forall>w. \<not> neCancelled ne w) \<and> (\<forall>cf. neSave ne cf) \<and>
     (\<forall>w rt. \<exists>code msg access expires new w'. neRefresh ne w rt = (RefreshReply 1 code msg access expires new, w'))"

abbreviation access_token :: "'w reqs \<Rightarrow> string" where "access_token s \<equiv> tdAccessToken (cfToken (clConf (rqClient s)))"
abbreviation refresh_token :: "'w reqs \<Rightarrow> string" where "refresh_token s \<equiv> tdRefreshToken (cfToken (clConf (rqClient s)))"

lemma SaveToken_kept: "SaveToken save now a rt ex cf = (r, cf') \<Longrightarrow> tdRefreshToken (cfToken cf) \<noteq> [] \<Longrightarrow> tdRefreshToken (cfToken cf') \<noteq> []"
  by (auto simp: SaveToken_def persistLocked_def Let_def split: if_splits)

lemma refresh_keeps_token:
  "refreshToken ne force over cl w = (r, cl', w') \<Longrightarrow> tdRefreshToken (cfToken (clConf cl)) \<noteq> [] \<Longrightarrow> tdRefreshToken (cfToken (clConf cl')) \<noteq> []"
  by (auto simp: refreshToken_def refresh_answer_def backoff_def Let_def
      split: if_splits prod.splits refresh_reply.splits option.splits dest: SaveToken_kept)

lemma step_keeps_token:
  "req_step ne c q cl w = (q', cl', w') \<Longrightarrow> tdRefreshToken (cfToken (clConf cl)) \<noteq> [] \<Longrightarrow> tdRefreshToken (cfToken (clConf cl')) \<noteq> []"
  by (cases q) (auto split: prod.splits sum.splits dest: refresh_keeps_token)

lemma act_keeps_token: "refresh_token s \<noteq> [] \<Longrightarrow> refresh_token (act_step ne a s) \<noteq> []"
  by (cases a) (auto split: prod.splits dest: step_keeps_token)

lemma acts_keep_token: "refresh_token s \<noteq> [] \<Longrightarrow> refresh_token (fold (act_step ne) as s) \<noteq> []"
  by (induction as arbitrary: s) (simp_all add: act_keeps_token)

lemma acts_keep_others:
  "i < length (rqReqs s) \<Longrightarrow> Run i \<notin> set as \<Longrightarrow>
    i < length (rqReqs (fold (act_step ne) as s)) \<and> rqReqs (fold (act_step ne) as s) ! i = rqReqs s ! i"
proof (induction as arbitrary: s)
  case (Cons a as)
  then show ?case using act_keeps_others [of i s a ne] Cons.IH [of "act_step ne a s"] by auto
qed simp

text \<open>A forced refresh goes to the platform whatever token is stored.\<close>

lemma forced_refresh_done:
  assumes "always_refreshes ne" "tdRefreshToken (cfToken (clConf cl)) \<noteq> []"
  shows "\<exists>cl'. refreshToken ne True [] cl w = (Inr (), cl', snd (neRefresh ne w (tdRefreshToken (cfToken (clConf cl))))) \<and>
    tdAccessToken (cfToken (clConf cl')) = rrAccess (fst (neRefresh ne w (tdRefreshToken (cfToken (clConf cl)))))"
proof -
  obtain code msg access expires new w' where
    "neRefresh ne w (tdRefreshToken (cfToken (clConf cl))) = (RefreshReply 1 code msg access expires new, w')"
    using assms(1) unfolding always_refreshes_def by blast
  then show ?thesis using assms by (simp add: refreshToken_def refresh_answer_def always_refreshes_def SaveToken_def persistLocked_def Let_def)
qed

lemma act_forced:
  assumes "always_refreshes ne" "refresh_token s \<noteq> []" "i < length (rqReqs s)" "rqReqs s ! i = (c, QForce n)"
  shows "rqWorld (act_step ne (Run i) s) = snd (neRefresh ne (rqWorld s) (refresh_token s)) \<and>
    access_token (act_step ne (Run i) s) = rrAccess (fst (neRefresh ne (rqWorld s) (refresh_token s))) \<and>
    rqReqs (act_step ne (Run i) s) = (rqReqs s)[i := (c, QLimit True n)]"
  using forced_refresh_done [OF assms(1,2), of "rqWorld s"] assms(3,4) by auto

section \<open>Properties\<close>

text \<open>The steps of a request that nobody disturbs are the request.\<close>

theorem request_is_its_steps:
  "\<exists>k. (alone ne (meth, path, params) ^^ k) (QLimit False maxRetries, cl, w) =
    (case request ne meth path params cl w of (res, cl', w') \<Rightarrow> (QEnd res, cl', w'))"
proof -
  obtain res cl' w' where r: "request ne meth path params cl w = (res, cl', w')" by (metis prod_cases3)
  then show ?thesis using loop_leads [of ne meth path params False maxRetries cl w] by (simp add: request_def leads_def)
qed

text \<open>C27. Every request ends. However the requests of the program interleave, whatever the platform answers, the other requests
  do to the tokens and the time that passes between the steps, a request that has done 23 steps of
  its own has ended.\<close>

theorem concurrent_requests_end:
  assumes "i < length (rqReqs s)" "rqReqs s ! i = (c, QLimit False maxRetries)" "23 \<le> count_list as (Run i)"
  shows "\<exists>x. rqReqs (fold (act_step ne) as s) ! i = (c, QEnd x)"
proof -
  have "steps_left (snd (rqReqs s ! i)) = 23" using assms(2) by (simp add: maxRetries_def)
  with acts_count [OF assms(1), of ne as] assms(3) have "steps_left (snd (rqReqs (fold (act_step ne) as s) ! i)) = 0" by simp
  then obtain x where "snd (rqReqs (fold (act_step ne) as s) ! i) = QEnd x" unfolding ended_iff by blast
  moreover have "fst (rqReqs (fold (act_step ne) as s) ! i) = c" using acts_call [OF assms(1), of ne as] assms(2) by simp
  ultimately show ?thesis by (metis prod.collapse)
qed

text \<open>
  An example platform: each refresh makes a new access token, numbered by the state, and only the
  newest is valid. The network is perfect and every refresh succeeds.
\<close>

definition session_net :: "nat net" where
  "session_net =
     \<lparr>neNow = (\<lambda>w. 0), neCancelled = (\<lambda>w. False), neLimiter = (\<lambda>w. (True, w)), neSleep = (\<lambda>w n. (True, w)),
      neRefresh = (\<lambda>w rt. (RefreshReply 1 0 [] (format_uint 10 (w + 1)) 7200 ''r'', w + 1)),
      neDo = (\<lambda>w token meth path params. (if token = format_uint 10 w then ApiReply 200 True 0 [] ''data'' else ApiReply 401 False 401 [] [], w)),
      neSave = (\<lambda>cf. True), neLower = (\<lambda>s. s)\<rparr>"

definition session_start :: "nat reqs" where
  "session_start =
     \<lparr>rqClient = NewClient \<lparr>cfSettings = undefined, cfTasks = [], cfToken = \<lparr>tdAccessToken = ''0'', tdRefreshToken = ''r'', tdExpireAt = 7200\<rparr>\<rparr>,
      rqWorld = 1, rqReqs = []\<rparr>"

definition user_call :: call where "user_call = (''GET'', ''/open/user/info'', [])"

definition sent_twice :: "nat act list" where
  "sent_twice = [Begin user_call, Begin user_call] @ replicate 5 (Run 0) @ replicate 5 (Run 1)"

lemma concurrent_requests_end_witness:
  "\<exists>x. rqReqs (fold (act_step session_net) (Elsewhere 5 # replicate 23 (Run 0)) (act_step session_net (Begin user_call) session_start)) ! 0 =
     (user_call, QEnd x)"
proof (rule concurrent_requests_end)
  let ?s = "act_step session_net (Begin user_call) session_start"
  show "0 < length (rqReqs ?s)" "rqReqs ?s ! 0 = (user_call, QLimit False maxRetries)" by (simp_all add: session_start_def)
  have "count_list (replicate n a) a = n" for n :: nat and a :: "nat act" by (induction n) simp_all
  then show "23 \<le> count_list (Elsewhere 5 # replicate 23 (Run 0)) (Run 0 :: nat act)" by simp
qed

lemma session_refresh: "neRefresh session_net w rt = (RefreshReply 1 0 [] (format_uint 10 (w + 1)) 7200 ''r'', w + 1)"
  by (simp add: session_net_def)

text \<open>C38. A refused access token is refreshed once per request, not once. When two requests were refused and both are about to refresh
  by force, then, on any platform that grants every refresh and whatever the other requests do in between, both go to the
  platform: the second refreshes although the first has just stored a new token, and replaces that token by its
  own. Should the first request be under way with the replaced token and the platform now refuse it
  with status 401, the first request ends with that error, however many attempts it has left, although no
  refresh failed.\<close>

theorem forced_refresh_races:
  fixes s :: "'w reqs"
  assumes "always_refreshes ne" "refresh_token s \<noteq> []" "i \<noteq> j" "i < length (rqReqs s)" "j < length (rqReqs s)"
    and "rqReqs s ! i = ((meth, path, params), QForce n)" "rqReqs s ! j = (c, QForce m)" "Run j \<notin> set as"
  defines "s1 \<equiv> act_step ne (Run i) s" and "s2 \<equiv> fold (act_step ne) as (act_step ne (Run i) s)"
    and "s3 \<equiv> act_step ne (Run j) (fold (act_step ne) as (act_step ne (Run i) s))"
  shows "rqWorld s1 = snd (neRefresh ne (rqWorld s) (refresh_token s)) \<and>
    access_token s1 = rrAccess (fst (neRefresh ne (rqWorld s) (refresh_token s))) \<and>
    rqWorld s3 = snd (neRefresh ne (rqWorld s2) (refresh_token s2)) \<and>
    access_token s3 = rrAccess (fst (neRefresh ne (rqWorld s2) (refresh_token s2))) \<and>
    (\<forall>k token code message data w.
       rqReqs s2 ! i = ((meth, path, params), QFlight True k token) \<longrightarrow>
       neDo ne (rqWorld s3) token meth path (removeEmpty params) = (ApiReply 401 False code message data, w) \<longrightarrow>
       rqReqs (act_step ne (Run i) (act_step ne (Run i) s3)) ! i = ((meth, path, params), QEnd (Inl (APIError code message 401 data))))"
proof -
  note f1 = act_forced [OF assms(1,2,4,6)]
  have j1: "j < length (rqReqs s1)" "rqReqs s1 ! j = (c, QForce m)" using f1 assms(3,5,7) by (simp_all add: s1_def)
  have s2: "s2 = fold (act_step ne) as s1" by (simp add: s1_def s2_def)
  have j2: "j < length (rqReqs s2)" "rqReqs s2 ! j = (c, QForce m)"
    using acts_keep_others [OF j1(1) assms(8), of ne] j1(2) s2 by simp_all
  have "refresh_token s2 \<noteq> []" unfolding s2_def by (rule acts_keep_token [OF act_keeps_token [OF assms(2)]])
  from act_forced [OF assms(1) this j2] have f3:
    "rqWorld s3 = snd (neRefresh ne (rqWorld s2) (refresh_token s2))"
    "access_token s3 = rrAccess (fst (neRefresh ne (rqWorld s2) (refresh_token s2)))"
    "rqReqs s3 = (rqReqs s2)[j := (c, QLimit True m)]" by (simp_all add: s2_def s3_def)
  have "i < length (rqReqs s1)" using f1 assms(4) by (simp add: s1_def)
  then have "i < length (rqReqs s2)" using acts_count [of i s1 ne as] s2 by simp
  then have i3: "i < length (rqReqs s3)" "rqReqs s3 ! i = rqReqs s2 ! i" using f3(3) assms(3) by simp_all
  have "rqReqs (act_step ne (Run i) (act_step ne (Run i) s3)) ! i = ((meth, path, params), QEnd (Inl (APIError code message 401 data)))"
    if "rqReqs s2 ! i = ((meth, path, params), QFlight True k token)"
      "neDo ne (rqWorld s3) token meth path (removeEmpty params) = (ApiReply 401 False code message data, w)"
    for k token code message data w
    using that i3 by (cases k) (simp_all add: reply_step_def Let_def)
  with f1 f3 show ?thesis by (simp add: s1_def)
qed

theorem forced_refresh_races_witness:
  "\<exists>s. map snd (rqReqs s) = [QForce 2, QForce 2] \<and> rqWorld s = 1 \<and>
    (let s3 = fold (act_step session_net) (Run 0 # replicate 3 (Run 0) @ [Run 1]) s in
     rqWorld s3 = 3 \<and> access_token s3 = ''3'' \<and>
     rqReqs (fold (act_step session_net) [Run 0, Run 0] s3) ! 0 = (user_call, QEnd (Inl (APIError 401 [] 401 []))))"
proof -
  let ?s = "fold (act_step session_net) sent_twice session_start" and ?as = "replicate 3 (Run 0)"
  let ?s2 = "fold (act_step session_net) ?as (act_step session_net (Run 0) ?s)"
  let ?s3 = "act_step session_net (Run 1) ?s2"
  have ok: "always_refreshes session_net" by (simp add: always_refreshes_def session_net_def)
  have s: "refresh_token ?s \<noteq> []" "0 < length (rqReqs ?s)" "1 < length (rqReqs ?s)" "rqWorld ?s = 1"
    "rqReqs ?s ! 0 = ((''GET'', ''/open/user/info'', []), QForce 2)" "rqReqs ?s ! 1 = (user_call, QForce 2)"
    "map snd (rqReqs ?s) = [QForce 2, QForce 2]" by code_simp+
  have s2: "rqReqs ?s2 ! 0 = ((''GET'', ''/open/user/info'', []), QFlight True 2 ''2'')" "rqWorld ?s2 = 2" by code_simp+
  note races = forced_refresh_races [OF ok s(1) zero_neq_one s(2,3,5,6), of ?as]
  have "Run 1 \<notin> set ?as" by simp
  note r = races [OF this]
  note now = r [THEN conjunct2, THEN conjunct2, THEN conjunct1] r [THEN conjunct2, THEN conjunct2, THEN conjunct2, THEN conjunct1]
  note fails = r [THEN conjunct2, THEN conjunct2, THEN conjunct2, THEN conjunct2, rule_format, OF s2(1)]
  have w3: "rqWorld ?s3 = 3" "access_token ?s3 = ''3''"
    by (simp_all only: now s2(2) session_refresh snd_conv fst_conv refresh_reply.sel) code_simp+
  have "neDo session_net (rqWorld ?s3) ''2'' ''GET'' ''/open/user/info'' (removeEmpty []) = (ApiReply 401 False 401 [] [], 3)"
    unfolding w3 by code_simp
  note e = fails [OF this, folded user_call_def]
  have f: "fold (act_step session_net) (Run 0 # ?as @ [Run 1]) ?s = ?s3"
    "fold (act_step session_net) [Run 0, Run 0] ?s3 = act_step session_net (Run 0) (act_step session_net (Run 0) ?s3)"
    by (simp_all only: fold_append fold_simps comp_apply id_apply)
  show ?thesis unfolding Let_def by (rule exI [of _ ?s], unfold f, intro conjI s(4,7) w3 e)
qed

end
