(* ===== verification/Panel_Live.thy ===== *)
theory Panel_Live
  imports Web_Panel Log_Feed
begin

text \<open>
  How the panel keeps up: \<open>Hub\<close> (\<open>webui/hub.go\<close>) and \<open>Feed\<close> (\<open>logfeed/logfeed.go\<close>) only signal that
  something changed, into channels that hold one signal, and the loop of \<open>handleEvents\<close> then reads the current
  state. Both are the same interface, the locale \<open>broadcast\<close>; its client, the loop, is a step relation in
  which changes, publications and readers interleave.
\<close>

section \<open>The loop and its surroundings\<close>

text \<open>
  A reader: waiting in its \<open>select\<close> with the version it sent last; woken, so that it reads the state next; with
  the version it read and is sending. A connection begins with sending the state, after it subscribed.
\<close>

datatype reader = Waiting nat | Woken | Sending nat

text \<open>
  \<open>lvVersion\<close> counts the changes of the state. \<open>lvDirty\<close> says that nothing was published since the last
  change.
\<close>

record 's live =
  lvVersion :: nat
  lvDirty :: bool
  lvHub :: 's
  lvReaders :: "(nat \<times> reader) list"

text \<open>What one reader does on its own; \<open>chans\<close> are the channels with their signal.\<close>

inductive read_step :: "('s \<Rightarrow> (nat \<times> bool) list) \<Rightarrow> (nat \<Rightarrow> 's \<Rightarrow> 's) \<Rightarrow> nat \<Rightarrow> 's live \<Rightarrow> 's live \<Rightarrow> bool"
  for chans :: "'s \<Rightarrow> (nat \<times> bool) list" and recv :: "nat \<Rightarrow> 's \<Rightarrow> 's" and ch :: nat where
  r_wake: "map_of (lvReaders s) ch = Some (Waiting v) \<Longrightarrow> map_of (chans (lvHub s)) ch = Some True \<Longrightarrow>
     read_step chans recv ch s (s\<lparr>lvHub := recv ch (lvHub s), lvReaders := AList.update ch Woken (lvReaders s)\<rparr>)"
| r_read: "map_of (lvReaders s) ch = Some Woken \<Longrightarrow>
     read_step chans recv ch s (s\<lparr>lvReaders := AList.update ch (Sending (lvVersion s)) (lvReaders s)\<rparr>)"
| r_sent: "map_of (lvReaders s) ch = Some (Sending v) \<Longrightarrow>
     read_step chans recv ch s (s\<lparr>lvReaders := AList.update ch (Waiting v) (lvReaders s)\<rparr>)"

inductive live_step :: "('s \<Rightarrow> (nat \<times> bool) list) \<Rightarrow> (nat \<Rightarrow> 's \<Rightarrow> 's) \<Rightarrow> ('s \<Rightarrow> 's) \<Rightarrow> (nat \<Rightarrow> 's \<Rightarrow> 's) \<Rightarrow> (nat \<Rightarrow> 's \<Rightarrow> 's) \<Rightarrow>
    's live \<Rightarrow> 's live \<Rightarrow> bool"
  for chans :: "'s \<Rightarrow> (nat \<times> bool) list" and recv :: "nat \<Rightarrow> 's \<Rightarrow> 's" and pub :: "'s \<Rightarrow> 's" and join leave :: "nat \<Rightarrow> 's \<Rightarrow> 's" where
  l_read: "read_step chans recv ch s t \<Longrightarrow> live_step chans recv pub join leave s t"
| l_change: "live_step chans recv pub join leave s (s\<lparr>lvVersion := lvVersion s + 1, lvDirty := True\<rparr>)"
| l_publish: "live_step chans recv pub join leave s (s\<lparr>lvHub := pub (lvHub s), lvDirty := False\<rparr>)"
| l_join: "map_of (lvReaders s) ch = None \<Longrightarrow>
     live_step chans recv pub join leave s (s\<lparr>lvHub := join ch (lvHub s), lvReaders := (ch, Woken) # lvReaders s\<rparr>)"
| l_leave: "live_step chans recv pub join leave s (s\<lparr>lvHub := leave ch (lvHub s), lvReaders := AList.delete ch (lvReaders s)\<rparr>)"

definition no_readers :: "'s \<Rightarrow> 's live" where
  "no_readers h = \<lparr>lvVersion = 0, lvDirty = False, lvHub = h, lvReaders = []\<rparr>"

text \<open>A reader's version is the current one, or something is on its way that will make it read again.\<close>

definition keeps_up :: "('s \<Rightarrow> (nat \<times> bool) list) \<Rightarrow> 's live \<Rightarrow> bool" where
  "keeps_up chans s \<longleftrightarrow>
     (\<forall>ch r. map_of (lvReaders s) ch = Some r \<longrightarrow>
        map_of (chans (lvHub s)) ch \<noteq> None \<and>
        (\<forall>v. r = Waiting v \<or> r = Sending v \<longrightarrow> v = lvVersion s \<or> lvDirty s \<or> map_of (chans (lvHub s)) ch = Some True))"

fun reader_left :: "reader option \<Rightarrow> nat" where
  "reader_left (Some (Waiting v)) = 0"
| "reader_left (Some Woken) = 2"
| "reader_left (Some (Sending v)) = 1"
| "reader_left None = 0"

definition read_effort :: "('s \<Rightarrow> (nat \<times> bool) list) \<Rightarrow> nat \<Rightarrow> 's live \<Rightarrow> nat" where
  "read_effort chans ch s = reader_left (map_of (lvReaders s) ch) + (if map_of (chans (lvHub s)) ch = Some True then 3 else 0)"

section \<open>The interface\<close>

locale broadcast =
  fixes chans :: "'s \<Rightarrow> (nat \<times> bool) list"
    and recv :: "nat \<Rightarrow> 's \<Rightarrow> 's"
    and pub :: "'s \<Rightarrow> 's"
    and join leave :: "nat \<Rightarrow> 's \<Rightarrow> 's"
  assumes recv_chans: "map_of (chans (recv ch h)) c = (if c = ch then map_option (\<lambda>_. False) (map_of (chans h) c) else map_of (chans h) c)"
    and pub_chans: "map_of (chans (pub h)) c = map_option (\<lambda>_. True) (map_of (chans h) c)"
    and join_chans: "map_of (chans (join ch h)) c = (if c = ch then Some False else map_of (chans h) c)"
    and leave_chans: "map_of (chans (leave ch h)) c = (if c = ch then None else map_of (chans h) c)"
begin

lemma read_keeps_up: "read_step chans recv ch s t \<Longrightarrow> keeps_up chans s \<Longrightarrow> keeps_up chans t"
  by (erule read_step.cases) (auto simp: keeps_up_def update_conv' recv_chans split: if_splits)

lemma live_keeps_up: "live_step chans recv pub join leave s t \<Longrightarrow> keeps_up chans s \<Longrightarrow> keeps_up chans t"
proof (induction rule: live_step.induct)
  case (l_read ch s t)
  then show ?case using read_keeps_up by blast
qed (auto simp: keeps_up_def pub_chans join_chans leave_chans delete_conv' split: if_splits)

lemma always_keeps_up: "(live_step chans recv pub join leave)\<^sup>*\<^sup>* (no_readers h) s \<Longrightarrow> keeps_up chans s"
proof (induction rule: rtranclp_induct)
  case base
  show ?case by (simp add: keeps_up_def no_readers_def)
qed (rule live_keeps_up)

lemma read_effort: "read_step chans recv ch s t \<Longrightarrow> read_effort chans ch t < read_effort chans ch s"
  by (erule read_step.cases) (auto simp: read_effort_def update_conv' recv_chans)

lemma reads_end: "(read_step chans recv ch ^^ n) s t \<Longrightarrow> n + read_effort chans ch t \<le> read_effort chans ch s"
proof (induction n arbitrary: t)
  case (Suc n)
  then obtain u where "(read_step chans recv ch ^^ n) s u" "read_step chans recv ch u t" by auto
  with Suc.IH read_effort show ?case by fastforce
qed auto

lemma reads_keep:
  "(read_step chans recv ch)\<^sup>*\<^sup>* s t \<Longrightarrow> keeps_up chans s \<Longrightarrow>
    keeps_up chans t \<and> lvVersion t = lvVersion s \<and> lvDirty t = lvDirty s \<and> (map_of (lvReaders t) ch = None) = (map_of (lvReaders s) ch = None)"
proof (induction rule: rtranclp_induct)
  case (step u t)
  from step(2) have "lvVersion t = lvVersion u \<and> lvDirty t = lvDirty u \<and> (map_of (lvReaders t) ch = None) = (map_of (lvReaders u) ch = None)"
    by (rule read_step.cases) (simp_all add: update_conv')
  with step read_keeps_up show ?case by auto
qed simp

lemma read_stuck:
  assumes "\<nexists>t. read_step chans recv ch s t" "map_of (lvReaders s) ch = Some r"
  shows "\<exists>v. r = Waiting v \<and> map_of (chans (lvHub s)) ch \<noteq> Some True"
  using assms r_wake [of s ch _ chans recv] r_read [of s ch chans recv] r_sent [of s ch _ chans recv] by (cases r) blast+

theorem shows_last_state:
  assumes "(live_step chans recv pub join leave)\<^sup>*\<^sup>* (no_readers h) s" "\<not> lvDirty s" "map_of (lvReaders s) ch \<noteq> None"
  shows "(\<forall>n t. (read_step chans recv ch ^^ n) s t \<longrightarrow> n \<le> 5) \<and>
    (\<forall>t. (read_step chans recv ch)\<^sup>*\<^sup>* s t \<and> (\<nexists>u. read_step chans recv ch t u) \<longrightarrow>
       map_of (lvReaders t) ch = Some (Waiting (lvVersion s)))"
proof (intro conjI allI impI)
  fix n t
  assume "(read_step chans recv ch ^^ n) s t"
  moreover have "read_effort chans ch s \<le> 5"
    by (cases "map_of (lvReaders s) ch" rule: reader_left.cases) (simp_all add: read_effort_def)
  ultimately show "n \<le> 5" using reads_end by fastforce
next
  fix t
  assume t: "(read_step chans recv ch)\<^sup>*\<^sup>* s t \<and> (\<nexists>u. read_step chans recv ch t u)"
  then have "(read_step chans recv ch)\<^sup>*\<^sup>* s t" ..
  from reads_keep [OF this always_keeps_up [OF assms(1)]] assms(2,3)
  have k: "keeps_up chans t" "lvVersion t = lvVersion s" "\<not> lvDirty t" "map_of (lvReaders t) ch \<noteq> None" by simp_all
  then obtain r where r: "map_of (lvReaders t) ch = Some r" by blast
  with read_stuck [of ch t r] t obtain v where v: "r = Waiting v" "map_of (chans (lvHub t)) ch \<noteq> Some True" by blast
  with k r have "v = lvVersion t" by (auto simp: keeps_up_def)
  with r v(1) k(2) show "map_of (lvReaders t) ch = Some (Waiting (lvVersion s))" by simp
qed

end

section \<open>The hub and the log feed\<close>

text \<open>Receiving from the channel of a subscriber, in the \<open>select\<close> of the loop.\<close>

definition hub_recv :: "nat \<Rightarrow> (nat \<times> bool) list \<Rightarrow> (nat \<times> bool) list" where
  "hub_recv ch subs = map (\<lambda>(c, b). (c, if c = ch then False else b)) subs"

lemma map_of_signals: "map_of (map (\<lambda>(c, b). (c, f c b)) subs) ch = map_option (f ch) (map_of subs ch)"
  by (induction subs) auto

lemma map_of_unsubscribed: "map_of (filter (\<lambda>p. fst p \<noteq> ch) subs) c = (if c = ch then None else map_of subs c)"
  by (induction subs) auto

interpretation hb: broadcast "\<lambda>subs. subs" hub_recv Publish hub_subscribe hub_unsubscribe
  by unfold_locales
    (auto simp: hub_recv_def Publish_def hub_subscribe_def hub_unsubscribe_def map_of_signals map_of_unsubscribed option.map_ident option.map_comp comp_def)

definition feed_recv :: "nat \<Rightarrow> Feed \<Rightarrow> Feed" where
  "feed_recv ch f = f\<lparr>fdSubs := hub_recv ch (fdSubs f)\<rparr>"

interpretation fe: broadcast fdSubs feed_recv "Add e" Subscribe unsubscribe
  by unfold_locales
    (auto simp: feed_recv_def hub_recv_def Add_def Let_def Subscribe_def unsubscribe_def map_of_signals map_of_unsubscribed option.map_ident)

section \<open>Properties\<close>

text \<open>C33. The panel never stays behind. In every interleaving of changes of the state, publications and connected panels, once the
  last change was published a panel has sent the current state after at most five steps of its own, and
  then waits: signals that are dropped, or come while it reads or sends, lose nothing.\<close>

theorem panel_shows_last_state:
  assumes "(live_step (\<lambda>subs. subs) hub_recv Publish hub_subscribe hub_unsubscribe)\<^sup>*\<^sup>* (no_readers []) s"
    and "\<not> lvDirty s" "map_of (lvReaders s) ch \<noteq> None"
  shows "(\<forall>n t. (read_step (\<lambda>subs. subs) hub_recv ch ^^ n) s t \<longrightarrow> n \<le> 5) \<and>
    (\<forall>t. (read_step (\<lambda>subs. subs) hub_recv ch)\<^sup>*\<^sup>* s t \<and> (\<nexists>u. read_step (\<lambda>subs. subs) hub_recv ch t u) \<longrightarrow>
       map_of (lvReaders t) ch = Some (Waiting (lvVersion s)))"
  by (rule hb.shows_last_state [OF assms])

theorem panel_shows_last_state_witness:
  "\<exists>s. (live_step (\<lambda>subs. subs) hub_recv Publish hub_subscribe hub_unsubscribe)\<^sup>*\<^sup>* (no_readers []) s \<and>
    lvVersion s = 1 \<and> lvReaders s = [(0, Sending 0)] \<and>
    (\<forall>t. (read_step (\<lambda>subs. subs) hub_recv 0)\<^sup>*\<^sup>* s t \<and> (\<nexists>u. read_step (\<lambda>subs. subs) hub_recv 0 t u) \<longrightarrow>
       map_of (lvReaders t) 0 = Some (Waiting 1))"
proof -
  let ?L = "live_step (\<lambda>subs. subs) hub_recv Publish hub_subscribe hub_unsubscribe"
  let ?a = "(no_readers [])\<lparr>lvHub := hub_subscribe 0 [], lvReaders := [(0, Woken)]\<rparr>"
  let ?b = "?a\<lparr>lvReaders := AList.update 0 (Sending 0) [(0, Woken)]\<rparr>"
  let ?c = "?b\<lparr>lvVersion := 0 + 1, lvDirty := True\<rparr>"
  let ?d = "?c\<lparr>lvHub := Publish (hub_subscribe 0 []), lvDirty := False\<rparr>"
  have "?L (no_readers []) ?a" using l_join [of "no_readers []" 0 "\<lambda>subs. subs"] by (simp add: no_readers_def)
  moreover have "?L ?a ?b" using l_read [OF r_read [of ?a 0 "\<lambda>subs. subs" hub_recv]] by (simp add: no_readers_def)
  moreover have "?L ?b ?c" using l_change [of "\<lambda>subs. subs" hub_recv Publish hub_subscribe hub_unsubscribe ?b] by (simp add: no_readers_def)
  moreover have "?L ?c ?d" using l_publish [of "\<lambda>subs. subs" hub_recv Publish hub_subscribe hub_unsubscribe ?c] by (simp add: no_readers_def)
  ultimately have r: "?L\<^sup>*\<^sup>* (no_readers []) ?d" by (meson rtranclp.rtrancl_into_rtrancl rtranclp.rtrancl_refl)
  have "\<not> lvDirty ?d" "map_of (lvReaders ?d) 0 \<noteq> None" "lvVersion ?d = 1" "lvReaders ?d = [(0, Sending 0)]" by simp_all
  with panel_shows_last_state [OF r] r show ?thesis by (intro exI [of _ ?d]) simp
qed

end
