(* ===== verification/Program.thy ===== *)
theory Program
  imports Panel_Settings Store_File
begin

text \<open>
  The program as a whole (\<open>cmd/115tools/main.go\<close>): how \<open>main\<close> puts its parts together, and how it ends
  beside the goroutines it started. The parts themselves are in the other theories.
\<close>

section \<open>Starting\<close>

text \<open>
  The parts that need no network. \<open>cfg\<close> is the parsed configuration file, \<open>None\<close> when \<open>conf.New\<close> fails;
  \<open>mkdir\<close> says whether a directory could be created. The result of compacting is only logged.
\<close>

datatype exit = ConfigFailed | StoreFailed open_error | CacheDirFailed

record 'h parts =
  ptConf :: Config
  ptStore :: "'h db_file"
  ptClient :: client
  ptCache :: cache

definition start_parts :: "('h, 'w) dblib \<Rightarrow> (string \<Rightarrow> bool) \<Rightarrow> (Settings \<times> Task list \<times> TokenData) option \<Rightarrow> string \<Rightarrow> 'w \<Rightarrow>
    (exit + 'h parts) \<times> 'w" where
  "start_parts dl mkdir cfg dataDir w =
     (case cfg of
        None \<Rightarrow> (Inl ConfigFailed, w)
      | Some (s, ts, td) \<Rightarrow>
          let cf = load_config s ts td in
          (case New_store dl (path_join dataDir ''sync.db'') w of
             (Inl e, w1) \<Rightarrow> (Inl (StoreFailed e), w1)
           | (Inr st, w1) \<Rightarrow>
               (case Compact_store dl st w1 of (_, st1, w2) \<Rightarrow>
                  let ca = start_cache dataDir (cfSettings cf) in
                  if \<not> mkdir (caDir ca) then (Inl CacheDirFailed, w2)
                  else (Inr \<lparr>ptConf = cf, ptStore = st1, ptClient = NewClient cf, ptCache = ca\<rparr>, w2))))"

section \<open>Ending\<close>

text \<open>
  \<open>main\<close>: waiting for the signal; the queue is closed; the runners are stopped; the web server has ended (at the
  latest after 30 seconds); the database is closed. Booting (\<open>EnsureRunning\<close>, by \<open>bootstrap\<close> or by the panel,
  one at a time): initialising; before the worker is started; before \<open>appWg\<close> learns of it; done. The
  worker: not there; before it looks at the queue; in the \<open>select\<close> of \<open>Take\<close>; with a job; gone.
\<close>

datatype main_pc = MWait | MStopping | MServing | MWaiting | MClosed
datatype boot_pc = BtInit | BtSpawn | BtRegister | BtDone
datatype worker_pc = WkNone | WkLook | WkSelect | WkRun Job | WkDone

text \<open>
  \<open>psWaits\<close>: \<open>appWg\<close> counts a goroutine that waits for the worker. \<open>psLate\<close>: booting was not over, or began, when
  the database was closed.
\<close>

record program =
  psQueue :: Queue
  psSignal :: bool
  psMain :: main_pc
  psBoot :: boot_pc
  psWorker :: worker_pc
  psWaits :: bool
  psLate :: bool

definition program_start :: program where
  "program_start = \<lparr>psQueue = NewQueue, psSignal = False, psMain = MWait, psBoot = BtInit, psWorker = WkNone, psWaits = False, psLate = False\<rparr>"

text \<open>The steps that lead to the end: those of \<open>main\<close>, of the worker, and of the goroutine that waits for it.\<close>

inductive end_step :: "program \<Rightarrow> program \<Rightarrow> bool" where
  m_close: "psMain s = MWait \<Longrightarrow> psSignal s \<Longrightarrow> end_step s (s\<lparr>psQueue := Job_Queue.Close (psQueue s), psMain := MStopping\<rparr>)"
| m_stop: "psMain s = MStopping \<Longrightarrow> end_step s (s\<lparr>psMain := MServing\<rparr>)"
| m_http: "psMain s = MServing \<Longrightarrow> end_step s (s\<lparr>psMain := MWaiting\<rparr>)"
| m_wait: "psMain s = MWaiting \<Longrightarrow> \<not> psWaits s \<Longrightarrow> end_step s (s\<lparr>psMain := MClosed, psLate := psBoot s \<noteq> BtDone\<rparr>)"
| w_take: "psWorker s = WkLook \<Longrightarrow> take_locked (psQueue s) = (Taken j, q) \<Longrightarrow> end_step s (s\<lparr>psQueue := q, psWorker := WkRun j\<rparr>)"
| w_closed: "psWorker s = WkLook \<Longrightarrow> take_locked (psQueue s) = (QueueClosed, q) \<Longrightarrow> end_step s (s\<lparr>psWorker := WkDone\<rparr>)"
| w_empty: "psWorker s = WkLook \<Longrightarrow> take_locked (psQueue s) = (MustWait, q) \<Longrightarrow> end_step s (s\<lparr>psWorker := WkSelect\<rparr>)"
| w_kick: "psWorker s = WkSelect \<Longrightarrow> q_kick (psQueue s) \<Longrightarrow> end_step s (s\<lparr>psQueue := (psQueue s)\<lparr>q_kick := False\<rparr>, psWorker := WkLook\<rparr>)"
| w_signal: "psWorker s = WkSelect \<Longrightarrow> psSignal s \<Longrightarrow> end_step s (s\<lparr>psWorker := WkDone\<rparr>)"
| w_ran: "psWorker s = WkRun j \<Longrightarrow> end_step s (s\<lparr>psWorker := WkLook\<rparr>)"
| g_done: "psWaits s \<Longrightarrow> psWorker s = WkDone \<Longrightarrow> end_step s (s\<lparr>psWaits := False\<rparr>)"

inductive program_step :: "program \<Rightarrow> program \<Rightarrow> bool" where
  p_end: "end_step s t \<Longrightarrow> program_step s t"
| p_signal: "program_step s (s\<lparr>psSignal := True\<rparr>)"
| p_queue: "program_step s (s\<lparr>psQueue := Enqueue j (psQueue s)\<rparr>)"
| p_drop: "program_step s (s\<lparr>psQueue := DropTask i (psQueue s)\<rparr>)"
| b_ready: "psBoot s = BtInit \<Longrightarrow> program_step s (s\<lparr>psBoot := BtSpawn\<rparr>)"
| b_failed: "psBoot s = BtInit \<Longrightarrow> program_step s (s\<lparr>psBoot := BtDone\<rparr>)"
| b_spawn: "psBoot s = BtSpawn \<Longrightarrow> program_step s (s\<lparr>psBoot := BtRegister, psWorker := WkLook\<rparr>)"
| b_register: "psBoot s = BtRegister \<Longrightarrow> program_step s (s\<lparr>psBoot := BtDone, psWaits := True\<rparr>)"
| b_again: "psBoot s = BtDone \<Longrightarrow> psWorker s = WkNone \<Longrightarrow>
     program_step s (s\<lparr>psBoot := BtInit, psLate := (psLate s \<or> psMain s = MClosed)\<rparr>)"

definition working :: "worker_pc \<Rightarrow> bool" where
  "working k \<longleftrightarrow> k \<notin> {WkNone, WkDone}"

definition program_ok :: "program \<Rightarrow> bool" where
  "program_ok s \<longleftrightarrow>
     (working (psWorker s) \<longrightarrow> psWaits s \<or> psBoot s = BtRegister) \<and>
     (psWaits s \<or> psBoot s = BtRegister \<longrightarrow> psWorker s \<noteq> WkNone) \<and> (psBoot s \<in> {BtInit, BtSpawn} \<longrightarrow> psWorker s = WkNone) \<and>
     (psMain s = MClosed \<and> \<not> psLate s \<longrightarrow> psBoot s = BtDone \<and> \<not> working (psWorker s)) \<and>
     (psLate s \<longrightarrow> psMain s = MClosed)"

text \<open>How many steps to the end there are at most; closing may wake the worker once.\<close>

fun main_left :: "main_pc \<Rightarrow> nat" where
  "main_left MWait = 6" | "main_left MStopping = 3" | "main_left MServing = 2" | "main_left MWaiting = 1" | "main_left MClosed = 0"

fun worker_left :: "worker_pc \<Rightarrow> nat" where
  "worker_left WkNone = 0" | "worker_left WkLook = 2" | "worker_left WkSelect = 1" | "worker_left (WkRun j) = 3" | "worker_left WkDone = 0"

definition end_effort :: "program \<Rightarrow> nat" where
  "end_effort s = main_left (psMain s) + worker_left (psWorker s) + 2 * length (q_order (psQueue s)) +
     (if q_kick (psQueue s) then 2 else 0) + (if psWaits s then 1 else 0)"

lemma take_locked_order:
  "take_locked q = (Taken j, q') \<Longrightarrow> length (q_order q) = Suc (length (q_order q')) \<and> q_kick q' = q_kick q"
  by (auto simp: take_locked_def split: list.splits if_splits)

lemma Close_order: "q_order (Job_Queue.Close q) = q_order q"
  by (simp add: Job_Queue.Close_def send_kick_def)

lemma end_effort_less: "end_step s t \<Longrightarrow> end_effort t < end_effort s"
  by (erule end_step.cases) (auto simp: end_effort_def Close_order dest: take_locked_order)

lemma working_simps [simp]: "\<not> working WkNone" "\<not> working WkDone" "working WkLook" "working WkSelect" "working (WkRun j)"
  by (simp_all add: working_def)

lemma end_step_ok: "end_step s t \<Longrightarrow> program_ok s \<Longrightarrow> program_ok t"
proof (induction rule: end_step.induct)
  case (m_wait s)
  then show ?case by (cases "psBoot s") (simp_all add: program_ok_def)
next
  case (w_closed s q)
  then show ?case by (simp add: program_ok_def) blast
next
  case (w_signal s)
  then show ?case by (simp add: program_ok_def) blast
qed (simp_all add: program_ok_def)

lemma program_step_ok: "program_step s t \<Longrightarrow> program_ok s \<Longrightarrow> program_ok t"
proof (induction rule: program_step.induct)
  case (p_end s t)
  then show ?case using end_step_ok by blast
qed (auto simp: program_ok_def working_def)

lemma reachable_program_ok: "program_step\<^sup>*\<^sup>* program_start s \<Longrightarrow> program_ok s"
proof (induction rule: rtranclp_induct)
  case base
  show ?case by (simp add: program_ok_def program_start_def working_def)
qed (rule program_step_ok)

lemma end_steps_bounded: "(end_step ^^ n) s t \<Longrightarrow> n + end_effort t \<le> end_effort s"
proof (induction n arbitrary: t)
  case (Suc n)
  then obtain u where "(end_step ^^ n) s u" "end_step u t" by auto
  with Suc.IH end_effort_less show ?case by fastforce
qed auto

lemma end_steps_keep:
  "end_step\<^sup>*\<^sup>* s t \<Longrightarrow> program_ok s \<Longrightarrow> psMain s = MClosed \<longrightarrow> \<not> psLate s \<Longrightarrow> psBoot s = BtDone \<Longrightarrow>
    program_ok t \<and> psSignal t = psSignal s \<and> psBoot t = BtDone \<and> \<not> psLate t"
proof (induction rule: rtranclp_induct)
  case base
  then show ?case by (auto simp: program_ok_def)
next
  case (step u t)
  from step(2) step(3) [OF step(4-6)] end_step_ok [of u t] show ?case by (auto elim!: end_step.cases)
qed

lemma end_stuck:
  assumes "program_ok s" "psSignal s" "psBoot s = BtDone" "\<nexists>t. end_step s t"
  shows "psMain s = MClosed"
proof -
  obtain r q where tk: "take_locked (psQueue s) = (r, q)" by fastforce
  have "\<not> working (psWorker s)"
    using assms(4,2) w_take [of s _ q] w_closed [of s q] w_empty [of s q] w_signal [of s] w_ran [of s] tk
    by (cases "psWorker s"; cases r) (auto simp: working_def)
  then have "\<not> psWaits s" using assms(1,4) g_done [of s] by (auto simp: program_ok_def working_def)
  then show ?thesis using assms(2,4) m_close [of s] m_stop [of s] m_http [of s] m_wait [of s] by (cases "psMain s") auto
qed

lemma start_effort: "end_effort s \<le> 2 * length (q_order (psQueue s)) + 12"
  by (cases "psMain s"; cases "psWorker s") (simp_all add: end_effort_def)

section \<open>Properties\<close>

text \<open>C17. The program ends in order. After the signal, when no boot is under way, the program has closed its database after a
  number of steps that only depends on the jobs still queued, whatever the order of the steps of its goroutines; and
  when it closes the database, the worker is not there or has ended: no job runs on a closed database.\<close>

theorem shutdown_in_order:
  assumes "program_step\<^sup>*\<^sup>* program_start s" "psSignal s" "psBoot s = BtDone" "psMain s \<noteq> MClosed"
  shows "(\<forall>n t. (end_step ^^ n) s t \<longrightarrow> n \<le> 2 * length (q_order (psQueue s)) + 12) \<and>
    (\<forall>t. end_step\<^sup>*\<^sup>* s t \<longrightarrow> (psMain t = MClosed \<longrightarrow> psWorker t \<in> {WkNone, WkDone}) \<and>
       ((\<nexists>u. end_step t u) \<longrightarrow> psMain t = MClosed))"
proof (intro conjI allI impI)
  show "n \<le> 2 * length (q_order (psQueue s)) + 12" if "(end_step ^^ n) s t" for n t
    using end_steps_bounded [OF that] start_effort [of s] by simp
  fix t
  assume "end_step\<^sup>*\<^sup>* s t"
  from end_steps_keep [OF this reachable_program_ok [OF assms(1)]] assms(2-4)
  have k: "program_ok t" "psSignal t" "psBoot t = BtDone" "\<not> psLate t" by simp_all
  show "psWorker t \<in> {WkNone, WkDone}" if "psMain t = MClosed" using k that by (auto simp: program_ok_def working_def)
  show "psMain t = MClosed" if "\<nexists>u. end_step t u" using end_stuck k that by blast
qed

theorem shutdown_in_order_witness:
  "\<exists>s. program_step\<^sup>*\<^sup>* program_start s \<and> psWorker s = WkLook \<and>
    (\<forall>t. end_step\<^sup>*\<^sup>* s t \<longrightarrow> ((\<nexists>u. end_step t u) \<longrightarrow> psMain t = MClosed))"
proof -
  let ?a = "program_start\<lparr>psBoot := BtSpawn\<rparr>"
  let ?b = "?a\<lparr>psBoot := BtRegister, psWorker := WkLook\<rparr>"
  let ?c = "?b\<lparr>psBoot := BtDone, psWaits := True\<rparr>"
  let ?d = "?c\<lparr>psSignal := True\<rparr>"
  have "program_step program_start ?a" by (rule b_ready) (simp add: program_start_def)
  moreover have "program_step ?a ?b" by (rule b_spawn) simp
  moreover have "program_step ?b ?c" by (rule b_register) simp
  moreover have "program_step ?c ?d" by (rule p_signal)
  ultimately have r: "program_step\<^sup>*\<^sup>* program_start ?d" by (meson rtranclp.rtrancl_into_rtrancl rtranclp.rtrancl_refl)
  have "psSignal ?d" "psBoot ?d = BtDone" "psMain ?d \<noteq> MClosed" "psWorker ?d = WkLook" by (simp_all add: program_start_def)
  with shutdown_in_order [OF r] r show ?thesis by (intro exI [of _ ?d]) simp
qed

text \<open>When the signal comes while the engine is being initialised, \<open>main\<close> does not wait for it: the database can be closed
  while a job runs.\<close>

lemma store_closed_early:
  "\<exists>s j. program_step\<^sup>*\<^sup>* program_start s \<and> psMain s = MClosed \<and> psWorker s = WkRun j"
proof -
  let ?S = "\<lambda>s. program_step\<^sup>*\<^sup>* program_start s"
  let ?j = "zero_Job"
  let ?q = "Job_Queue.Close (Enqueue ?j NewQueue)"
  let ?a = "program_start\<lparr>psQueue := Enqueue ?j NewQueue, psSignal := True\<rparr>"
  let ?b = "?a\<lparr>psQueue := ?q, psMain := MStopping\<rparr>"
  let ?c = "?b\<lparr>psMain := MClosed, psLate := True\<rparr>"
  let ?d = "?c\<lparr>psBoot := BtRegister, psWorker := WkLook\<rparr>"
  have go: "?S t" if "?S s" "program_step s t" for s t using that by simp
  have "program_step program_start (program_start\<lparr>psQueue := Enqueue ?j NewQueue\<rparr>)"
    using p_queue [of program_start ?j] by (simp add: program_start_def)
  from go [OF go [OF rtranclp.rtrancl_refl this] p_signal] have a: "?S ?a" .
  have "program_step ?a ?b" using p_end [OF m_close [of ?a]] by (simp add: program_start_def)
  moreover have "program_step ?b (?b\<lparr>psMain := MServing\<rparr>)" by (rule p_end [OF m_stop]) simp
  moreover have "program_step (?b\<lparr>psMain := MServing\<rparr>) (?b\<lparr>psMain := MWaiting\<rparr>)"
    using p_end [OF m_http [of "?b\<lparr>psMain := MServing\<rparr>"]] by simp
  moreover have "program_step (?b\<lparr>psMain := MWaiting\<rparr>) ?c"
    using p_end [OF m_wait [of "?b\<lparr>psMain := MWaiting\<rparr>"]] by (simp add: program_start_def)
  moreover have "program_step ?c (?c\<lparr>psBoot := BtSpawn\<rparr>)" by (rule b_ready) (simp add: program_start_def)
  moreover have "program_step (?c\<lparr>psBoot := BtSpawn\<rparr>) ?d" using b_spawn [of "?c\<lparr>psBoot := BtSpawn\<rparr>"] by simp
  moreover have "take_locked ?q = (Taken ?j, ?q\<lparr>q_order := [], q_pending := []\<rparr>)"
    by (simp add: take_locked_def Close_order Enqueue_def enqueue_locked_def NewQueue_def send_kick_def Let_def Job_Queue.Close_def pending_at_def)
  then have "program_step ?d (?d\<lparr>psQueue := ?q\<lparr>q_order := [], q_pending := []\<rparr>, psWorker := WkRun ?j\<rparr>)"
    by (intro p_end w_take) simp_all
  ultimately have "?S (?d\<lparr>psQueue := ?q\<lparr>q_order := [], q_pending := []\<rparr>, psWorker := WkRun ?j\<rparr>)"
    using a by (meson go)
  then show ?thesis by (intro exI [of _ "?d\<lparr>psQueue := ?q\<lparr>q_order := [], q_pending := []\<rparr>, psWorker := WkRun ?j\<rparr>"] exI [of _ ?j]) simp
qed

section \<open>Starting keeps the data\<close>

text \<open>The transaction that creates missing buckets takes nothing away.\<close>

definition buckets_keep :: "('h, 'w) dblib \<Rightarrow> ('w \<Rightarrow> string \<Rightarrow> 'c option) \<Rightarrow> bool" where
  "buckets_keep dl cont \<longleftrightarrow> (\<forall>w h ok w' q. dlBuckets dl w h = (ok, w') \<longrightarrow> cont w q \<noteq> None \<longrightarrow> cont w' q = cont w q)"

lemma New_store_keeps:
  assumes "dblib_ok dl cont file live" "buckets_keep dl cont" "cont w p = Some c" "New_store dl p w = (r, w')"
  shows "cont w' p = Some c" "\<forall>st. r = Inr st \<longrightarrow> dfPath st = p \<and> dfDb st \<noteq> None"
proof -
  note law = dblib_okD [OF assms(1)]
  obtain h w1 where o: "dlOpen dl w False p = (h, w1)" by fastforce
  have c1: "cont w1 p = Some c" by (rule law(1) [OF o assms(3)])
  have c2: "cont w2 p = Some c" if "dlBuckets dl w1 x = (ok, w2)" for x ok w2
    using assms(2) that c1 unfolding buckets_keep_def by (metis option.distinct(1))
  have c3: "cont (snd (dlClose dl w2 x)) p = cont w2 p" for w2 x using law(4) [of w2 x] by (metis prod.collapse)
  show "cont w' p = Some c" "\<forall>st. r = Inr st \<longrightarrow> dfPath st = p \<and> dfDb st \<noteq> None"
    using assms(4) o c1 c2 c3 by (auto simp: New_store_def split: option.splits prod.splits bool.splits)
qed

lemma start_keeps_data:
  assumes "dblib_ok dl cont file live" "buckets_keep dl cont" "cont w (path_join dataDir ''sync.db'') = Some c"
    and "start_parts dl mkdir cfg dataDir w = (r, w')"
  shows "cont w' (path_join dataDir ''sync.db'') = Some c"
proof (cases cfg)
  case None
  then show ?thesis using assms(3,4) by (simp add: start_parts_def)
next
  case (Some x)
  let ?p = "path_join dataDir ''sync.db''"
  obtain r1 w1 where n: "New_store dl ?p w = (r1, w1)" by fastforce
  note k = New_store_keeps [OF assms(1-3) n]
  show ?thesis
  proof (cases r1)
    case (Inl e)
    then show ?thesis using assms(4) Some n k(1) by (simp add: start_parts_def Let_def split: prod.splits)
  next
    case (Inr st)
    obtain res st1 w2 where cs: "Compact_store dl st w1 = (res, st1, w2)" by (metis prod_cases3)
    from k Inr obtain db where db: "dfPath st = ?p" "dfDb st = Some db" by auto
    from compact_data [OF assms(1) db(2) _ cs, of c] k(1) db(1) have "cont w2 ?p = Some c" by simp
    then show ?thesis using assms(4) Some n Inr cs by (auto simp: start_parts_def Let_def split: prod.splits if_splits)
  qed
qed

end
