(* ===== verification/Spec2Isabelle.thy ===== *)
theory Spec2Isabelle
  imports Pickcode Job_Queue Record_Codec Index_Props Plan_Props Plan_Cloud Apply_Props
    Activity_Props Conf_Props Scan_Props Engine_Cancel Engine_Props Apply_Settles Log_Props Torrent_Props
    Upload_Props Cache_Props Relay Drive_Client Offline_Props Panel_Props Plan_Typed
    Engine_Watch Engine_Lifecycle Engine_Registry Drive_World Store_File Web_Routes Drive_Wire Drive_Tokens Panel_Live Program
begin

text \<open>
  115tools mirrors local directories and directories of the 115 cloud, serves links to the mirrored videos and
  has a web panel. This development models its Go code and proves what its parts promise.

  \<^bold>\<open>The program.\<close> A task (\<open>internal/conf\<close>) names a local directory, a cloud directory and the directions to
  keep in step. Watchers, timers and users submit jobs to one queue (\<open>internal/engine/queue.go\<close>,
  \<open>runner.go\<close>); a single worker (\<open>engine.go\<close>) takes a job, plans it by comparing the local tree, a
  persistent index and, for downloads, a snapshot of the cloud (\<open>internal/mirror/plan.go\<close>, \<open>scan.go\<close>),
  and executes the plan through the cloud client (\<open>apply.go\<close>, \<open>cloud.go\<close>, \<open>internal/drive\<close>). An uploaded
  video is replaced by a \<open>.strm\<close> file with a link to \<open>internal/relay\<close>, and may be kept for a while in
  \<open>internal/cache\<close>. Index and activity events live in one bbolt database (\<open>internal/store\<close>); warnings go to a
  ring buffer (\<open>internal/logfeed\<close>). The panel (\<open>internal/webui\<close>) edits settings and tasks and streams
  the state.

  \<^bold>\<open>Prelude.\<close> \<open>Go_Base\<close> (integers, byte strings, \<open>strings\<close>, \<open>strconv\<close>), \<open>Go_Path\<close>
  (\<open>path/filepath\<close>), \<open>Go_Text\<close> (UTF-8, file name patterns, URLs). A Go string is a list of bytes; an integer the
  code stores or compares at its width is a word, a length or an index a \<^typ>\<open>nat\<close>, a time an \<^typ>\<open>int\<close>, and a
  sum that can leave the range of an int64 is written with \<open>wrap64\<close>. A call that returns \<open>(value, error)\<close> is a
  sum or an option; a panic is the outcome \<open>Panic\<close>.

  \<^bold>\<open>Components.\<close>
  \<^item> \<open>Job_Queue\<close>: \<open>queue.go\<close>. The locale \<open>dedup_queue\<close> is what the engine relies on; every key is delivered
    once with its highest trigger, and the worker never sleeps on work.
  \<^item> \<open>Record_Codec\<close>, \<open>Store_Index\<close>, \<open>Store_Bucket\<close>, \<open>Index_Facts\<close>, \<open>Index_Props\<close>: \<open>store/index.go\<close> over a
    bucket. bbolt is the parameter \<open>bolt\<close>, its documented behaviour the locale \<open>bucket\<close>. Which records the
    scans and \<open>ClearTree\<close> reach, and the file names on which they miss records or never end.
  \<^item> \<open>Activity_Types\<close>, \<open>Store_Activity\<close>, \<open>Activity_Facts\<close>, \<open>Activity_Props\<close>: \<open>store/activity.go\<close>, the
    events with their limit and pages; the locale \<open>log_bucket\<close> extends \<open>bucket\<close>.
  \<^item> \<open>Mirror_Model\<close>, \<open>Strm_Facts\<close>: \<open>mirror/model.go\<close> and \<open>strm.go\<close>; a written link reads back.
  \<^item> \<open>Mirror_Plan\<close>, \<open>Plan_Facts\<close>, \<open>Index_Link\<close>, \<open>Plan_Props\<close>, \<open>Plan_Cloud\<close>, \<open>Plan_Typed\<close>: \<open>plan.go\<close>. The locale
    \<open>index_contract\<close> is what the planner needs of the index; a store over a bucket provides it. Termination,
    which record each clean-up of a plan is for, the empty plan of a synchronised tree, exactly the plan of a snapshot, and that actions
    carry what their handlers read.
  \<^item> \<open>Mirror_Apply\<close>, \<open>Apply_Facts\<close>, \<open>Apply_World\<close>, \<open>Apply_Props\<close>, \<open>Apply_Settles\<close>: \<open>apply.go\<close> and \<open>cloud.go\<close> as steps
    over a record \<open>env\<close> of outside calls. The locales \<open>index_world\<close>, \<open>mirror_files\<close> and \<open>mirror_world\<close> are the laws on index,
    files and uploads. That the handler of every action runs, in order and whatever fails, and that an executed upload
    leaves nothing to plan.
  \<^item> \<open>Mirror_Scan\<close>, \<open>Scan_Props\<close>: \<open>scan.go\<close>. The snapshot lists the whole tree.
  \<^item> \<open>Task_Conf\<close>, \<open>Conf_Props\<close>: \<open>internal/conf\<close>. Every change keeps the tasks valid and their directories apart,
    but for a task on the root.
  \<^item> \<open>Engine_Runner\<close>, \<open>Engine_Core\<close>, \<open>Engine_Cancel\<close>, \<open>Engine_Props\<close>: \<open>runner.go\<close>, \<open>progress.go\<close>, \<open>engine.go\<close> and the
    task handlers. The operations one after the other with their invariant, rehearsals against runs, the
    interleaving of stopping and running.
  \<^item> \<open>Engine_Watch\<close>: the goroutines of \<open>watchLoop\<close> with the debouncer's timer, the queue and the worker as one step
    relation; no file event is lost. \<open>Engine_Lifecycle\<close>: booting, reloading, stopping and removing as concurrent threads on
    a shared registry; who watches when they do not overlap, and the runners that go on for ever when they do. \<open>Engine_Registry\<close>: what
    stays true of the registry in every interleaving.
  \<^item> \<open>Store_File\<close>: opening and compacting the database file (\<open>store/store.go\<close>). No failure loses the data.
  \<^item> \<open>Drive_Client\<close>: \<open>drive/client.go\<close>, \<open>auth.go\<close>, \<open>user.go\<close>. Requests with retries and token refresh: how many
    round trips, and when refreshing rests. \<open>Drive_Wire\<close>: the HTTP request built from the parameters and the typed calls on it;
    what the platform reads is what was meant. \<open>Drive_Tokens\<close>: requests in steps that interleave on the shared tokens;
    each ends, but forced refreshes get in each other's way.
  \<^item> \<open>Drive_Files\<close>, \<open>Drive_Upload\<close>, \<open>Upload_Props\<close>: \<open>drive/files.go\<close> and \<open>upload.go\<close>. Listing by pages gives the whole
    directory; the parts of an upload make up the file. \<open>Drive_World\<close>: the executor's calls filled with the client's;
    what \<open>mirror_world\<close> demands follows from what the platform promises, and what happens to
    a known file that comes without a pickcode.
  \<^item> \<open>Pickcode\<close>, \<open>Torrent\<close>, \<open>Torrent_Props\<close>, \<open>Offline_Tasks\<close>, \<open>Offline_Props\<close>: \<open>drive/pickcode.go\<close>, \<open>torrent.go\<close>,
    \<open>offline.go\<close>, \<open>sha1.go\<close> and \<open>webui/handler_offline.go\<close>. Decoders against encoders; a torrent becomes a link that
    reads back.
  \<^item> \<open>Local_Cache\<close>, \<open>Cache_Props\<close>: \<open>internal/cache\<close>. A video stays through the hourly sweeps until its retention has passed.
  \<^item> \<open>Relay\<close>: \<open>relay/redirect.go\<close>. How long a link is served.
  \<^item> \<open>Log_Feed\<close>, \<open>Log_Props\<close>: \<open>internal/logfeed\<close> and its readers. The buffer refines a list; the event stream.
  \<^item> \<open>Web_Panel\<close>, \<open>Panel_Settings\<close>, \<open>Panel_Props\<close>: sessions, the directory browser, the hub, saving the settings, the
    background rebuild and the lists; where the stored refresh token comes from. \<open>Panel_Live\<close>: hub and log feed as the locale \<open>broadcast\<close>, and the loops that read
    after a signal; a panel never stays behind.
  \<^item> \<open>Web_Routes\<close>: the route table of \<open>webui/server.go\<close>, the static pages, a client's address, and the event stream of
    \<open>handler_events.go\<close> chunk by chunk. What is reachable without a login; what a reader of the stream gets.
  \<^item> \<open>Program\<close> (and \<open>bootstrap\<close>, \<open>setupLogging\<close> in \<open>Panel_Settings\<close>): \<open>cmd/115tools/main.go\<close>. Putting the parts together; the shutdown beside
    booting, worker and queue: the database is closed after the worker has ended, unless the engine is still initialising.

  \<^bold>\<open>Bounds and fuel.\<close> A context is a countdown of checks (\<open>None\<close>: never cancelled). Recursion over directories
  (\<open>planDir\<close>, \<open>scan_walk\<close>, \<open>count_walk\<close>) has fuel: \<open>PlanLocal_terminates\<close> shows that more than the height of a
  finite tree is enough, and the properties hold for every fuel that gives a result. The torrent
  reader's fuel is \<open>skip_fuel\<close>, twice the length of the file and two, which \<open>parseTorrent_returns\<close> shows to be
  enough for every input. Loops over a database cursor and over pages of a directory are partial functions,
  so that not returning is a value; \<open>Children_diverges_iff\<close> says when that is the case, and \<open>GetFileList_exact\<close> shows that
  paging ends. All other loops are structural or have a termination proof.

  \<^bold>\<open>Parameters.\<close> bbolt, the JSON codec, bcrypt, SHA-1, the object store's SDK, the HTTP round trips, the rate
  limiter, the file system, clocks, random tokens, Unicode lower-casing and the URL check of the host are arguments
  of the definitions. What is assumed of them is a hypothesis or a locale assumption, met by a concrete
  instance in each witness.

  \<^bold>\<open>Not modelled.\<close> The file watcher library; the JSON and the headers of HTTP requests and responses; log texts; the concurrency of
  the cloud scan (its result is sorted) and of requests for one link (they share a query); copying the contents in
  the relay and its limit on requests to the origin; the wiring of the web server in \<open>main\<close>; the mock server \<open>cmd/_mock\<close>; the version constant.
\<close>

end
